(* ===== verification/HalPrelude.thy ===== *)
theory HalPrelude
  imports Main "HOL-Library.Word"
begin

text \<open>
  Shared vocabulary of the development: the C integer types at their width, C bit fields of
  32-bit registers, straight-line statement blocks, and busy-wait loops on hardware.
  The lemmas here are the ones every component uses: what a bit field reads after a write to the
  same field or to a disjoint one, and when a busy-wait loop returns.
\<close>

unbundle bit_operations_syntax

section \<open>C integer types\<close>

type_synonym u8 = "8 word"
type_synonym u16 = "16 word"
type_synonym u32 = "32 word"
type_synonym u64 = "64 word"

text \<open>
  Pointers the drivers only store, compare with NULL and hand on (callback functions, handles,
  event groups) are opaque numbers; 0 is NULL.
\<close>

type_synonym ptr = nat

abbreviation (input) NULL :: ptr where
  "NULL \<equiv> 0"

lemma uint_u32_less: "uint (v :: u32) < 2 ^ 32"
  using uint_lt2p [of v] by simp


lemma bit31_u32: "bit (v::u32) 31 \<longleftrightarrow> 2 ^ 31 \<le> uint v"
proof -
  have "bit v 31 \<longleftrightarrow> bit (uint v) 31" by (simp add: bit_unsigned_iff)
  also have "\<dots> \<longleftrightarrow> odd (uint v div 2 ^ 31)" by (simp add: bit_iff_odd)
  also have "\<dots> \<longleftrightarrow> 2 ^ 31 \<le> uint v"
  proof (cases "2 ^ 31 \<le> uint v")
    case True
    then have "uint v div 2 ^ 31 = 1"
      using uint_u32_less [of v]
      by (intro int_div_pos_eq [where r = "uint v - 2 ^ 31"]) auto
    with True show ?thesis by simp
  next
    case False
    then show ?thesis by (simp add: div_pos_pos_trivial)
  qed
  finally show ?thesis .
qed

lemma sint_u32: "sint (v :: u32) = (if uint v < 2 ^ 31 then uint v else uint v - 2 ^ 32)"
proof -
  have "sint v = take_bit 32 (uint v) - 2 ^ 32 * of_bool (bit (uint v) 31)"
    using signed_take_bit_eq_take_bit_minus [of 31 "uint v"] by (simp add: sint_uint)
  moreover have "take_bit 32 (uint v) = uint v" 
    using take_bit_int_eq_self [of "uint v" 32] uint_lt2p [of v] by simp
  moreover have "bit (uint v) 31 = bit v 31" by (simp add: bit_unsigned_iff)
  ultimately have "sint v = uint v - 2 ^ 32 * of_bool (2 ^ 31 \<le> uint v)" by (simp add: bit31_u32)
  then show ?thesis by auto
qed

lemma uint_minus_u32: "uint (v :: u32) \<noteq> 0 \<Longrightarrow> uint (- v) = 2 ^ 32 - uint v"
proof -
  assume "uint v \<noteq> 0"
  have "uint (- v) = (- uint v) mod 2 ^ 32"
    using uint_word_ariths(4) [of v] by simp
  also have "\<dots> = (2 ^ 32 - uint v) mod 2 ^ 32"
    by simp
  also have "\<dots> = 2 ^ 32 - uint v"
    using \<open>uint v \<noteq> 0\<close> uint_u32_less [of v] by (intro mod_pos_pos_trivial) (auto simp: less_le)
  finally show ?thesis .
qed

lemma sless_0_iff: "(v :: u32) <s 0 \<longleftrightarrow> 2 ^ 31 \<le> uint v"
  using uint_u32_less [of v] by (simp add: word_sless_alt sint_u32)

text \<open>A property of bytes is checked by going through the 256 of them.\<close>

lemma all_u8:
  "(\<forall>x :: u8. P x) \<longleftrightarrow> list_all (\<lambda>n. P (word_of_nat n)) [0..<256]"
proof
  assume "list_all (\<lambda>n. P (word_of_nat n)) [0..<256]"
  then have all: "P (word_of_nat n)" if "n < 256" for n
    using that by (simp add: list_all_iff)
  show "\<forall>x. P x"
  proof
    fix x :: u8
    have "unat x < 256"
      using unsigned_less [of x] by simp
    from all [OF this] show "P x"
      by simp
  qed
qed (simp add: list_all_iff)

text \<open>Equations between byte expressions over several variables are checked bit by bit.\<close>

lemma byte_eqI:
  fixes x y :: u8
  assumes "list_all (\<lambda>n. bit x n = bit y n) [0, 1, 2, 3, 4, 5, 6, 7]"
  shows "x = y"
proof (rule bit_word_eqI)
  fix n
  assume "n < LENGTH(8)"
  then have "n \<in> set [0, 1, 2, 3, 4, 5, 6, 7]"
    by (simp add: less_Suc_eq numeral_eq_Suc)
  with assms show "bit x n = bit y n"
    by (simp only: list_all_iff)
qed

lemmas byte_bits = list.pred_inject bit_and_iff bit_or_iff bit_push_bit_iff bit_drop_bit_eq o_def

section \<open>Bit fields of a 32-bit register\<close>

text \<open>
  \<open>uint32_t f : w\<close> at bit offset \<open>o\<close> of a register union is the pair \<open>(o, w)\<close>. Reading
  it shifts and masks; assigning to it keeps the other bits and truncates the value to \<open>w\<close> bits.
\<close>

type_synonym bfield = "nat \<times> nat"

definition bf_get :: "bfield \<Rightarrow> u32 \<Rightarrow> u32" where
  "bf_get f w = take_bit (snd f) (drop_bit (fst f) w)"

definition bf_put :: "bfield \<Rightarrow> u32 \<Rightarrow> u32 \<Rightarrow> u32" where
  "bf_put f v w =
     (w AND NOT (push_bit (fst f) (mask (snd f)))) OR push_bit (fst f) (take_bit (snd f) v)"

definition bf_disjoint :: "bfield \<Rightarrow> bfield \<Rightarrow> bool" where
  "bf_disjoint f g \<longleftrightarrow> fst f + snd f \<le> fst g \<or> fst g + snd g \<le> fst f"

named_theorems bits

lemma bit_bf_get [bits]:
  "bit (bf_get f w) n \<longleftrightarrow> n < snd f \<and> bit w (n + fst f)"
  by (simp add: bf_get_def bit_take_bit_iff bit_drop_bit_eq add.commute)

lemma bit_bf_put [bits]:
  "bit (bf_put f v w) n \<longleftrightarrow>
     (if fst f \<le> n \<and> n < fst f + snd f then n < 32 \<and> bit v (n - fst f) else bit w n)"
proof (cases "n < 32")
  case True
  then show ?thesis
    by (auto simp: bf_put_def bit_or_iff bit_and_iff bit_not_iff bit_push_bit_iff bit_mask_iff
        bit_take_bit_iff)
next
  case False
  then show ?thesis
    by (auto dest: bit_imp_le_length)
qed

lemma bf_get_put_same:
  assumes "fst f + snd f \<le> 32"
  shows "bf_get f (bf_put f v w) = take_bit (snd f) v"
  by (rule bit_word_eqI) (use assms in \<open>auto simp: bits bit_take_bit_iff\<close>)

lemma bf_get_put_other:
  assumes "bf_disjoint f g"
  shows "bf_get g (bf_put f v w) = bf_get g w"
  by (rule bit_word_eqI) (use assms in \<open>auto simp: bits bf_disjoint_def\<close>)

lemma bf_get_le: "n < snd f \<or> \<not> bit (bf_get f w) n"
  by (simp add: bits)

lemma unat_bf_get_less: "unat (bf_get f w) < 2 ^ snd f"
proof -
  have "unat (bf_get f w) = take_bit (snd f) (unat (drop_bit (fst f) w))"
    by (simp add: bf_get_def unsigned_take_bit_eq)
  then show ?thesis
    by simp
qed

lemma bf_put_put_same:
  "bf_put f v (bf_put f u w) = bf_put f v w"
  by (rule bit_word_eqI) (auto simp: bits)

lemma bf_put_commute:
  assumes "bf_disjoint f g"
  shows "bf_put f v (bf_put g u w) = bf_put g u (bf_put f v w)"
  by (rule bit_word_eqI) (use assms in \<open>auto simp: bits bf_disjoint_def\<close>)

text \<open>A one-bit field as the truth value C gives it in a condition.\<close>

definition bflag :: "bfield \<Rightarrow> u32 \<Rightarrow> bool" where
  "bflag f w \<longleftrightarrow> bf_get f w \<noteq> 0"

definition of_flag :: "bool \<Rightarrow> u32" where
  "of_flag b = (if b then 1 else 0)"

lemma of_flag_simps [simp]: "of_flag True = 1" "of_flag False = 0"
  by (simp_all add: of_flag_def)

lemma of_flag_eq_0 [simp]: "of_flag b = 0 \<longleftrightarrow> \<not> b" "of_flag b \<noteq> 0 \<longleftrightarrow> b"
  by (simp_all add: of_flag_def)

lemma of_flag_mod_2 [simp]: "of_flag b mod 2 = of_flag b"
  by (simp add: of_flag_def)

lemma take_bit_of_flag: "0 < n \<Longrightarrow> take_bit n (of_flag b) = of_flag b"
  by (cases n) (simp_all add: of_flag_def take_bit_Suc)

section \<open>Statement blocks and loops\<close>

text \<open>A C block of statements: each maps the state, in order.\<close>

primrec exec :: "('s \<Rightarrow> 's) list \<Rightarrow> 's \<Rightarrow> 's" where
  "exec [] s = s"
| "exec (f # fs) s = exec fs (f s)"

lemma exec_append: "exec (fs @ gs) s = exec gs (exec fs s)"
  by (induction fs arbitrary: s) simp_all

text \<open>
  A block some of whose statements may not return (a wait that never ends, a NULL handle): the block
  stops at the first one that does not. A statement that always returns enters it through \<open>stmt\<close>.
\<close>

primrec run :: "('s \<Rightarrow> 's option) list \<Rightarrow> 's \<Rightarrow> 's option" where
  "run [] s = Some s"
| "run (f # fs) s = (case f s of None \<Rightarrow> None | Some t \<Rightarrow> run fs t)"

definition stmt :: "('s \<Rightarrow> 's) \<Rightarrow> 's \<Rightarrow> 's option" where
  "stmt f s = Some (f s)"

lemma stmt_apply [simp]: "stmt f s = Some (f s)"
  by (simp add: stmt_def)

lemma run_append: "run (fs @ gs) s = (case run fs s of None \<Rightarrow> None | Some t \<Rightarrow> run gs t)"
  by (induction fs arbitrary: s) (simp_all split: option.splits)

lemma run_map_stmt: "run (map stmt fs) s = Some (exec fs s)"
  by (induction fs arbitrary: s) simp_all

lemma run_inv:
  assumes "run fs s = Some t" and "P s"
    and "\<And>f s t. f \<in> set fs \<Longrightarrow> f s = Some t \<Longrightarrow> P s \<Longrightarrow> P t"
  shows "P t"
  using assms
proof (induction fs arbitrary: s)
  case (Cons f fs)
  then obtain u where "f s = Some u" and "run fs u = Some t"
    by (auto split: option.splits)
  then show ?case
    using Cons.IH [of u] Cons.prems by force
qed simp

text \<open>A C loop \<open>for (i = a; i < b; i++) body\<close> is \<open>fold body [a..<b]\<close>.\<close>

lemma fold_upt_Suc: "a \<le> b \<Longrightarrow> fold f [a..<Suc b] s = f b (fold f [a..<b] s)"
  by simp

text \<open>An invariant of a counting loop, indexed by the number of iterations done.\<close>

lemma fold_upt_inv:
  assumes "P 0 s" and "\<And>i s. i < n \<Longrightarrow> P i s \<Longrightarrow> P (Suc i) (f i s)"
  shows "P n (fold f [0..<n] s)"
  using assms(2)
proof (induction n)
  case 0
  with assms(1) show ?case by simp
next
  case (Suc n)
  have "P n (fold f [0..<n] s)"
    by (rule Suc.IH) (simp add: Suc.prems)
  then show ?case
    by (simp add: Suc.prems)
qed

text \<open>
  A busy-wait loop \<open>while (!c) ;\<close> whose condition reads volatile hardware state. Before every
  reading of the condition the hardware makes a step \<open>env\<close>; the loop may never end.
\<close>

partial_function (option) await :: "('s \<Rightarrow> 's) \<Rightarrow> ('s \<Rightarrow> bool) \<Rightarrow> 's \<Rightarrow> 's option" where
  "await env c s = (let s' = env s in if c s' then Some s' else await env c s')"

lemma await_now: "c (env s) \<Longrightarrow> await env c s = Some (env s)"
  by (subst await.simps) (simp add: Let_def)

lemma await_later: "\<not> c (env s) \<Longrightarrow> await env c s = await env c (env s)"
  by (subst await.simps) (simp add: Let_def)

lemma await_returns:
  assumes "c ((env ^^ Suc n) s)" and "\<forall>k < n. \<not> c ((env ^^ Suc k) s)"
  shows "await env c s = Some ((env ^^ Suc n) s)"
  using assms
proof (induction n arbitrary: s)
  case 0
  then show ?case by (simp add: await_now)
next
  case (Suc n)
  have shift: "(env ^^ Suc (Suc m)) s = (env ^^ Suc m) (env s)" for m
    by (simp only: funpow_Suc_right o_apply)
  have "\<not> c (env s)"
    using Suc.prems(2) by force
  moreover have "await env c (env s) = Some ((env ^^ Suc n) (env s))"
  proof (rule Suc.IH)
    show "c ((env ^^ Suc n) (env s))"
      using Suc.prems(1) by (simp only: shift)
    show "\<forall>k<n. \<not> c ((env ^^ Suc k) (env s))"
      using Suc.prems(2) by (metis Suc_less_eq shift)
  qed
  ultimately show ?case
    by (subst await_later) (simp_all only: shift not_False_eq_True)
qed

lemma await_ex:
  assumes "\<exists>n. c ((env ^^ Suc n) s)"
  shows "\<exists>n. await env c s = Some ((env ^^ Suc n) s) \<and> c ((env ^^ Suc n) s)"
proof -
  define P where "P n \<longleftrightarrow> c ((env ^^ Suc n) s)" for n
  have "\<exists>n. P n"
    using assms by (simp only: P_def)
  then obtain n where "P n" and "\<forall>k < n. \<not> P k"
    by (subst (asm) exists_least_iff) blast
  then have "c ((env ^^ Suc n) s)" and "\<forall>k < n. \<not> c ((env ^^ Suc k) s)"
    by (simp_all only: P_def)
  then have "await env c s = Some ((env ^^ Suc n) s)"
    by (rule await_returns)
  with \<open>c ((env ^^ Suc n) s)\<close> show ?thesis
    by (intro exI conjI)
qed

lemma await_Some_cond:
  assumes "await env c s = Some t"
  shows "c t"
proof (rule await.raw_induct [where P = "\<lambda>env c s t. c t", OF _ assms])
  fix f env c s t
  assume IH: "\<And>env c s t. f env c s = Some t \<Longrightarrow> c t"
    and eq: "(let s' = env s in if c s' then Some s' else f env c s') = Some t"
  then show "c t"
    by (auto simp: Let_def split: if_splits)
qed

text \<open>What every hardware step keeps, the loop keeps.\<close>

lemma await_Some_inv:
  assumes "await env c s = Some t" and "I s" and "\<And>s. I s \<Longrightarrow> I (env s)"
  shows "I t"
proof -
  have "(\<forall>s. I s \<longrightarrow> I (env s)) \<longrightarrow> I s \<longrightarrow> I t"
  proof (rule await.raw_induct
      [where P = "\<lambda>env c s t. (\<forall>s. I s \<longrightarrow> I (env s)) \<longrightarrow> I s \<longrightarrow> I t", OF _ assms(1)])
    fix f env c s t
    assume IH: "\<And>env c s t. f env c s = Some t \<Longrightarrow>
        (\<forall>s. I s \<longrightarrow> I (env s)) \<longrightarrow> I s \<longrightarrow> I t"
      and eq: "(let s' = env s in if c s' then Some s' else f env c s') = Some t"
    show "(\<forall>s. I s \<longrightarrow> I (env s)) \<longrightarrow> I s \<longrightarrow> I t"
      using eq IH [of env c "env s" t] by (auto simp: Let_def split: if_splits)
  qed
  with assms(2,3) show ?thesis by blast
qed

end
