(* ===== verification/Noniso.thy ===== *)
theory Noniso
  imports HalPrelude "HOL-Library.Sublist"
begin

text \<open>
  \<^verbatim>\<open>cores/esp32/stdlib_noniso.c\<close>: the integer-to-string conversions \<open>ultoa\<close> and \<open>ltoa\<close> and the
  in-place \<open>reverse\<close> they share. A buffer is the list of the characters written, without the final
  NUL. The floating-point \<open>dtostrf\<close> is not modelled.
\<close>

section \<open>\<open>reverse\<close>: the two-pointer swap\<close>

text \<open>The loop of \<open>reverse\<close> with \<open>is\<close> and \<open>ie\<close> as indices into the buffer.\<close>

function reverse_loop :: "nat \<Rightarrow> nat \<Rightarrow> 'a list \<Rightarrow> 'a list" where
  "reverse_loop i j b =
     (if i < j then reverse_loop (Suc i) (j - 1) (b[j := b ! i, i := b ! j]) else b)"
  by pat_completeness auto
termination
  by (relation "measure (\<lambda>(i, j, b). j - i)") auto

declare reverse_loop.simps [simp del]

text \<open>
  \<open>end - 1\<close> on an empty buffer points before \<open>begin\<close>; the guard \<open>is < ie\<close> then fails, as it does
  here for the indices 0 and 0.
\<close>

definition c_reverse :: "'a list \<Rightarrow> 'a list" where
  "c_reverse b = reverse_loop 0 (length b - 1) b"

lemma reverse_loop_length [simp]: "length (reverse_loop i j b) = length b"
proof (induction i j b rule: reverse_loop.induct)
  case (1 i j b)
  then show ?case
    by (simp add: reverse_loop.simps [of i j b])
qed

text \<open>Invariant of the loop: what is left to swap is the block between the two pointers.\<close>

lemma reverse_loop_nth:
  "j < length b \<Longrightarrow> k < length b \<Longrightarrow>
   reverse_loop i j b ! k = (if i \<le> k \<and> k \<le> j then b ! (i + j - k) else b ! k)"
proof (induction i j b rule: reverse_loop.induct)
  case (1 i j b)
  show ?case
  proof (cases "i < j")
    case True
    let ?b = "b[j := b ! i, i := b ! j]"
    have step: "reverse_loop i j b = reverse_loop (Suc i) (j - 1) ?b"
      using True by (simp add: reverse_loop.simps [of i j b])
    have IH: "reverse_loop (Suc i) (j - 1) ?b ! k =
        (if Suc i \<le> k \<and> k \<le> j - 1 then ?b ! (Suc i + (j - 1) - k) else ?b ! k)"
      by (rule "1.IH") (use True "1.prems" in simp_all)
    consider "k < i \<or> j < k" | "k = i" | "k = j" | "i < k \<and> k < j"
      by linarith
    then show ?thesis
      unfolding step IH using True "1.prems" by cases (auto simp: nth_list_update)
  next
    case False
    then have "i + j - k = k" if "i \<le> k" and "k \<le> j"
      using that by linarith
    with False show ?thesis
      by (simp add: reverse_loop.simps [of i j b])
  qed
qed

lemma c_reverse_eq: "c_reverse b = rev b"
proof (rule nth_equalityI)
  show "length (c_reverse b) = length (rev b)"
    by (simp add: c_reverse_def)
next
  fix k
  assume "k < length (c_reverse b)"
  then have k: "k < length b"
    by (simp add: c_reverse_def)
  then show "c_reverse b ! k = rev b ! k"
    by (auto simp: c_reverse_def reverse_loop_nth rev_nth)
qed

section \<open>Digits\<close>

definition hex_digits :: string where
  "hex_digits = ''0123456789abcdef''"

text \<open>
  The \<open>do ... while (quotient)\<close> loop of both functions, on the unsigned quotient: it writes the
  least significant digit first.
\<close>

function digit_loop :: "nat \<Rightarrow> nat \<Rightarrow> string" where
  "digit_loop base q =
     (let tmp = q div base;
          d = hex_digits ! (q - tmp * base)
      in if tmp = 0 \<or> base < 2 then [d] else d # digit_loop base tmp)"
  by pat_completeness auto
termination
  by (relation "measure snd") (auto simp: Let_def div_greater_zero_iff intro!: div_less_dividend)

declare digit_loop.simps [simp del]

text \<open>
  \<open>ultoa\<close>: an unsupported base yields the empty string. \<open>unsigned long\<close> is 32 bits wide on the
  ESP32.
\<close>

definition ultoa :: "u32 \<Rightarrow> int \<Rightarrow> string" where
  "ultoa value base =
     (if base < 2 \<or> base > 16 then []
      else c_reverse (digit_loop (nat base) (unat value)))"

text \<open>
  \<open>ltoa\<close>: \<open>abs\<close> of the most negative \<open>long\<close> is that number again (two's complement), and the
  remainder the digit table is then indexed with is negative: the model says \<open>None\<close> where the code
  reads outside the table.
\<close>

definition c_abs :: "u32 \<Rightarrow> u32" where
  "c_abs value = (if value <s 0 then - value else value)"

definition ltoa :: "u32 \<Rightarrow> int \<Rightarrow> string option" where
  "ltoa value base =
     (if base < 2 \<or> base > 16 then Some []
      else let quotient = c_abs value in
        if quotient <s 0 then None
        else Some (c_reverse (digit_loop (nat base) (unat quotient)
               @ (if value <s 0 then ''-'' else []))))"

section \<open>Reading the digits back\<close>

text \<open>Abstract specification: the value of a string of digits in a base, most significant first.\<close>

fun digit_value :: "char \<Rightarrow> nat" where
  "digit_value c =
     (let n = (of_char c :: nat)
      in if 48 \<le> n \<and> n \<le> 57 then n - 48 else n - 87)"

definition parse_digits :: "nat \<Rightarrow> string \<Rightarrow> nat" where
  "parse_digits base = foldl (\<lambda>acc c. acc * base + digit_value c) 0"

definition parse_signed :: "nat \<Rightarrow> string \<Rightarrow> int" where
  "parse_signed base s =
     (case s of [] \<Rightarrow> 0
      | c # cs \<Rightarrow> if c = CHR ''-'' then - int (parse_digits base cs) else int (parse_digits base s))"

lemma hex_digit_value:
  assumes "d < 16"
  shows "digit_value (hex_digits ! d) = d"
proof -
  have "\<forall>d \<in> {0..<16}. digit_value (hex_digits ! d) = d"
    by code_simp
  with assms show ?thesis by auto
qed

lemma hex_digit_not_sign:
  assumes "d < 16"
  shows "hex_digits ! d \<noteq> CHR ''-''"
proof -
  have "\<forall>d \<in> {0..<16}. hex_digits ! d \<noteq> CHR ''-''"
    by code_simp
  with assms show ?thesis by auto
qed

lemma digit_loop_unfold:
  assumes "2 \<le> base"
  shows "digit_loop base q =
     hex_digits ! (q mod base) # (if q < base then [] else digit_loop base (q div base))"
  using assms by (subst digit_loop.simps) (auto simp: Let_def minus_div_mult_eq_mod div_eq_0_iff)

lemma digit_loop_value:
  assumes "2 \<le> base" and "base \<le> 16"
  shows "foldr (\<lambda>c acc. acc * base + digit_value c) (digit_loop base q) 0 = q"
proof (induction q rule: less_induct)
  case (less q)
  have d: "digit_value (hex_digits ! (q mod base)) = q mod base"
    using assms by (intro hex_digit_value) (auto intro: less_le_trans [OF mod_less_divisor])
  show ?case
  proof (cases "q < base")
    case True
    with d assms show ?thesis
      by (simp add: digit_loop_unfold [of base q])
  next
    case False
    then have "foldr (\<lambda>c acc. acc * base + digit_value c) (digit_loop base (q div base)) 0
        = q div base"
      using assms by (intro less.IH) simp
    with d assms False show ?thesis
      by (simp add: digit_loop_unfold [of base q])
  qed
qed

lemma digit_loop_set:
  assumes "2 \<le> base" and "base \<le> 16"
  shows "set (digit_loop base q) \<subseteq> set (take base hex_digits)"
proof (induction q rule: less_induct)
  case (less q)
  have "hex_digits ! (q mod base) = take base hex_digits ! (q mod base)"
    using assms by simp
  moreover have "q mod base < length (take base hex_digits)"
    using assms by (simp add: hex_digits_def)
  ultimately have d: "hex_digits ! (q mod base) \<in> set (take base hex_digits)"
    by (metis nth_mem)
  with less.IH [of "q div base"] assms show ?case
    by (subst digit_loop_unfold) auto
qed

lemma digit_loop_nonempty [simp]: "digit_loop base q \<noteq> []"
  by (subst digit_loop.simps) (simp add: Let_def)

lemma digit_loop_length:
  assumes "2 \<le> base" and "q < 2 ^ n"
  shows "length (digit_loop base q) \<le> max 1 n"
  using assms(2)
proof (induction n arbitrary: q)
  case 0
  with assms(1) show ?case
    by (simp add: digit_loop_unfold)
next
  case (Suc n)
  show ?case
  proof (cases "q < base")
    case True
    with assms(1) show ?thesis by (simp add: digit_loop_unfold)
  next
    case False
    have "q div base \<le> q div 2"
      using assms(1) by (intro div_le_mono2) simp_all
    also have "q div 2 < 2 ^ n"
      using Suc.prems by simp
    finally have IH: "length (digit_loop base (q div base)) \<le> max 1 n"
      by (rule Suc.IH)
    have "n \<noteq> 0"
      using False Suc.prems assms(1) by (cases n) auto
    with IH False assms(1) show ?thesis by (simp add: digit_loop_unfold)
  qed
qed

lemma parse_rev_digit_loop:
  assumes "2 \<le> base" and "base \<le> 16"
  shows "parse_digits base (rev (digit_loop base q)) = q"
  using digit_loop_value [OF assms, of q]
  by (simp add: parse_digits_def foldl_conv_foldr)

section \<open>The sign\<close>

lemma c_abs_ok:
  assumes "v \<noteq> 0x80000000"
  shows "\<not> c_abs v <s 0" and "uint (c_abs v) = \<bar>sint v\<bar>"
proof -
  have "uint v \<noteq> 2 ^ 31"
    using assms word_uint_eq_iff [of v "0x80000000"] by simp
  then have "\<not> c_abs v <s 0 \<and> uint (c_abs v) = \<bar>sint v\<bar>"
    using uint_u32_less [of v] by (auto simp: c_abs_def sless_0_iff uint_minus_u32 sint_u32)
  then show "\<not> c_abs v <s 0" and "uint (c_abs v) = \<bar>sint v\<bar>"
    by simp_all
qed

lemma parse_signed_rev:
  assumes "2 \<le> base" and "base \<le> 16"
  shows "parse_signed base (rev (digit_loop base q @ (if neg then ''-'' else [])))
      = (if neg then - int q else int q)"
proof (cases neg)
  case True
  then show ?thesis
    using parse_rev_digit_loop [OF assms, of q] by (simp add: parse_signed_def)
next
  case False
  obtain c cs where rev: "rev (digit_loop base q) = c # cs"
    by (cases "rev (digit_loop base q)") auto
  then have "c \<in> set (digit_loop base q)"
    by (metis list.set_intros(1) set_rev)
  then have "c \<in> set (take base hex_digits)"
    using digit_loop_set [OF assms] by blast
  then have "c \<noteq> CHR ''-''"
    using assms by (auto simp: hex_digits_def dest!: in_set_takeD)
  with False show ?thesis
    using parse_rev_digit_loop [OF assms, of q] by (simp add: parse_signed_def rev)
qed

section \<open>Properties\<close>

text \<open>
  C32: \<open>ultoa\<close> prints every 32-bit value in every supported base so that reading the digits back
  gives the value, uses only the digits of that base, and never writes more than 32 characters
  before the terminating NUL.
\<close>

theorem ultoa_correct:
  assumes "2 \<le> base" and "base \<le> 16"
  shows "parse_digits (nat base) (ultoa v base) = unat v
     \<and> set (ultoa v base) \<subseteq> set (take (nat base) hex_digits)
     \<and> ultoa v base \<noteq> [] \<and> length (ultoa v base) \<le> 32"
proof -
  have b: "2 \<le> nat base" "nat base \<le> 16"
    using assms by linarith+
  have eq: "ultoa v base = rev (digit_loop (nat base) (unat v))"
    using assms by (simp add: ultoa_def c_reverse_eq)
  have "unat v < 2 ^ 32"
    using unsigned_less [of v] by simp
  then have "length (ultoa v base) \<le> 32"
    using digit_loop_length [OF b(1), of "unat v" 32] by (simp add: eq)
  then show ?thesis
    using parse_rev_digit_loop [OF b, of "unat v"] digit_loop_set [OF b, of "unat v"]
    by (simp add: eq)
qed

theorem ultoa_correct_witness:
  "parse_digits 16 (ultoa 48879 16) = 48879 \<and> ultoa 48879 16 = ''beef''"
proof
  show "parse_digits 16 (ultoa 48879 16) = 48879"
    using ultoa_correct [of 16 48879] by simp
  show "ultoa 48879 16 = ''beef''"
    by (simp add: ultoa_def c_reverse_eq digit_loop_unfold hex_digits_def)
qed

text \<open>
  \<open>ltoa\<close> prints every value but the smallest one so that reading the sign and the digits back
  gives the value.
\<close>

theorem ltoa_correct:
  assumes "2 \<le> base" and "base \<le> 16" and "v \<noteq> 0x80000000"
  shows "\<exists>s. ltoa v base = Some s \<and> parse_signed (nat base) s = sint v"
proof -
  have b: "2 \<le> nat base" "nat base \<le> 16"
    using assms by linarith+
  let ?s = "rev (digit_loop (nat base) (unat (c_abs v)) @ (if v <s 0 then ''-'' else []))"
  have "ltoa v base = Some ?s"
    using assms c_abs_ok(1) [OF assms(3)] by (simp add: ltoa_def c_reverse_eq Let_def)
  moreover have "sint v < 0 \<longleftrightarrow> v <s 0"
    by (simp add: word_sless_alt)
  then have "parse_signed (nat base) ?s = sint v"
    using c_abs_ok(2) [OF assms(3)] unfolding parse_signed_rev [OF b] by auto
  ultimately show ?thesis
    by blast
qed

theorem ltoa_correct_witness:
  "\<exists>s. ltoa (- 42) 10 = Some s \<and> parse_signed 10 s = - 42"
  using ltoa_correct [of 10 "- 42"] by simp

text \<open>
  \<open>ltoa\<close> reads outside its digit table for exactly one value, the most negative
  \<open>long\<close>, in every supported base.
\<close>

theorem ltoa_min_value:
  "ltoa v base = None \<longleftrightarrow> 2 \<le> base \<and> base \<le> 16 \<and> v = 0x80000000"
proof (cases "v = 0x80000000")
  case True
  have "c_abs 0x80000000 <s 0"
    by (simp add: c_abs_def sless_0_iff)
  with True show ?thesis
    by (auto simp: ltoa_def)
next
  case False
  then show ?thesis
    using c_abs_ok(1) [OF False] by (simp add: ltoa_def Let_def)
qed

end
