(* ===== verification/Base64.thy ===== *)
theory Base64
  imports HalPrelude
begin

text \<open>
  \<^verbatim>\<open>cores/esp32/libb64\<close>: the base64 encoder (\<^verbatim>\<open>cencode.c\<close>) and decoder (\<^verbatim>\<open>cdecode.c\<close>). Both
  are coroutines: a block call continues where the previous one stopped, in the step the state
  record remembers. \<open>char\<close> is unsigned on the ESP32 (8 bits); the decoder works on \<open>int8_t\<close>. Text is
  a list of bytes.
\<close>

section \<open>The encoder\<close>

datatype encodestep = step_A | step_B | step_C

record base64_encodestate =
  enc_step :: encodestep
  enc_result :: u8
  enc_stepcount :: nat

definition CHARS_PER_LINE :: nat where
  "CHARS_PER_LINE = 72"

definition base64_init_encodestate :: base64_encodestate where
  "base64_init_encodestate = \<lparr>enc_step = step_A, enc_result = 0, enc_stepcount = 0\<rparr>"

definition byte_of :: "char \<Rightarrow> u8" where
  "byte_of c = of_char c"

definition encoding :: "u8 list" where
  "encoding =
     map byte_of ''ABCDEFGHIJKLMNOPQRSTUVWXYZabcdefghijklmnopqrstuvwxyz0123456789+/''"

definition base64_encode_value :: "u8 \<Rightarrow> u8" where
  "base64_encode_value value_in =
     (if value_in > 63 then byte_of CHR ''='' else encoding ! unat value_in)"

text \<open>
  One call of \<open>base64_encode_block\<close>: the recursion is on the input that is left, and each equation is
  one of the three \<open>case\<close> labels. The result is the code written and the state saved on return.
\<close>

fun base64_encode_block :: "u8 list \<Rightarrow> base64_encodestate \<Rightarrow> u8 list \<times> base64_encodestate" where
  "base64_encode_block [] st = ([], st)"
| "base64_encode_block (fragment # rest) st =
     (case enc_step st of
        step_A \<Rightarrow>
          let v = base64_encode_value (drop_bit 2 (fragment AND 0xfc));
              (code, st') = base64_encode_block rest
                (st\<lparr>enc_step := step_B, enc_result := push_bit 4 (fragment AND 0x03)\<rparr>)
          in (v # code, st')
      | step_B \<Rightarrow>
          let v = base64_encode_value (enc_result st OR drop_bit 4 (fragment AND 0xf0));
              (code, st') = base64_encode_block rest
                (st\<lparr>enc_step := step_C, enc_result := push_bit 2 (fragment AND 0x0f)\<rparr>)
          in (v # code, st')
      | step_C \<Rightarrow>
          let v = base64_encode_value (enc_result st OR drop_bit 6 (fragment AND 0xc0));
              w = base64_encode_value (fragment AND 0x3f);
              stepcount = enc_stepcount st + 1;
              wrap = (stepcount = CHARS_PER_LINE div 4);
              (code, st') = base64_encode_block rest
                (st\<lparr>enc_step := step_A, enc_result := fragment AND 0x3f,
                    enc_stepcount := (if wrap then 0 else stepcount)\<rparr>)
          in (v # w # (if wrap then [10] else []) @ code, st'))"

definition base64_encode_blockend :: "base64_encodestate \<Rightarrow> u8 list" where
  "base64_encode_blockend st =
     (case enc_step st of
        step_B \<Rightarrow> [base64_encode_value (enc_result st), byte_of CHR ''='', byte_of CHR ''='']
      | step_C \<Rightarrow> [base64_encode_value (enc_result st), byte_of CHR ''='']
      | step_A \<Rightarrow> [])"

definition base64_encode_chars :: "u8 list \<Rightarrow> u8 list" where
  "base64_encode_chars plaintext =
     (let (code, st) = base64_encode_block plaintext base64_init_encodestate
      in code @ base64_encode_blockend st)"

text \<open>The buffer size macro of \<^verbatim>\<open>cencode.h\<close>.\<close>

definition base64_encode_expected_len :: "nat \<Rightarrow> nat" where
  "base64_encode_expected_len n = ((4 * n) div 3 + 3) div 4 * 4"

section \<open>The decoder\<close>

datatype decodestep = step_a | step_b | step_c | step_d

record base64_decodestate =
  dec_step :: decodestep
  dec_plainchar :: u8

definition base64_init_decodestate :: base64_decodestate where
  "base64_init_decodestate = \<lparr>dec_step = step_a, dec_plainchar = 0\<rparr>"

definition decoding :: "int list" where
  "decoding =
     [62, -1, -1, -1, 63, 52, 53, 54, 55, 56, 57, 58, 59, 60, 61, -1, -1, -1, -2, -1, -1, -1,
      0, 1, 2, 3, 4, 5, 6, 7, 8, 9, 10, 11, 12, 13, 14, 15, 16, 17, 18, 19, 20, 21, 22, 23, 24, 25,
      -1, -1, -1, -1, -1, -1,
      26, 27, 28, 29, 30, 31, 32, 33, 34, 35, 36, 37, 38, 39, 40, 41, 42, 43, 44, 45, 46, 47, 48,
      49, 50, 51]"

text \<open>
  The bound test of the source is \<open>value_in > decoding_size\<close>, so the index can be the size of the
  table: the model says \<open>None\<close> where the code reads one element past it. The subtraction is on
  \<open>int8_t\<close> and wraps.
\<close>

definition base64_decode_value :: "u8 \<Rightarrow> int option" where
  "base64_decode_value value_in =
     (let v = sint (value_in - 43); decoding_size = int (length decoding)
      in if v < 0 \<or> v > decoding_size then Some (- 1)
         else if nat v < length decoding then Some (decoding ! nat v)
         else None)"

text \<open>
  The output memory is a function of the offset from \<open>plaintext_out\<close>, and \<open>p\<close> is the offset of
  \<open>plainchar\<close>. The recursion is on the code that is left; a negative value is skipped in every step
  (the \<open>do ... while (fragment < 0)\<close> loops). The result is the step and the offset reached and the
  memory, or \<open>None\<close> when the table was read out of bounds.
\<close>

fun decode_loop ::
    "u8 list \<Rightarrow> decodestep \<Rightarrow> nat \<Rightarrow> (nat \<Rightarrow> u8) \<Rightarrow> (decodestep \<times> nat \<times> (nat \<Rightarrow> u8)) option"
  where
  "decode_loop [] step p buf = Some (step, p, buf)"
| "decode_loop (c # cs) step p buf =
     (case base64_decode_value c of
        None \<Rightarrow> None
      | Some v \<Rightarrow>
          if v < 0 then decode_loop cs step p buf
          else let fragment = (word_of_int v :: u8) in
            case step of
              step_a \<Rightarrow>
                decode_loop cs step_b p (buf(p := push_bit 2 (fragment AND 0x3f)))
            | step_b \<Rightarrow>
                decode_loop cs step_c (Suc p)
                  (buf(p := buf p OR drop_bit 4 (fragment AND 0x30),
                       Suc p := push_bit 4 (fragment AND 0x0f)))
            | step_c \<Rightarrow>
                decode_loop cs step_d (Suc p)
                  (buf(p := buf p OR drop_bit 2 (fragment AND 0x3c),
                       Suc p := push_bit 6 (fragment AND 0x03)))
            | step_d \<Rightarrow>
                decode_loop cs step_a (Suc p)
                  (buf(p := buf p OR (fragment AND 0x3f))))"

definition base64_decode_block ::
    "u8 list \<Rightarrow> (nat \<Rightarrow> u8) \<Rightarrow> base64_decodestate
      \<Rightarrow> (nat \<times> (nat \<Rightarrow> u8) \<times> base64_decodestate) option"
  where
  "base64_decode_block code plaintext_out st =
     (case decode_loop code (dec_step st) 0 (plaintext_out(0 := dec_plainchar st)) of
        None \<Rightarrow> None
      | Some (step, p, buf) \<Rightarrow> Some (p, buf, \<lparr>dec_step = step, dec_plainchar = buf p\<rparr>))"

definition base64_decode_chars ::
    "u8 list \<Rightarrow> (nat \<Rightarrow> u8) \<Rightarrow> (nat \<times> (nat \<Rightarrow> u8)) option"
  where
  "base64_decode_chars code plaintext_out =
     (case base64_decode_block code plaintext_out base64_init_decodestate of
        None \<Rightarrow> None
      | Some (len, buf, _) \<Rightarrow> Some (len, if len > 0 then buf(len := 0) else buf))"

section \<open>Encoding: blocks, length, alphabet\<close>

lemma encode_block_append:
  "base64_encode_block (xs @ ys) st =
     (let (c1, st1) = base64_encode_block xs st; (c2, st2) = base64_encode_block ys st1
      in (c1 @ c2, st2))"
  by (induction xs arbitrary: st) (auto simp: Let_def split: encodestep.splits prod.splits)

text \<open>
  The six-bit groups by name: what each byte contributes to the group it ends (\<open>hi\<close>), to the group
  it starts (\<open>lo\<close>), and the part of it a decoder has once the first of the two is read (\<open>top\<close>).
\<close>

definition "hi6 x = drop_bit 2 ((x :: u8) AND 0xfc)"
definition "hi4 x = drop_bit 4 ((x :: u8) AND 0xf0)"
definition "hi2 x = drop_bit 6 ((x :: u8) AND 0xc0)"
definition "lo2 x = push_bit 4 ((x :: u8) AND 0x03)"
definition "lo4 x = push_bit 2 ((x :: u8) AND 0x0f)"
definition "lo6 x = ((x :: u8) AND 0x3f)"
definition "top6 x = ((x :: u8) AND 0xfc)"
definition "top4 x = ((x :: u8) AND 0xf0)"
definition "top2 x = ((x :: u8) AND 0xc0)"

lemmas group_defs = hi6_def hi4_def hi2_def lo2_def lo4_def lo6_def top6_def top4_def top2_def

text \<open>What one byte does in each step.\<close>

lemma encode_one_A:
  "enc_step st = step_A \<Longrightarrow>
   base64_encode_block [x] st = ([base64_encode_value (hi6 x)],
     st\<lparr>enc_step := step_B, enc_result := lo2 x\<rparr>)"
  by (simp add: group_defs)

lemma encode_one_B:
  "enc_step st = step_B \<Longrightarrow>
   base64_encode_block [x] st = ([base64_encode_value (enc_result st OR hi4 x)],
     st\<lparr>enc_step := step_C, enc_result := lo4 x\<rparr>)"
  by (simp add: group_defs)

lemma encode_one_C:
  "enc_step st = step_C \<Longrightarrow>
   base64_encode_block [x] st =
     (let wrap = (enc_stepcount st = 17)
      in ([base64_encode_value (enc_result st OR hi2 x), base64_encode_value (lo6 x)]
            @ (if wrap then [10] else []),
          st\<lparr>enc_step := step_A, enc_result := lo6 x,
             enc_stepcount := (if wrap then 0 else Suc (enc_stepcount st))\<rparr>))"
  by (simp add: CHARS_PER_LINE_def Let_def group_defs)

lemmas encode_one = encode_one_A encode_one_B encode_one_C

text \<open>Where the encoder stands after \<open>n\<close> bytes: the step, the groups on the line, the code length.\<close>

definition enc_shape :: "nat \<Rightarrow> u8 list \<times> base64_encodestate \<Rightarrow> bool" where
  "enc_shape n r \<longleftrightarrow>
     enc_step (snd r) = (if n mod 3 = 0 then step_A else if n mod 3 = 1 then step_B else step_C)
     \<and> enc_stepcount (snd r) = n div 3 mod 18
     \<and> length (fst r) = n + n div 3 + n div 54"

lemma enc_shape_step:
  assumes "enc_shape n (c, st)"
  shows "enc_shape (Suc n) (c @ fst (base64_encode_block [x] st), snd (base64_encode_block [x] st))"
proof -
  have d54: "m div 54 = m div 3 div 18" for m :: nat
    using div_mult2_eq [of m 3 18] by simp
  consider "n mod 3 = 0" | "n mod 3 = 1" | "n mod 3 = 2"
    by linarith
  then show ?thesis
    using assms
    by cases (auto simp: enc_shape_def encode_one d54 mod_Suc div_Suc Let_def
        simp del: base64_encode_block.simps)
qed

lemma encode_block_shape: "enc_shape (length xs) (base64_encode_block xs base64_init_encodestate)"
proof (induction xs rule: rev_induct)
  case Nil
  then show ?case by (simp add: enc_shape_def base64_init_encodestate_def)
next
  case (snoc x xs)
  obtain c st where one: "base64_encode_block xs base64_init_encodestate = (c, st)"
    by fastforce
  with snoc.IH have "enc_shape (Suc (length xs))
      (c @ fst (base64_encode_block [x] st), snd (base64_encode_block [x] st))"
    by (simp add: enc_shape_step del: base64_encode_block.simps)
  then show ?case
    by (simp add: encode_block_append one Let_def split_beta del: base64_encode_block.simps)
qed

section \<open>Decoding what was encoded\<close>

lemma decode_loop_append:
  "decode_loop (c1 @ c2) step p buf =
     (case decode_loop c1 step p buf of
        None \<Rightarrow> None
      | Some (step', p', buf') \<Rightarrow> decode_loop c2 step' p' buf')"
  by (induction c1 arbitrary: step p buf) (simp_all add: Let_def split: option.split decodestep.split)

lemma six_bits_le: "(v :: u8) AND 0x3f = v \<Longrightarrow> v \<le> 63"
  by (metis word_and_le1)

lemma decode_encoding: "map base64_decode_value encoding = map (Some \<circ> int) [0..<64]"
  by (simp add: encoding_def byte_of_def base64_decode_value_def Let_def decoding_def upt_rec)

lemma length_encoding: "length encoding = 64"
  by (simp add: encoding_def)

lemma decode_encode_value:
  assumes "v \<le> 63"
  shows "base64_decode_value (base64_encode_value v) = Some (uint v)"
proof -
  have v: "unat v < 64"
    using assms by (simp add: word_le_nat_alt)
  have "base64_decode_value (encoding ! unat v) = map base64_decode_value encoding ! unat v"
    using v by (simp add: length_encoding)
  also have "\<dots> = Some (uint v)"
    using v by (simp add: decode_encoding)
  finally show ?thesis
    using leD [OF assms] by (simp add: base64_encode_value_def)
qed

lemma decode_skipped:
  "base64_decode_value 10 = Some (- 1)" "base64_decode_value (byte_of CHR ''='') = Some (- 2)"
  by code_simp+

text \<open>The bit arithmetic of the six-bit groups.\<close>

lemma group_values:
  "hi6 x \<le> 63" "lo2 x \<le> 63" "lo4 y \<le> 63" "lo2 x OR hi4 y \<le> 63" "lo4 y OR hi2 z \<le> 63"
  "lo6 z \<le> 63"
  unfolding group_defs by (rule six_bits_le, rule byte_eqI, simp only: byte_bits, simp)+

lemma group_bits:
  "push_bit 2 (hi6 x AND 0x3f) = top6 x"
  "top6 x OR drop_bit 4 ((lo2 x OR hi4 y) AND 0x30) = x"
  "push_bit 4 ((lo2 x OR hi4 y) AND 0x0f) = top4 y"
  "top4 y OR drop_bit 2 ((lo4 y OR hi2 z) AND 0x3c) = y"
  "push_bit 6 ((lo4 y OR hi2 z) AND 0x03) = top2 z"
  "top2 z OR (lo6 z AND 0x3f) = z"
  "top6 x OR drop_bit 4 (lo2 x AND 0x30) = x"
  "top4 y OR drop_bit 2 (lo4 y AND 0x3c) = y"
  unfolding group_defs by (rule byte_eqI, simp only: byte_bits, simp)+

text \<open>
  The decoder follows the encoder: after the code of \<open>xs\<close> it has written all bytes but the one in
  progress, whose high bits are in the memory and whose low bits are the encoder's pending result.
\<close>

fun in_step :: "u8 list \<Rightarrow> base64_encodestate \<Rightarrow> decodestep \<times> nat \<times> (nat \<Rightarrow> u8) \<Rightarrow> bool" where
  "in_step xs st (step, p, buf) \<longleftrightarrow>
     (\<forall>i < p. buf i = xs ! i) \<and>
     (case enc_step st of
        step_A \<Rightarrow> step = step_a \<and> p = length xs
      | step_B \<Rightarrow> step = step_b \<and> length xs = Suc p \<and> buf p = top6 (xs ! p)
          \<and> enc_result st = lo2 (xs ! p)
      | step_C \<Rightarrow> step = step_c \<and> length xs = Suc p \<and> buf p = top4 (xs ! p)
          \<and> enc_result st = lo4 (xs ! p))"

lemmas decode_values = decode_encode_value group_values decode_skipped word_of_int_uint
  group_bits [simplified] unsigned_greater_eq

lemma in_step_byte:
  assumes "in_step xs st (step, p, buf)"
  shows "\<exists>r. decode_loop (fst (base64_encode_block [x] st)) step p buf = Some r
     \<and> in_step (xs @ [x]) (snd (base64_encode_block [x] st)) r"
proof (cases "enc_step st")
  case step_A
  with assms have "step = step_a" "p = length xs" "\<forall>i < p. buf i = xs ! i"
    by simp_all
  with step_A show ?thesis
    by (simp add: encode_one_A decode_values Let_def nth_append del: base64_encode_block.simps)
next
  case step_B
  with assms have s: "step = step_b" "length xs = Suc p" "\<forall>i < p. buf i = xs ! i"
    "buf p = top6 (xs ! p)" "enc_result st = lo2 (xs ! p)"
    by simp_all
  with step_B show ?thesis
    by (auto simp: encode_one_B decode_values Let_def nth_append less_Suc_eq
        simp del: base64_encode_block.simps)
next
  case step_C
  with assms have s: "step = step_c" "length xs = Suc p" "\<forall>i < p. buf i = xs ! i"
    "buf p = top4 (xs ! p)" "enc_result st = lo4 (xs ! p)"
    by simp_all
  with step_C show ?thesis
    by (auto simp: encode_one_C decode_values Let_def nth_append less_Suc_eq
        simp del: base64_encode_block.simps)
qed

lemma in_step_block:
  "\<exists>r. decode_loop (fst (base64_encode_block xs base64_init_encodestate)) step_a 0 buf = Some r
     \<and> in_step xs (snd (base64_encode_block xs base64_init_encodestate)) r"
proof (induction xs rule: rev_induct)
  case Nil
  then show ?case by (simp add: base64_init_encodestate_def)
next
  case (snoc x xs)
  obtain c st where one: "base64_encode_block xs base64_init_encodestate = (c, st)"
    by fastforce
  from snoc.IH obtain step p b
    where d: "decode_loop c step_a 0 buf = Some (step, p, b)" and i: "in_step xs st (step, p, b)"
    by (auto simp only: one fst_conv snd_conv)
  from in_step_byte [OF i, of x] d show ?case
    by (auto simp: encode_block_append one decode_loop_append Let_def split_beta
        simp del: base64_encode_block.simps in_step.simps)
qed

lemma decode_blockend:
  assumes "in_step xs st (step, p, buf)"
  shows "\<exists>step' buf'. decode_loop (base64_encode_blockend st) step p buf = Some (step', length xs, buf')
     \<and> (\<forall>i < length xs. buf' i = xs ! i)"
  using assms
  by (cases "enc_step st")
    (auto simp: base64_encode_blockend_def decode_values Let_def less_Suc_eq)

section \<open>Properties\<close>

lemma base64_decode_encode:
  "\<exists>buf'. base64_decode_chars (base64_encode_chars xs) buf = Some (length xs, buf')
     \<and> (\<forall>i < length xs. buf' i = xs ! i) \<and> (xs \<noteq> [] \<longrightarrow> buf' (length xs) = 0)"
proof -
  obtain c st where enc: "base64_encode_block xs base64_init_encodestate = (c, st)"
    by fastforce
  from in_step_block [of xs "buf(0 := 0)"] enc obtain step p b
    where d: "decode_loop c step_a 0 (buf(0 := 0)) = Some (step, p, b)"
      and i: "in_step xs st (step, p, b)"
    by (auto simp del: in_step.simps)
  from decode_blockend [OF i] obtain step' buf'
    where "decode_loop (base64_encode_blockend st) step p b = Some (step', length xs, buf')"
      and "\<forall>i < length xs. buf' i = xs ! i"
    by blast
  with d show ?thesis
    by (auto simp: base64_encode_chars_def enc base64_decode_chars_def base64_decode_block_def
        base64_init_decodestate_def decode_loop_append)
qed

text \<open>
  C3: decoding what \<open>base64_encode_chars\<close> wrote, into any memory, reads no table out of bounds,
  returns the length of the text, and leaves exactly the text in the output, NUL-terminated when it is
  not empty; line breaks and padding are skipped.
\<close>

theorem base64_roundtrip:
  "\<exists>buf'. base64_decode_chars (base64_encode_chars xs) buf = Some (length xs, buf')
     \<and> map buf' [0..<length xs] = xs \<and> (xs = [] \<or> buf' (length xs) = 0)"
  using base64_decode_encode [of xs buf] by (fastforce intro: nth_equalityI)

text \<open>
  The encoder is a stream: feeding a text in two blocks writes the same code and leaves the same
  state as feeding it in one.
\<close>

theorem base64_encode_stream:
  "base64_encode_block (xs @ ys) st =
     (fst (base64_encode_block xs st) @ fst (base64_encode_block ys (snd (base64_encode_block xs st))),
      snd (base64_encode_block ys (snd (base64_encode_block xs st))))"
  by (simp add: encode_block_append Let_def split_beta)

lemma expected_len_eq:
  "base64_encode_expected_len n =
     n + n div 3 + (if n mod 3 = 0 then 0 else if n mod 3 = 1 then 3 else 2)"
proof -
  define k where "k = n div 3"
  consider "n = 3 * k" | "n = 3 * k + 1" | "n = 3 * k + 2"
    unfolding k_def by linarith
  then show ?thesis
  proof cases
    case 1
    have "(4 * (3 * k)) div 3 = 4 * k" "(4 * k + 3) div 4 = k"
      by presburger+
    with 1 show ?thesis by (simp add: base64_encode_expected_len_def)
  next
    case 2
    have "(4 * (3 * k + 1)) div 3 = 4 * k + 1" "(4 * k + 1 + 3) div 4 = k + 1"
      "(3 * k + 1) div 3 = k" "(3 * k + 1) mod 3 = 1"
      by presburger+
    with 2 show ?thesis by (simp only: base64_encode_expected_len_def) simp
  next
    case 3
    have "(4 * (3 * k + 2)) div 3 = 4 * k + 2" "(4 * k + 2 + 3) div 4 = k + 1"
      "(3 * k + 2) div 3 = k" "(3 * k + 2) mod 3 = 2"
      by presburger+
    with 3 show ?thesis by (simp only: base64_encode_expected_len_def) simp
  qed
qed

text \<open>
  The code of \<open>n\<close> bytes is \<open>base64_encode_expected_len n\<close> characters and one line break for
  every 54 bytes: from 54 bytes on, a buffer sized with the macro is too small.
\<close>

theorem base64_encode_length:
  "length (base64_encode_chars xs) = base64_encode_expected_len (length xs) + length xs div 54"
proof -
  obtain c st where enc: "base64_encode_block xs base64_init_encodestate = (c, st)"
    by fastforce
  let ?n = "length xs"
  have shape: "enc_shape ?n (c, st)"
    using encode_block_shape [of xs] by (simp add: enc)
  then show ?thesis
    by (auto simp: base64_encode_chars_def enc base64_encode_blockend_def enc_shape_def
        expected_len_eq)
qed

text \<open>
  \<open>base64_decode_value\<close> reads past its table for exactly one character, the left brace, whose
  index is the table's size; the guard lets it through.
\<close>

theorem base64_decode_value_oob:
  "base64_decode_value c = None \<longleftrightarrow> c = byte_of CHR ''{''"
proof -
  have "\<forall>c :: u8. base64_decode_value c = None \<longleftrightarrow> c = 123"
    unfolding all_u8 by code_simp
  then show ?thesis
    by (simp add: byte_of_def)
qed

end
