(* ===== verification/SdCrc.thy ===== *)
theory SdCrc
  imports HalPrelude
begin

text \<open>
  \<^verbatim>\<open>libraries/SD/src/sd_diskio_crc.c\<close>: the table-driven checksums of SD-card commands (CRC7) and data
  blocks (CRC16), and their equivalence to the shift registers of the SD specification, which take
  the message one bit at a time, most significant bit first. \<open>char\<close> is unsigned (8 bits).

  Both tables are linear for XOR, so each is the XOR span of its entries at the powers of two. The
  registers are linear too, which gives every entry from those eight.
\<close>

section \<open>Tables linear for XOR\<close>

lemma xor_left_cancel: "x XOR y = x XOR z \<longleftrightarrow> y = z" for x y z :: "'a::len word"
proof
  assume "x XOR y = x XOR z"
  then have "x XOR (x XOR y) = x XOR (x XOR z)"
    by (rule arg_cong)
  then show "y = z"
    by (simp add: xor.assoc [symmetric])
qed simp

lemma xor_right_cancel: "y XOR x = z XOR x \<longleftrightarrow> y = z" for x y z :: "'a::len word"
  by (simp only: xor.commute [of _ x] xor_left_cancel)

fun xor_span :: "'a::len word list \<Rightarrow> 'a word list" where
  "xor_span [] = [0]"
| "xor_span (b # bs) = (let t = xor_span bs in t @ map (\<lambda>x. b XOR x) t)"

lemma length_xor_span [simp]: "length (xor_span bs) = 2 ^ length bs"
  by (induction bs) (simp_all add: Let_def)

lemma of_nat_add_exp:
  assumes "j < 2 ^ k"
  shows "(of_nat (2 ^ k + j) :: 'b::len word) = 2 ^ k XOR of_nat j"
proof (rule bit_word_eqI)
  fix n
  assume n: "n < LENGTH('b)"
  define m where "m = 2 ^ k + j"
  have j: "\<not> bit j i" if "k \<le> i" for i
    using assms that by (metis bit_take_bit_iff leD take_bit_nat_eq_self)
  have "m = 2 ^ k OR j"
    unfolding m_def by (rule disjunctive_add_eq_or, rule bit_eqI) (auto simp: j bit_and_iff bit_exp_iff)
  then have "bit m n \<longleftrightarrow> n = k \<or> bit j n"
    by (auto simp: bit_or_iff bit_exp_iff)
  moreover have "bit (of_nat m :: 'b word) n \<longleftrightarrow> bit m n"
    using n by (simp add: bit_of_nat_iff)
  moreover have "bit (of_nat j :: 'b word) n \<longleftrightarrow> bit j n"
    using n by (simp add: bit_of_nat_iff)
  moreover have "bit (2 ^ k :: 'b word) n \<longleftrightarrow> n = k"
    using n by (auto simp: bit_exp_iff)
  ultimately show "bit (of_nat (2 ^ k + j) :: 'b word) n = bit ((2 ^ k :: 'b word) XOR of_nat j) n"
    unfolding m_def [symmetric] bit_xor_iff by (auto simp: j)
qed

lemma xor_span_linear:
  fixes f :: "'b::len word \<Rightarrow> 'a::len word"
  assumes lin: "\<And>x y. f (x XOR y) = f x XOR f y" and "i < 2 ^ k"
  shows "xor_span (map (\<lambda>j. f (2 ^ j)) (rev [0..<k])) ! i = f (of_nat i)"
  using assms(2)
proof (induction k arbitrary: i)
  case 0
  have "f 0 = 0"
    using lin [of 0 0] by simp
  with 0 show ?case by simp
next
  case (Suc k)
  show ?case
  proof (cases "i < 2 ^ k")
    case True
    with Suc.IH show ?thesis by (simp add: nth_append Let_def)
  next
    case False
    define j where "j = i - 2 ^ k"
    with False Suc.prems have i: "i = 2 ^ k + j" and j: "j < 2 ^ k"
      by auto
    from j Suc.IH lin [of "2 ^ k" "of_nat j"] show ?thesis
      unfolding i of_nat_add_exp [OF j] by (simp add: nth_append Let_def)
  qed
qed

section \<open>The code\<close>

definition m_CRC7Table :: "u8 list" where
  "m_CRC7Table =
     [0x00, 0x09, 0x12, 0x1B, 0x24, 0x2D, 0x36, 0x3F,
      0x48, 0x41, 0x5A, 0x53, 0x6C, 0x65, 0x7E, 0x77,
      0x19, 0x10, 0x0B, 0x02, 0x3D, 0x34, 0x2F, 0x26,
      0x51, 0x58, 0x43, 0x4A, 0x75, 0x7C, 0x67, 0x6E,
      0x32, 0x3B, 0x20, 0x29, 0x16, 0x1F, 0x04, 0x0D,
      0x7A, 0x73, 0x68, 0x61, 0x5E, 0x57, 0x4C, 0x45,
      0x2B, 0x22, 0x39, 0x30, 0x0F, 0x06, 0x1D, 0x14,
      0x63, 0x6A, 0x71, 0x78, 0x47, 0x4E, 0x55, 0x5C,
      0x64, 0x6D, 0x76, 0x7F, 0x40, 0x49, 0x52, 0x5B,
      0x2C, 0x25, 0x3E, 0x37, 0x08, 0x01, 0x1A, 0x13,
      0x7D, 0x74, 0x6F, 0x66, 0x59, 0x50, 0x4B, 0x42,
      0x35, 0x3C, 0x27, 0x2E, 0x11, 0x18, 0x03, 0x0A,
      0x56, 0x5F, 0x44, 0x4D, 0x72, 0x7B, 0x60, 0x69,
      0x1E, 0x17, 0x0C, 0x05, 0x3A, 0x33, 0x28, 0x21,
      0x4F, 0x46, 0x5D, 0x54, 0x6B, 0x62, 0x79, 0x70,
      0x07, 0x0E, 0x15, 0x1C, 0x23, 0x2A, 0x31, 0x38,
      0x41, 0x48, 0x53, 0x5A, 0x65, 0x6C, 0x77, 0x7E,
      0x09, 0x00, 0x1B, 0x12, 0x2D, 0x24, 0x3F, 0x36,
      0x58, 0x51, 0x4A, 0x43, 0x7C, 0x75, 0x6E, 0x67,
      0x10, 0x19, 0x02, 0x0B, 0x34, 0x3D, 0x26, 0x2F,
      0x73, 0x7A, 0x61, 0x68, 0x57, 0x5E, 0x45, 0x4C,
      0x3B, 0x32, 0x29, 0x20, 0x1F, 0x16, 0x0D, 0x04,
      0x6A, 0x63, 0x78, 0x71, 0x4E, 0x47, 0x5C, 0x55,
      0x22, 0x2B, 0x30, 0x39, 0x06, 0x0F, 0x14, 0x1D,
      0x25, 0x2C, 0x37, 0x3E, 0x01, 0x08, 0x13, 0x1A,
      0x6D, 0x64, 0x7F, 0x76, 0x49, 0x40, 0x5B, 0x52,
      0x3C, 0x35, 0x2E, 0x27, 0x18, 0x11, 0x0A, 0x03,
      0x74, 0x7D, 0x66, 0x6F, 0x50, 0x59, 0x42, 0x4B,
      0x17, 0x1E, 0x05, 0x0C, 0x33, 0x3A, 0x21, 0x28,
      0x5F, 0x56, 0x4D, 0x44, 0x7B, 0x72, 0x69, 0x60,
      0x0E, 0x07, 0x1C, 0x15, 0x2A, 0x23, 0x38, 0x31,
      0x46, 0x4F, 0x54, 0x5D, 0x62, 0x6B, 0x70, 0x79]"

text \<open>
  The index \<open>(crc << 1) ^ data[i]\<close> is an \<open>int\<close>, so the shift does not lose the top bit of \<open>crc\<close>:
  \<open>None\<close> stands for a read outside the table.
\<close>

definition crc7_step :: "u8 \<Rightarrow> u8 \<Rightarrow> u8 option" where
  "crc7_step crc d =
     (let i = push_bit 1 (ucast crc :: u32) XOR ucast d
      in if unat i < length m_CRC7Table then Some (m_CRC7Table ! unat i) else None)"

fun crc7_loop :: "u8 list \<Rightarrow> u8 \<Rightarrow> u8 option" where
  "crc7_loop [] crc = Some crc"
| "crc7_loop (d # data) crc =
     (case crc7_step crc d of None \<Rightarrow> None | Some crc' \<Rightarrow> crc7_loop data crc')"

definition CRC7 :: "u8 list \<Rightarrow> u8 option" where
  "CRC7 data = crc7_loop data 0"

definition m_CRC16Table :: "u16 list" where
  "m_CRC16Table =
     [0x0000, 0x1021, 0x2042, 0x3063, 0x4084, 0x50A5, 0x60C6, 0x70E7,
      0x8108, 0x9129, 0xA14A, 0xB16B, 0xC18C, 0xD1AD, 0xE1CE, 0xF1EF,
      0x1231, 0x0210, 0x3273, 0x2252, 0x52B5, 0x4294, 0x72F7, 0x62D6,
      0x9339, 0x8318, 0xB37B, 0xA35A, 0xD3BD, 0xC39C, 0xF3FF, 0xE3DE,
      0x2462, 0x3443, 0x0420, 0x1401, 0x64E6, 0x74C7, 0x44A4, 0x5485,
      0xA56A, 0xB54B, 0x8528, 0x9509, 0xE5EE, 0xF5CF, 0xC5AC, 0xD58D,
      0x3653, 0x2672, 0x1611, 0x0630, 0x76D7, 0x66F6, 0x5695, 0x46B4,
      0xB75B, 0xA77A, 0x9719, 0x8738, 0xF7DF, 0xE7FE, 0xD79D, 0xC7BC,
      0x48C4, 0x58E5, 0x6886, 0x78A7, 0x0840, 0x1861, 0x2802, 0x3823,
      0xC9CC, 0xD9ED, 0xE98E, 0xF9AF, 0x8948, 0x9969, 0xA90A, 0xB92B,
      0x5AF5, 0x4AD4, 0x7AB7, 0x6A96, 0x1A71, 0x0A50, 0x3A33, 0x2A12,
      0xDBFD, 0xCBDC, 0xFBBF, 0xEB9E, 0x9B79, 0x8B58, 0xBB3B, 0xAB1A,
      0x6CA6, 0x7C87, 0x4CE4, 0x5CC5, 0x2C22, 0x3C03, 0x0C60, 0x1C41,
      0xEDAE, 0xFD8F, 0xCDEC, 0xDDCD, 0xAD2A, 0xBD0B, 0x8D68, 0x9D49,
      0x7E97, 0x6EB6, 0x5ED5, 0x4EF4, 0x3E13, 0x2E32, 0x1E51, 0x0E70,
      0xFF9F, 0xEFBE, 0xDFDD, 0xCFFC, 0xBF1B, 0xAF3A, 0x9F59, 0x8F78,
      0x9188, 0x81A9, 0xB1CA, 0xA1EB, 0xD10C, 0xC12D, 0xF14E, 0xE16F,
      0x1080, 0x00A1, 0x30C2, 0x20E3, 0x5004, 0x4025, 0x7046, 0x6067,
      0x83B9, 0x9398, 0xA3FB, 0xB3DA, 0xC33D, 0xD31C, 0xE37F, 0xF35E,
      0x02B1, 0x1290, 0x22F3, 0x32D2, 0x4235, 0x5214, 0x6277, 0x7256,
      0xB5EA, 0xA5CB, 0x95A8, 0x8589, 0xF56E, 0xE54F, 0xD52C, 0xC50D,
      0x34E2, 0x24C3, 0x14A0, 0x0481, 0x7466, 0x6447, 0x5424, 0x4405,
      0xA7DB, 0xB7FA, 0x8799, 0x97B8, 0xE75F, 0xF77E, 0xC71D, 0xD73C,
      0x26D3, 0x36F2, 0x0691, 0x16B0, 0x6657, 0x7676, 0x4615, 0x5634,
      0xD94C, 0xC96D, 0xF90E, 0xE92F, 0x99C8, 0x89E9, 0xB98A, 0xA9AB,
      0x5844, 0x4865, 0x7806, 0x6827, 0x18C0, 0x08E1, 0x3882, 0x28A3,
      0xCB7D, 0xDB5C, 0xEB3F, 0xFB1E, 0x8BF9, 0x9BD8, 0xABBB, 0xBB9A,
      0x4A75, 0x5A54, 0x6A37, 0x7A16, 0x0AF1, 0x1AD0, 0x2AB3, 0x3A92,
      0xFD2E, 0xED0F, 0xDD6C, 0xCD4D, 0xBDAA, 0xAD8B, 0x9DE8, 0x8DC9,
      0x7C26, 0x6C07, 0x5C64, 0x4C45, 0x3CA2, 0x2C83, 0x1CE0, 0x0CC1,
      0xEF1F, 0xFF3E, 0xCF5D, 0xDF7C, 0xAF9B, 0xBFBA, 0x8FD9, 0x9FF8,
      0x6E17, 0x7E36, 0x4E55, 0x5E74, 0x2E93, 0x3EB2, 0x0ED1, 0x1EF0]"

text \<open>Here the index is masked to a byte, so the table is never left.\<close>

definition crc16_step :: "u8 \<Rightarrow> u16 \<Rightarrow> u16" where
  "crc16_step d crc =
     push_bit 8 crc XOR m_CRC16Table ! unat ((drop_bit 8 crc XOR ucast d) AND 0x00FF)"

definition CRC16 :: "u8 list \<Rightarrow> u16" where
  "CRC16 data = fold crc16_step data 0"

section \<open>The shift registers\<close>

definition lfsr7 :: "bool \<Rightarrow> u8 \<Rightarrow> u8" where
  "lfsr7 b crc =
     (let c = push_bit 1 crc AND 0x7f in if b \<noteq> bit crc 6 then c XOR 0x09 else c)"

definition lfsr16 :: "bool \<Rightarrow> u16 \<Rightarrow> u16" where
  "lfsr16 b crc =
     (if b \<noteq> bit crc 15 then push_bit 1 crc XOR 0x1021 else push_bit 1 crc)"

definition bits_msb :: "u8 \<Rightarrow> bool list" where
  "bits_msb d = map (bit d) [7, 6, 5, 4, 3, 2, 1, 0]"

definition message_bits :: "u8 list \<Rightarrow> bool list" where
  "message_bits data = concat (map bits_msb data)"

section \<open>CRC7\<close>

text \<open>The register and the byte in one 8-bit word, as the index of the table has them.\<close>

definition shift7 :: "u8 \<Rightarrow> u8" where
  "shift7 r = (if bit r 7 then push_bit 1 r XOR 0x12 else push_bit 1 r)"

lemma lfsr7_top: "\<not> bit crc 7 \<Longrightarrow> \<not> bit (lfsr7 b crc) 7"
  by (simp add: lfsr7_def Let_def bit_simps)

lemma shift7_lfsr7:
  "shift7 (push_bit 1 crc XOR d) = push_bit 1 (lfsr7 (bit d 7) crc) XOR push_bit 1 d"
proof -
  have top: "bit (push_bit 1 crc XOR d) 7 \<longleftrightarrow> bit d 7 \<noteq> bit crc 6"
    by (auto simp only: bit_xor_iff bit_push_bit_iff) auto
  show ?thesis
    unfolding shift7_def lfsr7_def Let_def top
    by (rule byte_eqI, cases "bit d 7 \<noteq> bit crc 6"; simp only: if_True if_False not_False_eq_True not_True_eq_False byte_bits bit_xor_iff; simp)
qed

lemma shift7_linear: "shift7 (x XOR y) = shift7 x XOR shift7 y"
  by (simp add: shift7_def bit_xor_iff push_bit_xor ac_simps)

definition crc7_byte :: "u8 \<Rightarrow> u8" where
  "crc7_byte r = drop_bit 1 ((shift7 ^^ 8) r)"

lemma crc7_byte_linear: "crc7_byte (x XOR y) = crc7_byte x XOR crc7_byte y"
  by (simp add: crc7_byte_def shift7_linear drop_bit_xor eval_nat_numeral)


lemma crc7_table_span:
  "m_CRC7Table = xor_span (map (\<lambda>j. crc7_byte (2 ^ j)) (rev [0..<8]))"
proof -
  have "map (\<lambda>j. crc7_byte (2 ^ j)) (rev [0..<8]) = [0x41, 0x64, 0x32, 0x19, 0x48, 0x24, 0x12, 0x09]"
    unfolding crc7_byte_def by code_simp
  then show ?thesis
    by (simp add: m_CRC7Table_def Let_def)
qed

lemma length_crc7_table: "length m_CRC7Table = 256"
  by (simp add: m_CRC7Table_def)

lemma crc7_table: "m_CRC7Table ! unat i = crc7_byte i"
proof -
  have "unat i < 2 ^ 8"
    using unsigned_less [of i] by simp
  then show ?thesis
    unfolding crc7_table_span by (subst xor_span_linear [OF crc7_byte_linear]) simp_all
qed

lemma funpow_shift7:
  "k \<le> 8 \<Longrightarrow> (shift7 ^^ k) (push_bit 1 crc XOR d) =
     push_bit 1 (fold lfsr7 (map (bit d) (rev [8 - k..<8])) crc) XOR push_bit k d"
proof (induction k)
  case (Suc k)
  then have upt: "[7 - k..<8] = (7 - k) # [8 - k..<8]"
    by (subst upt_conv_Cons) (auto simp: Suc_diff_le [symmetric])
  from Suc show ?case
    by (simp add: upt shift7_lfsr7 bit_push_bit_iff push_bit_push_bit plus_1_eq_Suc
        del: One_nat_def push_bit_Suc)
qed simp

lemma rev_upt_8: "rev [0..<8] = [7, 6, 5, 4, 3, 2, 1, 0::nat]"
  by (simp add: upt_rec)

lemma crc7_byte_bits:
  assumes "\<not> bit crc 7"
  shows "crc7_byte (push_bit 1 crc XOR d) = fold lfsr7 (bits_msb d) crc"
proof -
  define c where "c = fold lfsr7 (bits_msb d) crc"
  have inv: "\<not> bit (fold lfsr7 bs crc) 7" for bs
    using assms by (induction bs arbitrary: crc) (auto simp: lfsr7_top)
  have d8: "push_bit 8 d = 0"
    by (rule bit_word_eqI) (simp add: bit_push_bit_iff)
  have "(shift7 ^^ 8) (push_bit 1 crc XOR d) = push_bit 1 c"
    using funpow_shift7 [of 8 crc d] by (simp add: c_def d8 bits_msb_def rev_upt_8)
  then have "crc7_byte (push_bit 1 crc XOR d) = drop_bit 1 (push_bit 1 c)"
    by (simp only: crc7_byte_def)
  also have "\<dots> = c"
  proof (rule bit_word_eqI)
    fix n assume "n < LENGTH(8)"
    then show "bit (drop_bit 1 (push_bit 1 c)) n = bit c n"
      using inv [of "bits_msb d"] c_def
      by (cases "n = 7") (auto simp: bit_drop_bit_eq bit_push_bit_iff simp del: One_nat_def)
  qed
  finally show ?thesis
    by (simp only: c_def)
qed

lemma crc7_index:
  assumes "\<not> bit crc (7::nat)"
  shows "unat (push_bit 1 (ucast crc :: u32) XOR ucast d) = unat (push_bit 1 crc XOR d :: u8)"
proof -
  have "push_bit 1 (ucast crc :: u32) XOR ucast d = ucast (push_bit 1 crc XOR d)"
  proof (rule bit_word_eqI)
    fix n assume "n < LENGTH(32)"
    show "bit (push_bit 1 (ucast crc :: u32) XOR ucast d) n
        = bit (ucast (push_bit 1 crc XOR d) :: u32) n"
      using assms by (cases "n = 8") (auto simp: bit_simps simp del: One_nat_def dest: bit_imp_le_length)
  qed
  then show ?thesis
    by (simp add: unsigned_ucast_eq take_bit_nat_eq_self
        order_less_le_trans [OF unsigned_less])
qed

lemma crc7_step:
  assumes "\<not> bit crc 7"
  shows "crc7_step crc d = Some (fold lfsr7 (bits_msb d) crc)"
proof -
  have "unat (push_bit 1 crc XOR d) < 256"
    using unsigned_less [of "push_bit 1 crc XOR d"] by simp
  with assms show ?thesis
    by (simp add: crc7_step_def Let_def crc7_index length_crc7_table crc7_table crc7_byte_bits
        del: unsigned_xor_eq One_nat_def)
qed

lemma crc7_loop:
  "\<not> bit crc 7 \<Longrightarrow> crc7_loop data crc = Some (fold lfsr7 (message_bits data) crc)"
proof (induction data arbitrary: crc)
  case (Cons d data)
  have "\<not> bit (fold lfsr7 bs crc) 7" for bs
    using Cons.prems by (induction bs arbitrary: crc) (auto simp: lfsr7_top)
  with Cons show ?case
    by (simp add: crc7_step message_bits_def)
qed (simp add: message_bits_def)

section \<open>CRC16\<close>

abbreviation shift16 :: "u16 \<Rightarrow> u16" where
  "shift16 \<equiv> lfsr16 False"

lemma shift16_linear: "shift16 (x XOR y) = shift16 x XOR shift16 y"
  by (simp add: lfsr16_def bit_xor_iff push_bit_xor ac_simps)

lemma funpow_shift16_linear:
  "(shift16 ^^ k) (x XOR y) = (shift16 ^^ k) x XOR (shift16 ^^ k) y"
  by (induction k) (simp_all add: shift16_linear)

definition crc16_byte :: "u8 \<Rightarrow> u16" where
  "crc16_byte d = (shift16 ^^ 8) (push_bit 8 (ucast d))"

lemma crc16_byte_linear: "crc16_byte (x XOR y) = crc16_byte x XOR crc16_byte y"
  by (simp add: crc16_byte_def push_bit_xor funpow_shift16_linear unsigned_xor_eq)

lemma crc16_table_span:
  "m_CRC16Table = xor_span (map (\<lambda>j. crc16_byte (2 ^ j)) (rev [0..<8]))"
proof -
  have "map (\<lambda>j. crc16_byte (2 ^ j)) (rev [0..<8]) =
      [0x9188, 0x48C4, 0x2462, 0x1231, 0x8108, 0x4084, 0x2042, 0x1021]"
    unfolding crc16_byte_def by code_simp
  then show ?thesis
    by (simp add: m_CRC16Table_def Let_def)
qed

lemma crc16_table: "m_CRC16Table ! unat i = crc16_byte i" for i :: u8
proof -
  have "unat i < 2 ^ 8"
    using unsigned_less [of i] by simp
  then show ?thesis
    unfolding crc16_table_span by (subst xor_span_linear [OF crc16_byte_linear]) simp_all
qed

lemma funpow_shift16_low:
  assumes "\<And>n. 8 \<le> n \<Longrightarrow> \<not> bit x n"
  shows "k \<le> 8 \<Longrightarrow> (shift16 ^^ k) x = push_bit k x"
  by (induction k) (simp_all add: lfsr16_def bit_push_bit_iff assms)

lemma funpow_shift16_byte:
  assumes "k \<le> 8"
  shows "(shift16 ^^ k) (crc XOR push_bit 8 (ucast d)) =
     fold lfsr16 (map (bit d) (rev [8 - k..<8])) crc XOR push_bit (8 + k) (ucast d)"
  using assms
proof (induction k)
  case (Suc k)
  then have upt: "[7 - k..<8] = (7 - k) # [8 - k..<8]"
    by (subst upt_conv_Cons) (auto simp: Suc_diff_le [symmetric])
  have step: "shift16 (c XOR push_bit (8 + k) (ucast d)) =
      lfsr16 (bit d (7 - k)) c XOR push_bit (Suc (8 + k)) (ucast d)" for c
  proof -
    have top: "bit (c XOR push_bit (8 + k) (ucast d)) 15 \<longleftrightarrow> bit d (7 - k) \<noteq> bit c 15"
      using Suc.prems by (auto simp: bit_xor_iff bit_push_bit_iff bit_ucast_iff)
    have "push_bit 1 (push_bit (8 + k) (ucast d :: u16)) = push_bit (Suc (8 + k)) (ucast d)"
      by (simp add: push_bit_push_bit del: One_nat_def push_bit_Suc)
    then show ?thesis
      unfolding lfsr16_def top push_bit_xor by (simp only: xor.assoc xor.commute xor.left_commute split: if_splits) simp
  qed
  from Suc show ?case
    by (simp add: upt step del: push_bit_Suc)
qed simp

lemma shift16_8_byte: "(shift16 ^^ 8) crc = push_bit 8 crc XOR crc16_byte (ucast (drop_bit 8 crc))"
proof -
  have split: "crc = push_bit 8 (ucast (ucast (drop_bit 8 crc) :: u8)) XOR take_bit 8 crc"
    by (rule bit_word_eqI) (auto simp: bit_simps dest: bit_imp_le_length)
  have "(shift16 ^^ 8) (take_bit 8 crc) = push_bit 8 (take_bit 8 crc)"
    by (rule funpow_shift16_low) (auto simp: bit_take_bit_iff)
  also have "\<dots> = push_bit 8 crc"
    by (rule bit_word_eqI) (auto simp: bit_push_bit_iff bit_take_bit_iff)
  finally show ?thesis
    by (subst split) (simp only: funpow_shift16_linear crc16_byte_def xor.commute)
qed

lemma crc16_step: "crc16_step d crc = fold lfsr16 (bits_msb d) crc"
proof -
  define h :: u8 where "h = ucast (drop_bit 8 crc)"
  have m8: "(0x00FF :: u16) = mask 8"
    by (simp add: mask_eq_exp_minus_1)
  have i: "(drop_bit 8 crc XOR ucast d) AND 0x00FF = ucast (h XOR d)"
    unfolding m8 by (rule bit_word_eqI) (auto simp: h_def bit_simps dest: bit_imp_le_length)
  have n: "unat (ucast (h XOR d) :: u16) = unat (h XOR d)"
    by (simp add: unsigned_ucast_eq take_bit_nat_eq_self order_less_le_trans [OF unsigned_less]
        del: unsigned_xor_eq)
  have d16: "push_bit 16 (ucast d :: u16) = 0"
    by (rule bit_word_eqI) (simp add: bit_push_bit_iff)
  have "crc16_step d crc = push_bit 8 crc XOR crc16_byte h XOR crc16_byte d"
    unfolding crc16_step_def i n crc16_table crc16_byte_linear by (simp only: xor.assoc)
  also have "\<dots> = (shift16 ^^ 8) (crc XOR push_bit 8 (ucast d))"
    by (simp only: funpow_shift16_linear shift16_8_byte [of crc] h_def crc16_byte_def [of d, symmetric] xor.assoc)
  also have "\<dots> = fold lfsr16 (bits_msb d) crc"
    using funpow_shift16_byte [of 8 crc d] by (simp add: d16 bits_msb_def rev_upt_8)
  finally show ?thesis .
qed

lemma crc16_fold: "fold crc16_step data crc = fold lfsr16 (message_bits data) crc"
  by (induction data arbitrary: crc) (simp_all add: crc16_step message_bits_def)

lemma CRC16_append: "CRC16 (xs @ ys) = fold crc16_step ys (CRC16 xs)"
  by (simp add: CRC16_def)

lemma crc16_step_byte:
  "crc16_step d crc = push_bit 8 crc XOR crc16_byte (ucast (drop_bit 8 crc)) XOR crc16_byte d"
proof -
  have d16: "push_bit 16 (ucast d :: u16) = 0"
    by (rule bit_word_eqI) (simp add: bit_push_bit_iff)
  have "crc16_step d crc = (shift16 ^^ 8) (crc XOR push_bit 8 (ucast d))"
    using funpow_shift16_byte [of 8 crc d] by (simp add: crc16_step d16 bits_msb_def rev_upt_8)
  then show ?thesis
    by (simp only: funpow_shift16_linear shift16_8_byte [of crc] crc16_byte_def [of d, symmetric] xor.assoc)
qed

text \<open>Two registers that differ keep differing, whatever the bits that follow.\<close>

lemma lfsr16_inj: "lfsr16 b x = lfsr16 b y \<longleftrightarrow> x = y"
proof
  assume eq: "lfsr16 b x = lfsr16 b y"
  have bit0: "bit (lfsr16 b z) 0 \<longleftrightarrow> b \<noteq> bit z 15" for z
    by (simp add: lfsr16_def bit_xor_iff bit_push_bit_iff del: One_nat_def)
  with eq have top: "bit x 15 = bit y 15"
    by metis
  with eq have shifted: "push_bit 1 x = push_bit 1 y"
    unfolding lfsr16_def by (cases "b \<noteq> bit y 15") (simp_all only: if_True if_False not_False_eq_True not_True_eq_False xor_right_cancel)
  show "x = y"
  proof (rule bit_word_eqI)
    fix n assume "n < LENGTH(16)"
    moreover have "bit (push_bit 1 x) (Suc n) = bit (push_bit 1 y) (Suc n)"
      by (simp only: shifted)
    ultimately show "bit x n = bit y n"
      using top by (cases "n = 15") (auto simp: bit_push_bit_iff simp del: One_nat_def)
  qed
qed simp

lemma fold_lfsr16_inj: "fold lfsr16 bs x = fold lfsr16 bs y \<longleftrightarrow> x = y"
  by (induction bs arbitrary: x y) (simp_all add: lfsr16_inj)

lemma crc16_step_inj: "crc16_step d x = crc16_step d y \<longleftrightarrow> x = y"
  by (simp only: crc16_step fold_lfsr16_inj)

lemma crc16_fold_inj: "fold crc16_step ds x = fold crc16_step ds y \<longleftrightarrow> x = y"
  by (simp only: crc16_fold fold_lfsr16_inj)

text \<open>Two bytes fill the register: they are the register, seen through an invertible map.\<close>

lemma crc16_two_bytes:
  "fold crc16_step [a, b] crc = (shift16 ^^ 16) (crc XOR push_bit 8 (ucast a) XOR ucast b)"
proof -
  have step: "crc16_step d c = (shift16 ^^ 8) (c XOR push_bit 8 (ucast d))" for d c
    by (simp only: crc16_step_byte funpow_shift16_linear shift16_8_byte [of c]
        crc16_byte_def [of d, symmetric] xor.assoc)
  have low: "(shift16 ^^ 8) (ucast b) = push_bit 8 (ucast b)"
    by (rule funpow_shift16_low) (auto simp: bit_ucast_iff dest: bit_imp_le_length)
  have "fold crc16_step [a, b] crc =
      (shift16 ^^ 8) ((shift16 ^^ 8) (crc XOR push_bit 8 (ucast a)) XOR (shift16 ^^ 8) (ucast b))"
    by (simp add: step low)
  also have "\<dots> = (shift16 ^^ (8 + 8)) (crc XOR push_bit 8 (ucast a) XOR ucast b)"
    by (simp only: funpow_shift16_linear funpow_add o_apply xor.assoc)
  finally show ?thesis by simp
qed

lemma funpow_shift16_inj: "(shift16 ^^ k) x = (shift16 ^^ k) y \<longleftrightarrow> x = y"
  by (induction k) (simp_all add: lfsr16_inj)

lemma two_bytes_inj:
  "push_bit 8 (ucast a) XOR ucast b = (push_bit 8 (ucast c) XOR ucast d :: u16) \<longleftrightarrow> a = c \<and> b = d"
  for a b c d :: u8
proof
  assume eq: "push_bit 8 (ucast a) XOR ucast b = (push_bit 8 (ucast c) XOR ucast d :: u16)"
  have bits: "bit (push_bit 8 (ucast x) XOR ucast y :: u16) n \<longleftrightarrow>
      (if n < 8 then bit y n else n < 16 \<and> bit x (n - 8))" for x y :: u8 and n
    by (auto simp: bit_xor_iff bit_push_bit_iff bit_ucast_iff dest: bit_imp_le_length)
  have "b = d"
  proof (rule bit_word_eqI)
    fix n assume "n < LENGTH(8)"
    then show "bit b n = bit d n"
      using bits [of a b n] bits [of c d n] eq by simp
  qed
  moreover have "a = c"
  proof (rule bit_word_eqI)
    fix n assume "n < LENGTH(8)"
    then show "bit a n = bit c n"
      using bits [of a b "n + 8"] bits [of c d "n + 8"] eq by simp
  qed
  ultimately show "a = c \<and> b = d" by simp
qed simp

section \<open>Properties\<close>

text \<open>
  C37: \<open>CRC7\<close> never reads outside its table, and what it computes is the 7-bit shift register of
  the SD specification (generator \<open>x^7 + x^3 + 1\<close>, start value 0) run over the message bits, most
  significant first.
\<close>

theorem CRC7_correct: "CRC7 data = Some (fold lfsr7 (message_bits data) 0)"
  unfolding CRC7_def by (rule crc7_loop) simp

text \<open>
  C4: \<open>CRC16\<close> computes the 16-bit shift register of the SD specification (generator
  \<open>x^16 + x^12 + x^5 + 1\<close>, start value 0) over the message bits, most significant first.
\<close>

theorem CRC16_correct: "CRC16 data = fold lfsr16 (message_bits data) 0"
  by (simp only: CRC16_def crc16_fold)

text \<open>
  A block followed by its own checksum, high byte first (the way the card sends it), has
  checksum 0.
\<close>

theorem CRC16_residue:
  "CRC16 (data @ [ucast (drop_bit 8 (CRC16 data)), ucast (CRC16 data)]) = 0"
proof -
  define c where "c = CRC16 data"
  have "push_bit 8 (ucast (ucast (drop_bit 8 c) :: u8)) XOR ucast (ucast c :: u8) = c"
    by (rule bit_word_eqI) (auto simp: bit_simps dest: bit_imp_le_length)
  then have "c XOR push_bit 8 (ucast (ucast (drop_bit 8 c) :: u8)) XOR ucast (ucast c :: u8) = 0"
    by (metis xor.assoc xor_self_eq)
  moreover have "(shift16 ^^ k) 0 = 0" for k
    by (induction k) (simp_all add: lfsr16_def)
  ultimately show ?thesis
    unfolding CRC16_append crc16_two_bytes c_def [symmetric] by simp
qed

text \<open>
  C36: \<open>CRC16\<close> detects every corruption confined to two adjacent bytes: the checksums of two
  blocks that agree outside such a pair are equal only if the blocks are.
\<close>

theorem CRC16_detects_bursts:
  "CRC16 (pre @ [a, b] @ post) = CRC16 (pre @ [c, d] @ post) \<longleftrightarrow> a = c \<and> b = d"
proof -
  have "crc XOR push_bit 8 (ucast a) XOR ucast b = crc XOR push_bit 8 (ucast c) XOR (ucast d :: u16)
      \<longleftrightarrow> push_bit 8 (ucast a) XOR ucast b = (push_bit 8 (ucast c) XOR ucast d :: u16)" for crc
    by (simp only: xor.assoc xor_left_cancel)
  then show ?thesis
    unfolding CRC16_append fold_append o_apply crc16_fold_inj crc16_two_bytes funpow_shift16_inj
    by (simp only: two_bytes_inj)
qed

end
