(* ===== verification/Soc.thy ===== *)
theory Soc
  imports HalPrelude
begin

text \<open>
  The machine the drivers of \<^verbatim>\<open>cores/esp32\<close> run on: the memory-mapped registers they read and
  write, and the log of everything they do to the outside world in the order they do it. A volatile
  store is an event, because many registers (write-1-to-set, write-1-to-clear, FIFOs) react to each
  store and not to the value left behind. A call of code that is not in the repository (ROM,
  FreeRTOS, interrupt allocator, user callbacks) is an event too, with its arguments.

  The state is an extensible record: a driver with static variables of its own extends it, and every
  operation on registers applies to the extended state unchanged.
\<close>

text \<open>Ranges with numeral bounds stay folded: the loops of the drivers run over them.\<close>

declare upt_rec_numeral [simp del]

section \<open>Registers\<close>

text \<open>
  \<open>Mem a\<close> is the register at address \<open>a\<close>, for the code that goes through \<^verbatim>\<open>ESP_REG\<close> and
  \<^verbatim>\<open>READ_PERI_REG\<close>; the other constructors are the members of the register structs of
  \<^verbatim>\<open>tools/sdk/include/soc/soc\<close> that the drivers use, under the struct's member names. \<open>UartRam n i\<close> is
  memory of the hardware behind the FIFO of serial port \<open>n\<close>, which no code addresses, and
  \<open>RmtMem k\<close> the \<open>k\<close>-th item of \<^verbatim>\<open>RMTMEM\<close>, where channel \<open>c\<close> starts at \<open>64 * c\<close>.
\<close>

datatype gpio_reg =
    out_w1ts | out_w1tc | out1_w1ts | out1_w1tc
  | enable_w1ts | enable_w1tc | enable1_w1ts | enable1_w1tc
  | gpio_in | gpio_in1
  | gpio_status | gpio_status1 | status_w1tc | status1_w1tc
  | gpio_pin nat

datatype tim_reg =
    tconfig | cnt_low | cnt_high | tupdate
  | alarm_low | alarm_high | load_low | load_high | treload

datatype timg_reg = int_ena_timers | int_st_timers | int_clr_timers

datatype ledc_reg = lconf0 | lhpoint | lduty | lconf1

datatype spi_reg =
    scmd | spin | suser | suser1 | sctrl | sctrl1 | sctrl2 | sclock | sslave
  | mosi_dlen | miso_dlen | data_buf nat

datatype uart_reg =
    ufifo | uint_ena | uint_clr | uclk_div | ustatus | uconf0 | uconf1 | urs485_conf
  | umem_rx_status

datatype rmt_reg =
    rconf0 nat | rconf1 nat | rcarrier nat | rtx_lim nat
  | rint_raw | rint_st | rint_ena | rint_clr | rapb_conf

datatype i2c_reg =
    ictr | istatus | itout | islave_addr | ififo_conf | ififo_data
  | iint_ena | iint_clr | iint_status | icommand nat
  | iscl_low | iscl_high | isda_hold | isda_sample
  | istart_hold | irstart_setup | istop_hold | istop_setup

datatype reg =
    Mem u32
  | Gpio gpio_reg
  | Timer nat tim_reg
  | TimerGroup nat timg_reg
  | LedcConf
  | LedcTimer nat nat
  | LedcChan nat nat ledc_reg
  | Spi nat spi_reg
  | Uart nat uart_reg
  | UartRam nat nat
  | Rmt rmt_reg
  | RmtMem nat
  | I2c nat i2c_reg

text \<open>
  What the hardware does to its registers on its own, or in answer to a reading or a store, is a
  function on their contents; the drivers take these functions as parameters.
\<close>

type_synonym regfile = "reg \<Rightarrow> u32"

section \<open>Events\<close>

text \<open>The mutexes the drivers create, one constructor per static variable that holds one.\<close>

datatype lock = LedcLock | SdLock | SpiLock nat | UartLock nat | RmtLock nat | RmtBlockLock | I2cLock nat

datatype call =
    GpioMatrixOut u32 u32 bool bool
  | GpioMatrixIn u32 u32 bool
  | IntrAlloc nat
  | IntrFree ptr
  | IntrEnable ptr
  | IntrDisable ptr
  | IntrMatrixSet nat nat nat
  | SemTake lock
  | SemGive lock
  | CallFn ptr
  | CallFnArg ptr ptr
  | CleanupFunctional ptr
  | QueueDelete nat
  | InstallPutc "nat option"
  | EtsPrintf "u8 list"
  | MallocMem nat ptr
  | FreeMem ptr
  | SemDelete lock
  | EventClear ptr u32
  | EventSet ptr u32
  | CallFnLen ptr nat nat
  | EventWait ptr u32
  | EventDelete ptr
  | PeriphEnable nat
  | TaskYield
  | TaskDelay u32
  | SetTz string
  | SntpStop
  | SntpPoll
  | SntpServer nat ptr
  | SntpInit
  | LogLevel nat
  | NvsInit
  | PartErase nat
  | BtRelease
  | SpiramCache
  | SpiramStart
  | SpiramCheck
  | SpiramHeap
  | HeapMalloc nat u32
  | HeapCalloc nat nat u32
  | HeapRealloc ptr nat u32

datatype event = Wr reg u32 | Ext call

record soc =
  soc_regs :: regfile
  soc_trace :: "event list"

section \<open>Register access\<close>

definition rd :: "reg \<Rightarrow> 'a soc_scheme \<Rightarrow> u32" where
  "rd r s = soc_regs s r"

definition on_regs :: "(regfile \<Rightarrow> regfile) \<Rightarrow> 'a soc_scheme \<Rightarrow> 'a soc_scheme" where
  "on_regs f s = s\<lparr>soc_regs := f (soc_regs s)\<rparr>"

definition wr :: "reg \<Rightarrow> u32 \<Rightarrow> 'a soc_scheme \<Rightarrow> 'a soc_scheme" where
  "wr r v s = s\<lparr>soc_regs := (soc_regs s)(r := v), soc_trace := soc_trace s @ [Wr r v]\<rparr>"

definition ext :: "call \<Rightarrow> 'a soc_scheme \<Rightarrow> 'a soc_scheme" where
  "ext c s = s\<lparr>soc_trace := soc_trace s @ [Ext c]\<rparr>"

text \<open>Assignment to and reading of a bit field of a register union.\<close>

definition setf :: "reg \<Rightarrow> bfield \<Rightarrow> u32 \<Rightarrow> 'a soc_scheme \<Rightarrow> 'a soc_scheme" where
  "setf r f v s = wr r (bf_put f v (rd r s)) s"

definition getf :: "reg \<Rightarrow> bfield \<Rightarrow> 'a soc_scheme \<Rightarrow> u32" where
  "getf r f s = bf_get f (rd r s)"

text \<open>
  The register macros of \<^verbatim>\<open>soc.h\<close>: \<open>SET_PERI_REG_MASK\<close> (and \<open>r |= m\<close>),
  \<open>CLEAR_PERI_REG_MASK\<close> (and \<open>r &= ~m\<close>), \<open>SET_PERI_REG_BITS\<close>, \<open>GET_PERI_REG_MASK\<close> and
  \<open>GET_PERI_REG_BITS2\<close>. The \<^verbatim>\<open>DPORT_\<close> variants have the same effect.
\<close>

definition set_peri_reg_mask :: "reg \<Rightarrow> u32 \<Rightarrow> 'a soc_scheme \<Rightarrow> 'a soc_scheme" where
  "set_peri_reg_mask r m s = wr r (rd r s OR m) s"

definition clear_peri_reg_mask :: "reg \<Rightarrow> u32 \<Rightarrow> 'a soc_scheme \<Rightarrow> 'a soc_scheme" where
  "clear_peri_reg_mask r m s = wr r (rd r s AND NOT m) s"

definition set_peri_reg_bits :: "reg \<Rightarrow> u32 \<Rightarrow> u32 \<Rightarrow> nat \<Rightarrow> 'a soc_scheme \<Rightarrow> 'a soc_scheme"
  where
  "set_peri_reg_bits r bit_map v shift s =
     wr r ((rd r s AND NOT (push_bit shift bit_map)) OR push_bit shift (v AND bit_map)) s"

definition get_peri_reg_mask :: "reg \<Rightarrow> u32 \<Rightarrow> 'a soc_scheme \<Rightarrow> u32" where
  "get_peri_reg_mask r m s = rd r s AND m"

definition get_peri_reg_bits2 :: "reg \<Rightarrow> u32 \<Rightarrow> nat \<Rightarrow> 'a soc_scheme \<Rightarrow> u32" where
  "get_peri_reg_bits2 r m shift s = drop_bit shift (rd r s) AND m"

definition BIT :: "nat \<Rightarrow> u32" where
  "BIT n = push_bit n 1"

definition DPORT_PERIP_CLK_EN_REG :: reg where "DPORT_PERIP_CLK_EN_REG = Mem 0x3ff000C0"
definition DPORT_PERIP_RST_EN_REG :: reg where "DPORT_PERIP_RST_EN_REG = Mem 0x3ff000C4"

lemmas reg_ops = setf_def set_peri_reg_mask_def clear_peri_reg_mask_def set_peri_reg_bits_def

section \<open>Laws\<close>

lemma rd_wr [simp]: "rd r (wr r' v s) = (if r = r' then v else rd r s)"
  by (simp add: rd_def wr_def)

lemma rd_ext [simp]: "rd r (ext c s) = rd r s"
  by (simp add: rd_def ext_def)

lemma trace_wr [simp]: "soc_trace (wr r v s) = soc_trace s @ [Wr r v]"
  by (simp add: wr_def)

lemma trace_ext [simp]: "soc_trace (ext c s) = soc_trace s @ [Ext c]"
  by (simp add: ext_def)

lemma more_wr [simp]: "soc.more (wr r v s) = soc.more s"
  by (simp add: wr_def)

lemma more_on_regs [simp]: "soc.more (on_regs f s) = soc.more s"
  by (simp add: on_regs_def)

lemma more_ext [simp]: "soc.more (ext c s) = soc.more s"
  by (simp add: ext_def)

lemma rd_setf [simp]:
  "rd r (setf r' f v s) = (if r = r' then bf_put f v (rd r s) else rd r s)"
  by (simp add: setf_def)

lemma trace_setf [simp]:
  "soc_trace (setf r f v s) = soc_trace s @ [Wr r (bf_put f v (rd r s))]"
  by (simp add: setf_def)

lemma more_setf [simp]: "soc.more (setf r f v s) = soc.more s"
  by (simp add: setf_def)

lemma getf_setf_same:
  "fst f + snd f \<le> 32 \<Longrightarrow> getf r f (setf r f v s) = take_bit (snd f) v"
  by (simp add: getf_def bf_get_put_same)

lemma getf_setf_other:
  "r \<noteq> r' \<or> bf_disjoint f g \<Longrightarrow> getf r' g (setf r f v s) = getf r' g s"
  by (auto simp: getf_def bf_get_put_other)

lemma rd_set_mask [simp]:
  "rd r (set_peri_reg_mask r' m s) = (if r = r' then rd r s OR m else rd r s)"
  by (simp add: set_peri_reg_mask_def)

lemma rd_clear_mask [simp]:
  "rd r (clear_peri_reg_mask r' m s) = (if r = r' then rd r s AND NOT m else rd r s)"
  by (simp add: clear_peri_reg_mask_def)

lemma more_set_mask [simp]: "soc.more (set_peri_reg_mask r m s) = soc.more s"
  by (simp add: set_peri_reg_mask_def)

lemma more_clear_mask [simp]: "soc.more (clear_peri_reg_mask r m s) = soc.more s"
  by (simp add: clear_peri_reg_mask_def)

lemma bit_BIT [bits]: "bit (BIT n) k \<longleftrightarrow> k = n \<and> n < 32"
  by (auto simp: BIT_def bit_exp_iff)

text \<open>A register no statement of a block stores to.\<close>

lemma rd_exec_other:
  assumes "\<And>f s. f \<in> set fs \<Longrightarrow> rd r (f s) = rd r s"
  shows "rd r (exec fs s) = rd r s"
  using assms by (induction fs arbitrary: s) simp_all

lemma bf_get_BIT:
  assumes "k < fst f \<or> fst f + snd f \<le> k"
  shows "bf_get f (w AND NOT (BIT k)) = bf_get f w" and "bf_get f (w OR BIT k) = bf_get f w"
  by (rule bit_word_eqI; use assms in \<open>auto simp: bits bit_and_iff bit_or_iff bit_not_iff
      dest: bit_imp_le_length\<close>)+

text \<open>Reading a field back after a statement on a register.\<close>

lemma getf_steps:
  "getf r g (setf r' f v s) = (if r = r' then bf_get g (bf_put f v (rd r s)) else getf r g s)"
  "getf r g (set_peri_reg_mask r' m s) = (if r = r' then bf_get g (rd r s OR m) else getf r g s)"
  "getf r g (clear_peri_reg_mask r' m s) = (if r = r' then bf_get g (rd r s AND NOT m) else getf r g s)"
  "getf r g (ext c s) = getf r g s"
  by (simp_all add: getf_def)

lemma getf_flag: "getf r (k, 1) s \<noteq> 0 \<longleftrightarrow> bit (rd r s) k"
proof -
  have "bf_get (k, 1) w = of_flag (bit w k)" for w :: u32
    by (rule bit_word_eqI) (auto simp: bits of_flag_def bit_1_iff)
  then show ?thesis
    by (simp add: getf_def)
qed

lemma bit_of_flag [simp]: "bit (of_flag b) 0 \<longleftrightarrow> b"
  by (simp add: of_flag_def)

section \<open>Mutual exclusion\<close>

text \<open>
  How often a mutex is held after a log: takes minus gives. A call path that leaves this as it found
  it returns every mutex it took.
\<close>

fun held_step :: "lock \<Rightarrow> event \<Rightarrow> int \<Rightarrow> int" where
  "held_step l (Ext (SemTake l')) n = (if l = l' then n + 1 else n)"
| "held_step l (Ext (SemGive l')) n = (if l = l' then n - 1 else n)"
| "held_step l _ n = n"

definition held :: "lock \<Rightarrow> 'a soc_scheme \<Rightarrow> int" where
  "held l s = fold (held_step l) (soc_trace s) 0"

lemma held_wr [simp]: "held l (wr r v s) = held l s"
  by (simp add: held_def)

lemma held_setf [simp]: "held l (setf r f v s) = held l s"
  by (simp add: setf_def)

lemma held_ext: "held l (ext c s) = held_step l (Ext c) (held l s)"
  by (simp add: held_def)

lemma held_take [simp]: "held l (ext (SemTake l') s) = (if l = l' then held l s + 1 else held l s)"
  by (simp add: held_ext)

lemma held_give [simp]: "held l (ext (SemGive l') s) = (if l = l' then held l s - 1 else held l s)"
  by (simp add: held_ext)

lemma held_masks [simp]:
  "held l (set_peri_reg_mask r m s) = held l s"
  "held l (clear_peri_reg_mask r m s) = held l s"
  by (simp_all add: set_peri_reg_mask_def clear_peri_reg_mask_def)

end
