(* ===== verification/Gpio.thy ===== *)
theory Gpio
  imports Soc
begin

text \<open>
  \<^verbatim>\<open>esp32-hal-gpio.c\<close>: the pad tables, pin configuration, digital read and write, and the pin
  interrupt dispatcher with its handler table. The pad descriptors \<^verbatim>\<open>rtc_gpio_desc\<close> of ESP-IDF are
  a parameter. A handler call is an event of the log; the handlers themselves are user code.

  The output register is not readable in one place: the code only ever stores to its write-1-to-set
  and write-1-to-clear aliases. \<open>out_level\<close> and \<open>out_enabled\<close> read the levels such a log leaves in
  the hardware.
\<close>

section \<open>Pad tables\<close>

record esp32_gpioMux_t =
  mux_reg :: u32
  mux_rtc :: int
  mux_adc :: int
  mux_touch :: int

abbreviation pad :: "u32 \<Rightarrow> int \<Rightarrow> int \<Rightarrow> int \<Rightarrow> esp32_gpioMux_t" where
  "pad r c a t \<equiv> \<lparr>mux_reg = r, mux_rtc = c, mux_adc = a, mux_touch = t\<rparr>"

definition GPIO_PIN_COUNT :: nat where
  "GPIO_PIN_COUNT = 40"

definition esp32_adc2gpio :: "int list" where
  "esp32_adc2gpio =
     [36, 37, 38, 39, 32, 33, 34, 35, -1, -1, 4, 0, 2, 15, 13, 12, 14, 27, 25, 26]"

definition esp32_gpioMux :: "esp32_gpioMux_t list" where
  "esp32_gpioMux =
     [pad 0x44 11 11 1,
      pad 0x88 (-1) (-1) (-1),
      pad 0x40 12 12 2,
      pad 0x84 (-1) (-1) (-1),
      pad 0x48 10 10 0,
      pad 0x6c (-1) (-1) (-1),
      pad 0x60 (-1) (-1) (-1),
      pad 0x64 (-1) (-1) (-1),
      pad 0x68 (-1) (-1) (-1),
      pad 0x54 (-1) (-1) (-1),
      pad 0x58 (-1) (-1) (-1),
      pad 0x5c (-1) (-1) (-1),
      pad 0x34 15 15 5,
      pad 0x38 14 14 4,
      pad 0x30 16 16 6,
      pad 0x3c 13 13 3,
      pad 0x4c (-1) (-1) (-1),
      pad 0x50 (-1) (-1) (-1),
      pad 0x70 (-1) (-1) (-1),
      pad 0x74 (-1) (-1) (-1),
      pad 0x78 (-1) (-1) (-1),
      pad 0x7c (-1) (-1) (-1),
      pad 0x80 (-1) (-1) (-1),
      pad 0x8c (-1) (-1) (-1),
      pad 0 (-1) (-1) (-1),
      pad 0x24 6 18 (-1),
      pad 0x28 7 19 (-1),
      pad 0x2c 17 17 7,
      pad 0 (-1) (-1) (-1),
      pad 0 (-1) (-1) (-1),
      pad 0 (-1) (-1) (-1),
      pad 0 (-1) (-1) (-1),
      pad 0x1c 9 4 9,
      pad 0x20 8 5 8,
      pad 0x14 4 6 (-1),
      pad 0x18 5 7 (-1),
      pad 0x04 0 0 (-1),
      pad 0x08 1 1 (-1),
      pad 0x0c 2 2 (-1),
      pad 0x10 3 3 (-1)]"

definition digitalPinIsValid :: "nat \<Rightarrow> bool" where
  "digitalPinIsValid pin \<longleftrightarrow> pin < 40 \<and> mux_reg (esp32_gpioMux ! pin) \<noteq> 0"

definition digitalPinToRtcPin :: "nat \<Rightarrow> int" where
  "digitalPinToRtcPin pin = (if pin < 40 then mux_rtc (esp32_gpioMux ! pin) else -1)"

definition digitalPinToAnalogChannel :: "nat \<Rightarrow> int" where
  "digitalPinToAnalogChannel pin = (if pin < 40 then mux_adc (esp32_gpioMux ! pin) else -1)"

definition digitalPinToTouchChannel :: "nat \<Rightarrow> int" where
  "digitalPinToTouchChannel pin = (if pin < 40 then mux_touch (esp32_gpioMux ! pin) else -1)"

definition digitalPinToDacChannel :: "nat \<Rightarrow> int" where
  "digitalPinToDacChannel pin = (if pin = 25 then 0 else if pin = 26 then 1 else -1)"

text \<open>The fields of ESP-IDF's \<^verbatim>\<open>rtc_gpio_desc_t\<close> that the driver reads.\<close>

record rtc_gpio_desc_t =
  desc_reg :: u32
  desc_mux :: u32
  desc_func :: nat
  desc_ie :: u32
  desc_pullup :: u32
  desc_pulldown :: u32
  desc_rtc_num :: int

section \<open>Modes and register constants\<close>

definition INPUT :: u8 where "INPUT = 0x01"
definition OUTPUT :: u8 where "OUTPUT = 0x02"
definition PULLUP :: u8 where "PULLUP = 0x04"
definition PULLDOWN :: u8 where "PULLDOWN = 0x08"
definition OPEN_DRAIN :: u8 where "OPEN_DRAIN = 0x10"
definition SPECIAL :: u8 where "SPECIAL = 0xF0"
definition ANALOG :: u8 where "ANALOG = 0xC0"

lemmas gpio_modes =
  INPUT_def OUTPUT_def PULLUP_def PULLDOWN_def OPEN_DRAIN_def SPECIAL_def ANALOG_def

definition FUN_PD :: u32 where "FUN_PD = BIT 7"
definition FUN_PU :: u32 where "FUN_PU = BIT 8"
definition FUN_IE :: u32 where "FUN_IE = BIT 9"
definition FUN_DRV_S :: nat where "FUN_DRV_S = 10"
definition MCU_SEL_S :: nat where "MCU_SEL_S = 12"
definition GPIO_PIN0_PAD_DRIVER_S :: nat where "GPIO_PIN0_PAD_DRIVER_S = 2"
definition RTC_IO_TOUCH_PAD1_FUN_SEL_V :: u32 where "RTC_IO_TOUCH_PAD1_FUN_SEL_V = 0x3"
definition RTC_GPIO_ENABLE_W1TC_REG :: reg where "RTC_GPIO_ENABLE_W1TC_REG = Mem 0x3ff48414"
definition RTC_GPIO_ENABLE_W1TC_S :: nat where "RTC_GPIO_ENABLE_W1TC_S = 14"
definition DR_REG_IO_MUX_BASE :: u32 where "DR_REG_IO_MUX_BASE = 0x3ff49000"

definition pin_mux_reg :: "nat \<Rightarrow> reg" where
  "pin_mux_reg pin = Mem (DR_REG_IO_MUX_BASE + mux_reg (esp32_gpioMux ! pin))"

section \<open>Pin configuration\<close>

definition pinMode_analog :: "rtc_gpio_desc_t \<Rightarrow> nat \<Rightarrow> 'a soc_scheme \<Rightarrow> 'a soc_scheme" where
  "pinMode_analog d pin s =
     (if desc_reg d = 0 then s
      else
        let reg_val = rd (Mem (desc_reg d)) s in
        if reg_val AND desc_mux d \<noteq> 0 then s
        else
          let reg_val = reg_val AND NOT (push_bit (desc_func d) RTC_IO_TOUCH_PAD1_FUN_SEL_V
                OR desc_ie d OR desc_pullup d OR desc_pulldown d) in
          exec
            [wr RTC_GPIO_ENABLE_W1TC_REG (BIT (nat (desc_rtc_num d) + RTC_GPIO_ENABLE_W1TC_S)),
             wr (Mem (desc_reg d)) (reg_val OR desc_mux d),
             wr (pin_mux_reg pin) (push_bit MCU_SEL_S 2 OR push_bit FUN_DRV_S 2 OR FUN_IE)] s)"

definition pinMode_rtc_pull ::
  "rtc_gpio_desc_t \<Rightarrow> u8 \<Rightarrow> 'a soc_scheme \<Rightarrow> 'a soc_scheme" where
  "pinMode_rtc_pull d mode s =
     (if desc_reg d = 0 then s
      else
        let r = Mem (desc_reg d); s = wr r (rd r s AND NOT (desc_mux d)) s in
        if mode AND PULLUP \<noteq> 0
        then wr r ((rd r s OR desc_pullup d) AND NOT (desc_pulldown d)) s
        else if mode AND PULLDOWN \<noteq> 0
        then wr r ((rd r s OR desc_pulldown d) AND NOT (desc_pullup d)) s
        else wr r (rd r s AND NOT (desc_pullup d OR desc_pulldown d)) s)"

definition pin_function :: "nat \<Rightarrow> u8 \<Rightarrow> u32" where
  "pin_function pin mode =
     (if mode AND PULLUP \<noteq> 0 then FUN_PU else if mode AND PULLDOWN \<noteq> 0 then FUN_PD else 0)
     OR push_bit FUN_DRV_S 2 OR FUN_IE
     OR (if mode AND (INPUT OR OUTPUT) \<noteq> 0 then push_bit MCU_SEL_S 2
         else if mode = SPECIAL then push_bit MCU_SEL_S (if pin = 1 \<or> pin = 3 then 0 else 1)
         else push_bit MCU_SEL_S (ucast (drop_bit 5 mode)))"

definition pin_control :: "u8 \<Rightarrow> u32" where
  "pin_control mode =
     (if mode AND OPEN_DRAIN \<noteq> 0 then push_bit GPIO_PIN0_PAD_DRIVER_S 1 else 0)"

definition pinMode ::
  "(nat \<Rightarrow> rtc_gpio_desc_t) \<Rightarrow> nat \<Rightarrow> u8 \<Rightarrow> 'a soc_scheme \<Rightarrow> 'a soc_scheme" where
  "pinMode desc pin mode s =
     (if \<not> digitalPinIsValid pin then s
      else if mode = ANALOG then pinMode_analog (desc pin) pin s
      else
        let s = pinMode_rtc_pull (desc pin) mode s in
        if mode AND INPUT = 0 \<and> mode AND OUTPUT \<noteq> 0 \<and> 33 < pin then s
        else
          let s =
            (if mode AND INPUT \<noteq> 0
             then if pin < 32 then wr (Gpio enable_w1tc) (BIT pin) s
                  else wr (Gpio enable1_w1tc) (BIT (pin - 32)) s
             else if mode AND OUTPUT \<noteq> 0
             then if pin < 32 then wr (Gpio enable_w1ts) (BIT pin) s
                  else wr (Gpio enable1_w1ts) (BIT (pin - 32)) s
             else s);
          s = wr (pin_mux_reg pin) (pin_function pin mode) s
          in wr (Gpio (gpio_pin pin)) (pin_control mode) s)"

section \<open>Digital read and write\<close>

definition digitalWrite :: "nat \<Rightarrow> u8 \<Rightarrow> 'a soc_scheme \<Rightarrow> 'a soc_scheme" where
  "digitalWrite pin v s =
     (if v \<noteq> 0
      then if pin < 32 then wr (Gpio out_w1ts) (BIT pin) s
           else if pin < 34 then wr (Gpio out1_w1ts) (BIT (pin - 32)) s
           else s
      else if pin < 32 then wr (Gpio out_w1tc) (BIT pin) s
           else if pin < 34 then wr (Gpio out1_w1tc) (BIT (pin - 32)) s
           else s)"

definition digitalRead :: "nat \<Rightarrow> 'a soc_scheme \<Rightarrow> u32" where
  "digitalRead pin s =
     (if pin < 32 then drop_bit pin (rd (Gpio gpio_in) s) AND 1
      else if pin < 40 then drop_bit (pin - 32) (rd (Gpio gpio_in1) s) AND 1
      else 0)"

section \<open>The GPIO matrix\<close>

text \<open>\<^verbatim>\<open>esp32-hal-matrix.c\<close>: the ROM's routing functions, with the drivers' detach constants.\<close>

definition MATRIX_DETACH_OUT_SIG :: u32 where "MATRIX_DETACH_OUT_SIG = 0x100"
definition MATRIX_DETACH_IN_LOW_PIN :: u32 where "MATRIX_DETACH_IN_LOW_PIN = 0x30"
definition MATRIX_DETACH_IN_LOW_HIGH :: u32 where "MATRIX_DETACH_IN_LOW_HIGH = 0x38"

definition pinMatrixOutAttach :: "u8 \<Rightarrow> u8 \<Rightarrow> bool \<Rightarrow> bool \<Rightarrow> 'a soc_scheme \<Rightarrow> 'a soc_scheme" where
  "pinMatrixOutAttach pin func invertOut invertEnable =
     ext (GpioMatrixOut (ucast pin) (ucast func) invertOut invertEnable)"

definition pinMatrixOutDetach :: "u8 \<Rightarrow> bool \<Rightarrow> bool \<Rightarrow> 'a soc_scheme \<Rightarrow> 'a soc_scheme" where
  "pinMatrixOutDetach pin invertOut invertEnable =
     ext (GpioMatrixOut (ucast pin) MATRIX_DETACH_OUT_SIG invertOut invertEnable)"

definition pinMatrixInAttach :: "u8 \<Rightarrow> u8 \<Rightarrow> bool \<Rightarrow> 'a soc_scheme \<Rightarrow> 'a soc_scheme" where
  "pinMatrixInAttach pin signal inverted = ext (GpioMatrixIn (ucast pin) (ucast signal) inverted)"

definition pinMatrixInDetach :: "u8 \<Rightarrow> bool \<Rightarrow> bool \<Rightarrow> 'a soc_scheme \<Rightarrow> 'a soc_scheme" where
  "pinMatrixInDetach signal high inverted =
     ext (GpioMatrixIn (if high then MATRIX_DETACH_IN_LOW_HIGH else MATRIX_DETACH_IN_LOW_PIN)
       (ucast signal) inverted)"

section \<open>Pin interrupts\<close>

record InterruptHandle_t =
  ih_fn :: ptr
  ih_arg :: ptr
  ih_functional :: bool

record gpio_soc = soc +
  pinInterruptHandlers :: "InterruptHandle_t list"
  interrupt_initialized :: bool
  gpio_intr_handle :: ptr

definition gpio_boot :: "soc \<Rightarrow> gpio_soc" where
  "gpio_boot s = soc.extend s
     \<lparr>pinInterruptHandlers = replicate GPIO_PIN_COUNT \<lparr>ih_fn = NULL, ih_arg = NULL, ih_functional = False\<rparr>,
      interrupt_initialized = False, gpio_intr_handle = NULL\<rparr>"

definition int_ena_f :: bfield where "int_ena_f = (13, 5)"
definition int_type_f :: bfield where "int_type_f = (7, 3)"

definition call_handler :: "InterruptHandle_t \<Rightarrow> 'a soc_scheme \<Rightarrow> 'a soc_scheme" where
  "call_handler h s =
     (if ih_fn h \<noteq> NULL
      then if ih_arg h \<noteq> NULL then ext (CallFnArg (ih_fn h) (ih_arg h)) s
           else ext (CallFn (ih_fn h)) s
      else s)"

text \<open>The body of both loops: \<open>base\<close> is the first pin of the status word.\<close>

definition dispatch_pin :: "u32 \<Rightarrow> nat \<Rightarrow> nat \<Rightarrow> gpio_soc \<Rightarrow> gpio_soc" where
  "dispatch_pin status base pin s =
     (if status AND BIT (pin - base) \<noteq> 0 then call_handler (pinInterruptHandlers s ! pin) s else s)"

definition onPinInterrupt :: "gpio_soc \<Rightarrow> gpio_soc" where
  "onPinInterrupt s =
     (let l = rd (Gpio gpio_status) s;
          h = rd (Gpio gpio_status1) s;
          s = wr (Gpio status_w1tc) l s;
          s = wr (Gpio status1_w1tc) h s;
          s = (if l \<noteq> 0 then fold (dispatch_pin l 0) [0..<32] s else s)
      in if h \<noteq> 0 then fold (dispatch_pin h 32) [32..<GPIO_PIN_COUNT] s else s)"

definition cleanup_handler :: "nat \<Rightarrow> gpio_soc \<Rightarrow> gpio_soc" where
  "cleanup_handler pin s =
     (let h = pinInterruptHandlers s ! pin
      in if ih_functional h \<and> ih_arg h \<noteq> NULL then ext (CleanupFunctional (ih_arg h)) s else s)"

text \<open>
  \<open>ih\<close> is the handle \<^verbatim>\<open>esp_intr_alloc\<close> returns and \<open>app_cpu\<close> what \<^verbatim>\<open>esp_intr_get_cpu\<close> says of it.
  A pin past the table is undefined behaviour: \<open>None\<close>.
\<close>

definition ETS_GPIO_INTR_SOURCE :: nat where
  "ETS_GPIO_INTR_SOURCE = 22"

definition attachInterruptFunctionalArg ::
  "ptr \<Rightarrow> bool \<Rightarrow> nat \<Rightarrow> ptr \<Rightarrow> ptr \<Rightarrow> u32 \<Rightarrow> bool \<Rightarrow> gpio_soc \<Rightarrow> gpio_soc option" where
  "attachInterruptFunctionalArg ih app_cpu pin userFunc arg intr_type functional s =
     (if GPIO_PIN_COUNT \<le> pin then None
      else
        let s = (if \<not> interrupt_initialized s
                 then (ext (IntrAlloc ETS_GPIO_INTR_SOURCE) s)
                        \<lparr>interrupt_initialized := True, gpio_intr_handle := ih\<rparr>
                 else s);
            s = cleanup_handler pin s;
            s = s\<lparr>pinInterruptHandlers := (pinInterruptHandlers s)
                    [pin := \<lparr>ih_fn = userFunc, ih_arg = arg, ih_functional = functional\<rparr>]\<rparr>;
            s = ext (IntrDisable (gpio_intr_handle s)) s;
            s = setf (Gpio (gpio_pin pin)) int_ena_f (if app_cpu then 1 else 4) s;
            s = setf (Gpio (gpio_pin pin)) int_type_f intr_type s
        in Some (ext (IntrEnable (gpio_intr_handle s)) s))"

definition attachInterruptArg ::
  "ptr \<Rightarrow> bool \<Rightarrow> nat \<Rightarrow> ptr \<Rightarrow> ptr \<Rightarrow> u32 \<Rightarrow> gpio_soc \<Rightarrow> gpio_soc option" where
  "attachInterruptArg ih app_cpu pin userFunc arg intr_type s =
     attachInterruptFunctionalArg ih app_cpu pin userFunc arg intr_type False s"

definition attachInterrupt ::
  "ptr \<Rightarrow> bool \<Rightarrow> nat \<Rightarrow> ptr \<Rightarrow> u32 \<Rightarrow> gpio_soc \<Rightarrow> gpio_soc option" where
  "attachInterrupt ih app_cpu pin userFunc intr_type s =
     attachInterruptFunctionalArg ih app_cpu pin userFunc NULL intr_type False s"

text \<open>The second store to \<open>arg\<close> is the code's; \<open>functional\<close> is not reset.\<close>

definition detachInterrupt :: "nat \<Rightarrow> gpio_soc \<Rightarrow> gpio_soc option" where
  "detachInterrupt pin s =
     (if GPIO_PIN_COUNT \<le> pin then None
      else
        let s = ext (IntrDisable (gpio_intr_handle s)) s;
            s = cleanup_handler pin s;
            h = pinInterruptHandlers s ! pin;
            s = s\<lparr>pinInterruptHandlers := (pinInterruptHandlers s)
                    [pin := h\<lparr>ih_fn := NULL, ih_arg := NULL\<rparr>]\<rparr>;
            s = setf (Gpio (gpio_pin pin)) int_ena_f 0 s;
            s = setf (Gpio (gpio_pin pin)) int_type_f 0 s
        in Some (ext (IntrEnable (gpio_intr_handle s)) s))"

section \<open>What a log of stores leaves on the pins\<close>

text \<open>
  The write-1-to-set and write-1-to-clear registers of the SoC: a store changes the latches of the
  pins whose bit is 1 and no other.
\<close>

definition set_pins :: "nat \<Rightarrow> u32 \<Rightarrow> bool \<Rightarrow> (nat \<Rightarrow> bool) \<Rightarrow> nat \<Rightarrow> bool" where
  "set_pins base v b l pin = (if base \<le> pin \<and> pin < base + 32 \<and> bit v (pin - base) then b else l pin)"

definition out_step :: "event \<Rightarrow> (nat \<Rightarrow> bool) \<Rightarrow> nat \<Rightarrow> bool" where
  "out_step e l =
     (case e of
        Wr (Gpio r) v \<Rightarrow>
          (case r of
             out_w1ts \<Rightarrow> set_pins 0 v True l | out_w1tc \<Rightarrow> set_pins 0 v False l
           | out1_w1ts \<Rightarrow> set_pins 32 v True l | out1_w1tc \<Rightarrow> set_pins 32 v False l
           | _ \<Rightarrow> l)
      | _ \<Rightarrow> l)"

definition enable_step :: "event \<Rightarrow> (nat \<Rightarrow> bool) \<Rightarrow> nat \<Rightarrow> bool" where
  "enable_step e l =
     (case e of
        Wr (Gpio r) v \<Rightarrow>
          (case r of
             enable_w1ts \<Rightarrow> set_pins 0 v True l | enable_w1tc \<Rightarrow> set_pins 0 v False l
           | enable1_w1ts \<Rightarrow> set_pins 32 v True l | enable1_w1tc \<Rightarrow> set_pins 32 v False l
           | _ \<Rightarrow> l)
      | _ \<Rightarrow> l)"

definition out_level :: "'a soc_scheme \<Rightarrow> nat \<Rightarrow> bool" where
  "out_level s = fold out_step (soc_trace s) (\<lambda>_. False)"

definition out_enabled :: "'a soc_scheme \<Rightarrow> nat \<Rightarrow> bool" where
  "out_enabled s = fold enable_step (soc_trace s) (\<lambda>_. False)"

lemma out_level_wr [simp]: "out_level (wr r v s) = out_step (Wr r v) (out_level s)"
  by (simp add: out_level_def)

lemma out_level_ext [simp]: "out_level (ext c s) = out_level s"
  by (simp add: out_level_def out_step_def)

lemma out_enabled_wr [simp]: "out_enabled (wr r v s) = enable_step (Wr r v) (out_enabled s)"
  by (simp add: out_enabled_def)

lemma set_pins_BIT:
  "set_pins base (BIT (pin - base)) b l q =
     (if base \<le> q \<and> q < base + 32 \<and> q - base = pin - base then b else l q)"
  by (auto simp: set_pins_def bits)

lemma digitalPinIsValid_less: "digitalPinIsValid pin \<Longrightarrow> pin < 40"
  by (simp add: digitalPinIsValid_def)

section \<open>The handler table\<close>

definition handlers_ok :: "gpio_soc \<Rightarrow> bool" where
  "handlers_ok s \<longleftrightarrow> length (pinInterruptHandlers s) = GPIO_PIN_COUNT"

lemma handlers_wr [simp]:
  "pinInterruptHandlers (wr r v s) = pinInterruptHandlers s"
  "gpio_intr_handle (wr r v s) = gpio_intr_handle s"
  "interrupt_initialized (wr r v s) = interrupt_initialized s"
  by (simp_all add: wr_def)

lemma handlers_ext [simp]:
  "pinInterruptHandlers (ext c s) = pinInterruptHandlers s"
  "gpio_intr_handle (ext c s) = gpio_intr_handle s"
  "interrupt_initialized (ext c s) = interrupt_initialized s"
  by (simp_all add: ext_def)

lemma handlers_setf [simp]:
  "pinInterruptHandlers (setf r f v s) = pinInterruptHandlers s"
  "gpio_intr_handle (setf r f v s) = gpio_intr_handle s"
  by (simp_all add: setf_def)

lemma soc_upd_handlers [simp]:
  "soc_trace (s\<lparr>pinInterruptHandlers := hs\<rparr>) = soc_trace s"
  "soc_regs (s\<lparr>pinInterruptHandlers := hs\<rparr>) = soc_regs s"
  by simp_all

lemma handlers_cleanup [simp]:
  "pinInterruptHandlers (cleanup_handler pin s) = pinInterruptHandlers s"
  by (simp add: cleanup_handler_def Let_def)

definition handler_call :: "InterruptHandle_t \<Rightarrow> event list" where
  "handler_call h =
     (if ih_fn h = NULL then []
      else if ih_arg h = NULL then [Ext (CallFn (ih_fn h))]
      else [Ext (CallFnArg (ih_fn h) (ih_arg h))])"

lemma trace_call_handler: "soc_trace (call_handler h s) = soc_trace s @ handler_call h"
  by (simp add: call_handler_def handler_call_def)

lemma handlers_call [simp]: "pinInterruptHandlers (call_handler h s) = pinInterruptHandlers s"
  by (simp add: call_handler_def)

lemma and_BIT_eq_0: "v AND BIT n \<noteq> 0 \<longleftrightarrow> n < 32 \<and> bit v n"
proof
  assume ne: "v AND BIT n \<noteq> 0"
  show "n < 32 \<and> bit v n"
  proof (rule ccontr)
    assume "\<not> (n < 32 \<and> bit v n)"
    then have "v AND BIT n = 0"
      by (intro bit_word_eqI) (auto simp: bit_and_iff bits)
    with ne show False by simp
  qed
next
  assume "n < 32 \<and> bit v n"
  then have "bit (v AND BIT n) n"
    by (simp add: bit_and_iff bits)
  then show "v AND BIT n \<noteq> 0"
    by (metis bit_0_eq bot_apply bot_bool_def)
qed

lemma dispatch_pins:
  assumes "\<forall>p \<in> set ps. base \<le> p \<and> p < base + 32"
  shows "soc_trace (fold (dispatch_pin v base) ps s) = soc_trace s @
      concat (map (\<lambda>p. handler_call (pinInterruptHandlers s ! p))
        (filter (\<lambda>p. bit v (p - base)) ps))
    \<and> pinInterruptHandlers (fold (dispatch_pin v base) ps s) = pinInterruptHandlers s"
  using assms
proof (induction ps arbitrary: s)
  case (Cons p ps)
  have "p - base < 32"
    using Cons.prems by auto
  with Cons show ?case
    by (auto simp: dispatch_pin_def and_BIT_eq_0 trace_call_handler)
qed simp

section \<open>Sessions of interrupt operations\<close>

datatype gpio_op =
    Attach ptr bool nat ptr ptr u32 bool
  | Detach nat
  | PinIrq

fun gpio_step :: "gpio_op \<Rightarrow> gpio_soc \<Rightarrow> gpio_soc option" where
  "gpio_step (Attach ih cpu pin fn arg ty functional) s =
     attachInterruptFunctionalArg ih cpu pin fn arg ty functional s"
| "gpio_step (Detach pin) s = detachInterrupt pin s"
| "gpio_step PinIrq s = Some (onPinInterrupt s)"

inductive gpio_run :: "gpio_op list \<Rightarrow> gpio_soc \<Rightarrow> bool" where
  boot: "soc_trace s = [] \<Longrightarrow> gpio_run [] (gpio_boot s)"
| step: "gpio_run ops s \<Longrightarrow> gpio_step op s = Some s' \<Longrightarrow> gpio_run (ops @ [op]) s'"

fun gives :: "ptr \<Rightarrow> gpio_op \<Rightarrow> bool" where
  "gives a (Attach ih cpu pin fn arg ty functional) \<longleftrightarrow> functional \<and> arg = a"
| "gives a _ \<longleftrightarrow> False"

definition owns :: "ptr \<Rightarrow> InterruptHandle_t \<Rightarrow> bool" where
  "owns a h \<longleftrightarrow> ih_functional h \<and> ih_arg h = a"

definition owned :: "ptr \<Rightarrow> gpio_soc \<Rightarrow> nat" where
  "owned a s = length (filter (owns a) (pinInterruptHandlers s))"

definition released :: "ptr \<Rightarrow> 'a soc_scheme \<Rightarrow> nat" where
  "released a s = length (filter ((=) (Ext (CleanupFunctional a))) (soc_trace s))"

lemma length_filter_update:
  "i < length xs \<Longrightarrow>
     length (filter P (xs[i := x])) + of_bool (P (xs ! i)) = length (filter P xs) + of_bool (P x)"
proof (induction xs arbitrary: i)
  case (Cons y ys)
  then show ?case
    by (cases i) auto
qed simp

lemma released_simps [simp]:
  "released a (wr r v s) = released a s"
  "released a (setf r f v s) = released a s"
  "released a (ext c s) = released a s + of_bool (c = CleanupFunctional a)"
  by (simp_all add: released_def)

lemma released_cleanup:
  "released a (cleanup_handler pin s) =
     released a s + of_bool (a \<noteq> NULL \<and> owns a (pinInterruptHandlers s ! pin))"
  by (auto simp: cleanup_handler_def Let_def owns_def)

lemma released_update [simp]:
  "released a (s\<lparr>pinInterruptHandlers := hs\<rparr>) = released a s"
  by (simp add: released_def)

lemma released_init [simp]:
  "released a (s\<lparr>interrupt_initialized := b, gpio_intr_handle := h\<rparr>) = released a s"
  by (simp add: released_def)

lemma handlers_ok_step:
  assumes "handlers_ok s" and "gpio_step op s = Some s'"
  shows "handlers_ok s'"
proof (cases op)
  case (Attach ih cpu pin fn arg ty functional)
  with assms show ?thesis
    by (auto simp: attachInterruptFunctionalArg_def handlers_ok_def Let_def split: if_splits)
next
  case (Detach pin)
  with assms show ?thesis
    by (auto simp: detachInterrupt_def handlers_ok_def Let_def split: if_splits)
next
  case PinIrq
  have "pinInterruptHandlers (fold (dispatch_pin v b) ps t) = pinInterruptHandlers t" for v b ps t
    by (induction ps arbitrary: t) (simp_all add: dispatch_pin_def)
  with PinIrq assms show ?thesis
    by (auto simp: onPinInterrupt_def handlers_ok_def Let_def)
qed

text \<open>Detaching clears the function and the argument but not the \<open>functional\<close> flag.\<close>

lemma detach_keeps_functional:
  "detachInterrupt pin s = Some s' \<Longrightarrow> pin < length (pinInterruptHandlers s) \<Longrightarrow>
     pinInterruptHandlers s' ! pin = (pinInterruptHandlers s ! pin)\<lparr>ih_fn := NULL, ih_arg := NULL\<rparr>"
  by (auto simp: detachInterrupt_def Let_def split: if_splits)

text \<open>One operation moves an argument between given, installed and released.\<close>

lemma ownership_step:
  assumes "handlers_ok s" and "gpio_step op s = Some s'" and "a \<noteq> NULL"
  shows "released a s' + owned a s' = released a s + owned a s + of_bool (gives a op)"
proof (cases op)
  case (Attach ih cpu pin fn arg ty functional)
  with assms have pin: "pin < length (pinInterruptHandlers s)"
    by (auto simp: attachInterruptFunctionalArg_def handlers_ok_def split: if_splits)
  define h where "h = \<lparr>ih_fn = fn, ih_arg = arg, ih_functional = functional\<rparr>"
  have hs: "pinInterruptHandlers s' = (pinInterruptHandlers s)[pin := h]"
    using assms Attach
    by (auto simp: attachInterruptFunctionalArg_def Let_def h_def split: if_splits)
  have "released a s' = released a s + of_bool (owns a (pinInterruptHandlers s ! pin))"
    using assms Attach
    by (auto simp: attachInterruptFunctionalArg_def Let_def released_cleanup split: if_splits)
  moreover have "owns a h \<longleftrightarrow> gives a op"
    by (simp add: owns_def h_def Attach)
  ultimately show ?thesis
    using length_filter_update [OF pin, of "owns a" h] by (simp add: owned_def hs)
next
  case (Detach pin)
  with assms have pin: "pin < length (pinInterruptHandlers s)"
    by (auto simp: detachInterrupt_def handlers_ok_def split: if_splits)
  define h where "h = (pinInterruptHandlers s ! pin)\<lparr>ih_fn := NULL, ih_arg := NULL\<rparr>"
  have hs: "pinInterruptHandlers s' = (pinInterruptHandlers s)[pin := h]"
    using assms Detach by (auto simp: detachInterrupt_def Let_def h_def split: if_splits)
  have "released a s' = released a s + of_bool (owns a (pinInterruptHandlers s ! pin))"
    using assms Detach
    by (auto simp: detachInterrupt_def Let_def released_cleanup split: if_splits)
  moreover have "\<not> owns a h" and "\<not> gives a op"
    using assms(3) by (simp_all add: owns_def h_def Detach)
  ultimately show ?thesis
    using length_filter_update [OF pin, of "owns a" h] by (simp add: owned_def hs)
next
  case PinIrq
  have calls: "filter ((=) (Ext (CleanupFunctional a)))
      (concat (map (\<lambda>p. handler_call (f p)) ps)) = []" for f ps
    by (induction ps) (simp_all add: handler_call_def)
  have tr: "released a (fold (dispatch_pin v b) ps t) = released a t" for v b ps t
    by (induction ps arbitrary: t) (simp_all add: dispatch_pin_def call_handler_def)
  have hs: "pinInterruptHandlers (fold (dispatch_pin v b) ps t) = pinInterruptHandlers t" for v b ps t
    by (induction ps arbitrary: t) (simp_all add: dispatch_pin_def)
  from PinIrq assms show ?thesis
    by (auto simp: onPinInterrupt_def Let_def owned_def tr hs)
qed

lemma gpio_run_inv:
  assumes "gpio_run ops s" and "a \<noteq> NULL"
  shows "handlers_ok s \<and> released a s + owned a s = length (filter (gives a) ops)"
  using assms
proof (induction rule: gpio_run.induct)
  case (boot s)
  then show ?case
    by (simp add: handlers_ok_def gpio_boot_def released_def owned_def owns_def soc.defs)
next
  case (step ops s op s')
  then show ?case
    using handlers_ok_step [of s op s'] ownership_step [of s op s' a] by simp
qed

lemma out_level_digitalWrite:
  "out_level (digitalWrite pin v s) =
     (if pin < 34 then (out_level s)(pin := v \<noteq> 0) else out_level s)"
proof (rule ext)
  fix q
  show "out_level (digitalWrite pin v s) q =
     (if pin < 34 then (out_level s)(pin := v \<noteq> 0) else out_level s) q"
    using set_pins_BIT [of 0 pin _ _ q] set_pins_BIT [of 32 pin _ _ q]
    by (auto simp: digitalWrite_def out_step_def)
qed

section \<open>What configuring a pin leaves alone\<close>

lemma more_pinMode [simp]: "soc.more (pinMode desc pin mode s) = soc.more s"
  by (simp add: pinMode_def pinMode_rtc_pull_def pinMode_analog_def Let_def)

lemma held_pinMode [simp]: "held l (pinMode desc pin mode s) = held l s"
  by (simp add: pinMode_def pinMode_rtc_pull_def pinMode_analog_def Let_def)

lemma rd_pinMode:
  assumes "\<And>a. r \<noteq> Mem a" and "\<And>g. r \<noteq> Gpio g"
  shows "rd r (pinMode desc pin mode s) = rd r s"
  using assms
  by (auto simp: pinMode_def pinMode_rtc_pull_def pinMode_analog_def Let_def pin_mux_reg_def
      RTC_GPIO_ENABLE_W1TC_REG_def)

lemma pinMatrix_frame [simp]:
  "soc.more (pinMatrixOutAttach p f i e s) = soc.more s" "held l (pinMatrixOutAttach p f i e s) = held l s"
  "rd r (pinMatrixOutAttach p f i e s) = rd r s"
  "soc.more (pinMatrixOutDetach p i e s) = soc.more s" "held l (pinMatrixOutDetach p i e s) = held l s"
  "rd r (pinMatrixOutDetach p i e s) = rd r s"
  "soc.more (pinMatrixInAttach p f i s) = soc.more s" "held l (pinMatrixInAttach p f i s) = held l s"
  "rd r (pinMatrixInAttach p f i s) = rd r s"
  "soc.more (pinMatrixInDetach f h i s) = soc.more s" "held l (pinMatrixInDetach f h i s) = held l s"
  "rd r (pinMatrixInDetach f h i s) = rd r s"
  by (simp_all add: pinMatrixOutAttach_def pinMatrixOutDetach_def pinMatrixInAttach_def
      pinMatrixInDetach_def held_ext)

section \<open>The output port as an interface\<close>

text \<open>
  What a client of the output pins relies on: writing a pin changes the level of that pin only, and
  only if the port drives it. The bit-banged protocols are proved against this interface.
\<close>

locale output_port =
  fixes put :: "nat \<Rightarrow> u8 \<Rightarrow> 's \<Rightarrow> 's"
    and level :: "'s \<Rightarrow> nat \<Rightarrow> bool"
    and drives :: "nat \<Rightarrow> bool"
  assumes level_put:
    "level (put p v s) = (if drives p then (level s)(p := v \<noteq> 0) else level s)"
begin

lemma level_same: "drives p \<Longrightarrow> level (put p v s) p \<longleftrightarrow> v \<noteq> 0"
  by (simp add: level_put)

lemma level_other: "p \<noteq> q \<Longrightarrow> level (put p v s) q = level s q"
  by (simp add: level_put)

lemma level_puts_other:
  "q \<notin> set (map fst pvs) \<Longrightarrow> level (fold (\<lambda>(p, v). put p v) pvs s) q = level s q"
  by (induction pvs arbitrary: s) (auto simp: level_other)

text \<open>One bit of a synchronous serial line: set the data pin, then pulse the clock.\<close>

definition clock_bit :: "nat \<Rightarrow> nat \<Rightarrow> u8 \<Rightarrow> 's \<Rightarrow> 's" where
  "clock_bit d c v s = put c 0 (put c 1 (put d v s))"

lemma clock_bit_levels:
  assumes "d \<noteq> c" and "drives d" and "drives c"
  shows "level (put d v s) c = level s c"
    and "level (put c 1 (put d v s)) c"
    and "level (put c 1 (put d v s)) d \<longleftrightarrow> v \<noteq> 0"
    and "\<not> level (clock_bit d c v s) c"
    and "level (clock_bit d c v s) d \<longleftrightarrow> v \<noteq> 0"
  using assms by (simp_all add: level_put clock_bit_def)

end

interpretation pins: output_port digitalWrite out_level "\<lambda>p. p < 34"
  by unfold_locales (rule out_level_digitalWrite)

section \<open>Properties\<close>

text \<open>
  C26: \<open>digitalWrite\<close> drives exactly its pin: the level of a pin below 34 becomes the truth value of
  the argument, every other level is untouched, and for the input-only pins nothing happens.
\<close>

theorem digitalWrite_level:
  "out_level (digitalWrite pin v s) q =
     (if q = pin \<and> pin < 34 then v \<noteq> 0 else out_level s q)"
  by (simp add: out_level_digitalWrite)

text \<open>
  C27: \<open>pinMode\<close> enables the output driver of a pin exactly when the pin exists, is one of the pins
  0 to 33, and the mode has OUTPUT and not INPUT; INPUT disables it; it never touches another pin's
  driver, and the input-only pins are never driven.
\<close>

theorem pinMode_drives:
  "out_enabled (pinMode desc pin mode s) =
     (if digitalPinIsValid pin \<and> mode \<noteq> ANALOG \<and> mode AND INPUT \<noteq> 0
      then (out_enabled s)(pin := False)
      else if digitalPinIsValid pin \<and> mode \<noteq> ANALOG \<and> mode AND OUTPUT \<noteq> 0 \<and> pin \<le> 33
      then (out_enabled s)(pin := True)
      else out_enabled s)"
proof (rule ext)
  fix q
  have mem: "enable_step (Wr (Mem a) v) l = l" for a v l
    by (simp add: enable_step_def)
  have pull: "out_enabled (pinMode_rtc_pull d mode s) = out_enabled s" for d
    by (simp add: pinMode_rtc_pull_def Let_def mem)
  have analog: "out_enabled (pinMode_analog d pin s) = out_enabled s" for d
    by (simp add: pinMode_analog_def Let_def mem RTC_GPIO_ENABLE_W1TC_REG_def pin_mux_reg_def)
  show "out_enabled (pinMode desc pin mode s) q =
     (if digitalPinIsValid pin \<and> mode \<noteq> ANALOG \<and> mode AND INPUT \<noteq> 0
      then (out_enabled s)(pin := False)
      else if digitalPinIsValid pin \<and> mode \<noteq> ANALOG \<and> mode AND OUTPUT \<noteq> 0 \<and> pin \<le> 33
      then (out_enabled s)(pin := True)
      else out_enabled s) q"
    using set_pins_BIT [of 0 pin _ _ q] set_pins_BIT [of 32 pin _ _ q] digitalPinIsValid_less [of pin]
    by (auto simp: pinMode_def Let_def pull analog pin_mux_reg_def enable_step_def)
qed

text \<open>
  C25: the pin interrupt clears exactly the status bits it read, then calls the handlers of exactly
  the pins whose status bit is set and that have one, in pin order, each once, with its argument
  when it has one.
\<close>

theorem onPinInterrupt_dispatch:
  "soc_trace (onPinInterrupt s) = soc_trace s
     @ [Wr (Gpio status_w1tc) (rd (Gpio gpio_status) s),
        Wr (Gpio status1_w1tc) (rd (Gpio gpio_status1) s)]
     @ concat (map (\<lambda>p. handler_call (pinInterruptHandlers s ! p))
         (filter (bit (rd (Gpio gpio_status) s)) [0..<32]))
     @ concat (map (\<lambda>p. handler_call (pinInterruptHandlers s ! p))
         (filter (\<lambda>p. bit (rd (Gpio gpio_status1) s) (p - 32)) [32..<40]))"
proof -
  define l h where "l = rd (Gpio gpio_status) s" and "h = rd (Gpio gpio_status1) s"
  define s1 where "s1 = wr (Gpio status1_w1tc) h (wr (Gpio status_w1tc) l s)"
  define s2 where "s2 = (if l \<noteq> 0 then fold (dispatch_pin l 0) [0..<32] s1 else s1)"
  have s2: "soc_trace s2 = soc_trace s1 @ concat (map (\<lambda>p. handler_call (pinInterruptHandlers s ! p))
        (filter (bit l) [0..<32]))
      \<and> pinInterruptHandlers s2 = pinInterruptHandlers s"
    using dispatch_pins [of "[0..<32]" 0 l s1] by (simp add: s2_def s1_def)
  have "onPinInterrupt s =
      (if h \<noteq> 0 then fold (dispatch_pin h 32) [32..<40] s2 else s2)"
    unfolding onPinInterrupt_def Let_def l_def h_def s1_def s2_def GPIO_PIN_COUNT_def ..
  then have "soc_trace (onPinInterrupt s) = soc_trace s2
      @ concat (map (\<lambda>p. handler_call (pinInterruptHandlers s2 ! p))
         (filter (\<lambda>p. bit h (p - 32)) [32..<40]))"
    using dispatch_pins [of "[32..<40]" 32 h s2] by auto
  with s2 show ?thesis
    by (simp add: l_def [symmetric] h_def [symmetric] s1_def)
qed


lemma gpio_run_ex:
  "gpio_run [Attach 1 False 5 7 9 1 True, Detach 5]
     (the (detachInterrupt 5 (the (attachInterruptFunctionalArg 1 False 5 7 9 1 True
        (gpio_boot \<lparr>soc_regs = \<lambda>_. 0, soc_trace = []\<rparr>)))))"
proof -
  have some: "\<exists>t. attachInterruptFunctionalArg 1 False 5 7 9 1 True s = Some t"
      "\<exists>t. detachInterrupt 5 s = Some t" for s
    by (simp_all add: attachInterruptFunctionalArg_def detachInterrupt_def GPIO_PIN_COUNT_def Let_def)
  have "gpio_run [] (gpio_boot \<lparr>soc_regs = \<lambda>_. 0, soc_trace = []\<rparr>)"
    by (rule gpio_run.boot) simp
  then have "gpio_run ([] @ [Attach 1 False 5 7 9 1 True])
      (the (attachInterruptFunctionalArg 1 False 5 7 9 1 True
        (gpio_boot \<lparr>soc_regs = \<lambda>_. 0, soc_trace = []\<rparr>)))"
    by (rule gpio_run.step) (use some(1) in \<open>force\<close>)
  then have "gpio_run (([] @ [Attach 1 False 5 7 9 1 True]) @ [Detach 5])
     (the (detachInterrupt 5 (the (attachInterruptFunctionalArg 1 False 5 7 9 1 True
        (gpio_boot \<lparr>soc_regs = \<lambda>_. 0, soc_trace = []\<rparr>)))))"
    by (rule gpio_run.step) (use some(2) in \<open>force\<close>)
  then show ?thesis by simp
qed


text \<open>
  A digital mode takes an RTC pad back from the RTC multiplexer and turns on the pull resistor
  the mode asks for and only that one (pull-up wins when both are asked for), leaving the other bits
  of the pad's register alone.
\<close>

theorem pinMode_rtc_pad:
  assumes "digitalPinIsValid pin" and "mode \<noteq> ANALOG"
    and "d = desc pin" and "desc_reg d \<noteq> 0" and "Mem (desc_reg d) \<noteq> pin_mux_reg pin"
    and "desc_mux d AND (desc_pullup d OR desc_pulldown d) = 0"
    and "desc_pullup d AND desc_pulldown d = 0"
    and "v = rd (Mem (desc_reg d)) (pinMode desc pin mode s)"
  shows "v = rd (Mem (desc_reg d)) s
           AND NOT (desc_mux d OR desc_pullup d OR desc_pulldown d)
         OR (if mode AND PULLUP \<noteq> 0 then desc_pullup d
             else if mode AND PULLDOWN \<noteq> 0 then desc_pulldown d else 0)"
proof -
  have v: "v = rd (Mem (desc_reg d)) (pinMode_rtc_pull d mode s)"
    using assms(1-5,8) by (auto simp: pinMode_def Let_def)
  have disj: "\<not> (bit (desc_pullup d) n \<and> bit (desc_pulldown d) n)"
      "\<not> (bit (desc_mux d) n \<and> (bit (desc_pullup d) n \<or> bit (desc_pulldown d) n))" for n
    using assms(6,7) by (metis bit_0_eq bit_and_iff bit_or_iff bot_apply bot_bool_def)+
  show ?thesis
    unfolding v
    by (rule bit_word_eqI)
      (use assms(4) disj in \<open>auto simp: pinMode_rtc_pull_def Let_def bit_simps\<close>)
qed

theorem pinMode_rtc_pad_witness:
  "rd (Mem 0x3ff484e8) (pinMode (\<lambda>_. \<lparr>desc_reg = 0x3ff484e8, desc_mux = BIT 19, desc_func = 17,
       desc_ie = BIT 13, desc_pullup = BIT 27, desc_pulldown = BIT 28, desc_rtc_num = 4\<rparr>) 4 0x05
       \<lparr>soc_regs = \<lambda>_. 0xFFFFFFFF, soc_trace = []\<rparr>) = 0xEFF7FFFF"
  using pinMode_rtc_pad [OF _ _ refl _ _ _ _ refl, of 4 "0x05" "\<lambda>_. \<lparr>desc_reg = 0x3ff484e8,
      desc_mux = BIT 19, desc_func = 17, desc_ie = BIT 13, desc_pullup = BIT 27,
      desc_pulldown = BIT 28, desc_rtc_num = 4\<rparr>" "\<lparr>soc_regs = \<lambda>_. 0xFFFFFFFF, soc_trace = []\<rparr>"]
  by (simp add: digitalPinIsValid_def esp32_gpioMux_def ANALOG_def pin_mux_reg_def
      DR_REG_IO_MUX_BASE_def BIT_def PULLUP_def PULLDOWN_def rd_def)

end
