(* ===== verification/Wiring.thy ===== *)
theory Wiring
  imports Gpio
begin

text \<open>
  \<^verbatim>\<open>wiring_shift.c\<close> (bit-banged synchronous serial) and \<^verbatim>\<open>wiring_pulse.c\<close> (measuring a pulse).

  The levels of input pins and the cycle counter are volatile: a function \<open>env\<close> from states to
  states, a parameter, is the step the hardware makes before each such read. \<open>shiftOut\<close> is proved
  against the interface \<open>output_port\<close>; a receiver and a peer device that clock on the rising edge
  are the specification of the line.
\<close>

section \<open>wiring_shift.c\<close>

definition LSBFIRST :: u8 where "LSBFIRST = 0"
definition MSBFIRST :: u8 where "MSBFIRST = 1"
definition LOW :: u8 where "LOW = 0"
definition HIGH :: u8 where "HIGH = 1"

definition shiftIn_body ::
  "('a soc_scheme \<Rightarrow> 'a soc_scheme) \<Rightarrow> nat \<Rightarrow> nat \<Rightarrow> u8 \<Rightarrow> nat \<Rightarrow> u8 \<times> 'a soc_scheme
     \<Rightarrow> u8 \<times> 'a soc_scheme" where
  "shiftIn_body env dataPin clockPin bitOrder i = (\<lambda>(v, s).
     let s = digitalWrite clockPin HIGH s;
         s = env s;
         b = ucast (digitalRead dataPin s);
         v = (if bitOrder = LSBFIRST then v OR push_bit i b else v OR push_bit (7 - i) b)
     in (v, digitalWrite clockPin LOW s))"

definition shiftIn ::
  "('a soc_scheme \<Rightarrow> 'a soc_scheme) \<Rightarrow> nat \<Rightarrow> nat \<Rightarrow> u8 \<Rightarrow> 'a soc_scheme \<Rightarrow> u8 \<times> 'a soc_scheme"
  where
  "shiftIn env dataPin clockPin bitOrder s =
     fold (shiftIn_body env dataPin clockPin bitOrder) [0..<8] (0, s)"

definition shiftOut_body ::
  "nat \<Rightarrow> nat \<Rightarrow> u8 \<Rightarrow> u8 \<Rightarrow> nat \<Rightarrow> 'a soc_scheme \<Rightarrow> 'a soc_scheme" where
  "shiftOut_body dataPin clockPin bitOrder val i s =
     (let s = (if bitOrder = LSBFIRST
               then digitalWrite dataPin (of_bool (val AND push_bit i 1 \<noteq> 0)) s
               else digitalWrite dataPin (of_bool (val AND push_bit (7 - i) 1 \<noteq> 0)) s);
          s = digitalWrite clockPin HIGH s
      in digitalWrite clockPin LOW s)"

definition shiftOut :: "nat \<Rightarrow> nat \<Rightarrow> u8 \<Rightarrow> u8 \<Rightarrow> 'a soc_scheme \<Rightarrow> 'a soc_scheme" where
  "shiftOut dataPin clockPin bitOrder val s =
     fold (shiftOut_body dataPin clockPin bitOrder val) [0..<8] s"

section \<open>wiring_pulse.c\<close>

text \<open>\<^verbatim>\<open>F_CPU\<close> is 240 MHz.\<close>

definition clockCyclesPerMicrosecond :: u32 where
  "clockCyclesPerMicrosecond = 240"

definition clockCyclesToMicroseconds :: "u32 \<Rightarrow> u32" where
  "clockCyclesToMicroseconds a = a div clockCyclesPerMicrosecond"

definition microsecondsToClockCycles :: "u32 \<Rightarrow> u32" where
  "microsecondsToClockCycles a = a * clockCyclesPerMicrosecond"

text \<open>\<^verbatim>\<open>WAIT_FOR_PIN_STATE\<close>: \<open>True\<close> when the pin has the state, \<open>False\<close> for the timeout.\<close>

partial_function (option) wait_for_pin_state ::
  "('s \<Rightarrow> 's) \<Rightarrow> ('s \<Rightarrow> u32) \<Rightarrow> ('s \<Rightarrow> u32) \<Rightarrow> u32 \<Rightarrow> u32 \<Rightarrow> u32 \<Rightarrow> 's \<Rightarrow> (bool \<times> 's) option" where
  "wait_for_pin_state env ccount pin st start timeout_cycles s =
     (let s = env s in
      if pin s = st then Some (True, s)
      else
        let s = env s in
        if timeout_cycles < ccount s - start then Some (False, s)
        else wait_for_pin_state env ccount pin st start timeout_cycles s)"

definition pulse_timeout :: "u32 \<Rightarrow> u32" where
  "pulse_timeout timeout =
     (let max_timeout_us = clockCyclesToMicroseconds (- 1)
      in microsecondsToClockCycles (if max_timeout_us < timeout then max_timeout_us else timeout))"

definition pulseIn ::
  "('a soc_scheme \<Rightarrow> 'a soc_scheme) \<Rightarrow> ('a soc_scheme \<Rightarrow> u32) \<Rightarrow> nat \<Rightarrow> u8 \<Rightarrow> u32 \<Rightarrow> 'a soc_scheme
     \<Rightarrow> (u32 \<times> 'a soc_scheme) option" where
  "pulseIn env ccount pin state timeout s =
     (let timeout_cycles = pulse_timeout timeout;
          s = env s;
          start = ccount s;
          wait = wait_for_pin_state env ccount (digitalRead pin)
      in
      case wait (of_bool (state = 0)) start timeout_cycles s of
        None \<Rightarrow> None
      | Some (False, s) \<Rightarrow> Some (0, s)
      | Some (True, s) \<Rightarrow>
          (case wait (ucast state) start timeout_cycles s of
             None \<Rightarrow> None
           | Some (False, s) \<Rightarrow> Some (0, s)
           | Some (True, s) \<Rightarrow>
               (let s = env s; pulse_start = ccount s in
                case wait (of_bool (state = 0)) start timeout_cycles s of
                  None \<Rightarrow> None
                | Some (False, s) \<Rightarrow> Some (0, s)
                | Some (True, s) \<Rightarrow>
                    (let s = env s
                     in Some (clockCyclesToMicroseconds (ccount s - pulse_start), s)))))"

definition pulseInLong ::
  "('a soc_scheme \<Rightarrow> 'a soc_scheme) \<Rightarrow> ('a soc_scheme \<Rightarrow> u32) \<Rightarrow> nat \<Rightarrow> u8 \<Rightarrow> u32 \<Rightarrow> 'a soc_scheme
     \<Rightarrow> (u32 \<times> 'a soc_scheme) option" where
  "pulseInLong env ccount pin state timeout s = pulseIn env ccount pin state timeout s"

section \<open>The serial line\<close>

text \<open>A receiver samples the data pin at every rising edge of the clock pin.\<close>

definition rx_step :: "nat \<Rightarrow> nat \<Rightarrow> event \<Rightarrow> (nat \<Rightarrow> bool) \<times> bool list \<Rightarrow> (nat \<Rightarrow> bool) \<times> bool list"
  where
  "rx_step d c e = (\<lambda>(l, bs).
     let l' = out_step e l in (l', if \<not> l c \<and> l' c then bs @ [l' d] else bs))"

definition received :: "nat \<Rightarrow> nat \<Rightarrow> 'a soc_scheme \<Rightarrow> bool list" where
  "received d c s = snd (fold (rx_step d c) (soc_trace s) (\<lambda>_. False, []))"

definition order_bits :: "u8 \<Rightarrow> u8 \<Rightarrow> bool list" where
  "order_bits bitOrder v =
     map (\<lambda>i. bit v (if bitOrder = LSBFIRST then i else 7 - i)) [0..<8]"

lemma rx_levels: "fst (fold (rx_step d c) es (l, bs)) = fold out_step es l"
  by (induction es arbitrary: l bs) (simp_all add: rx_step_def Let_def split_def)

lemma received_wr:
  "received d c (wr r v s) =
     (if \<not> out_level s c \<and> out_level (wr r v s) c
      then received d c s @ [out_level (wr r v s) d] else received d c s)"
proof -
  have lev: "fst (fold (rx_step d c) (soc_trace s) (\<lambda>_. False, [])) = out_level s"
    by (simp add: rx_levels out_level_def)
  show ?thesis
    using lev by (cases "fold (rx_step d c) (soc_trace s) (\<lambda>_. False, [])")
      (simp add: received_def rx_step_def Let_def)
qed

lemma received_digitalWrite:
  "received d c (digitalWrite p v s) =
     (if \<not> out_level s c \<and> out_level (digitalWrite p v s) c
      then received d c s @ [out_level (digitalWrite p v s) d] else received d c s)"
  unfolding digitalWrite_def by (simp only: received_wr split: if_splits) simp

text \<open>A peer device that has a byte ready presents its next bit after each rising edge.\<close>

record peer_soc = soc +
  peer_bits :: "bool list"

definition set_pin_in :: "nat \<Rightarrow> bool \<Rightarrow> 'a soc_scheme \<Rightarrow> 'a soc_scheme" where
  "set_pin_in pin b s =
     (if pin < 32
      then s\<lparr>soc_regs := (soc_regs s)(Gpio gpio_in := bf_put (pin, 1) (of_flag b) (rd (Gpio gpio_in) s))\<rparr>
      else s\<lparr>soc_regs := (soc_regs s)(Gpio gpio_in1 := bf_put (pin - 32, 1) (of_flag b) (rd (Gpio gpio_in1) s))\<rparr>)"

definition present :: "nat \<Rightarrow> peer_soc \<Rightarrow> peer_soc" where
  "present d s =
     (case peer_bits s of [] \<Rightarrow> s | b # bs \<Rightarrow> (set_pin_in d b s)\<lparr>peer_bits := bs\<rparr>)"

lemma digitalRead_bit:
  "digitalRead pin s = of_flag (if pin < 32 then bit (rd (Gpio gpio_in) s) pin
     else pin < 40 \<and> bit (rd (Gpio gpio_in1) s) (pin - 32))"
proof -
  have one: "w AND 1 = of_flag (bit w 0)" for w :: u32
    by (rule bit_word_eqI) (auto simp: of_flag_def bit_and_iff bit_1_iff intro!: gr0I)
  show ?thesis
    by (auto simp: digitalRead_def one bit_drop_bit_eq)
qed

lemma digitalRead_set_pin_in: "pin < 40 \<Longrightarrow> digitalRead pin (set_pin_in pin b s) = of_flag b"
  by (auto simp: digitalRead_bit set_pin_in_def rd_def bits of_flag_def)

lemma digitalRead_bits [simp]: "digitalRead pin (s\<lparr>peer_bits := bs\<rparr>) = digitalRead pin s"
  by (simp add: digitalRead_def rd_def)

lemma peer_bits_digitalWrite [simp]: "peer_bits (digitalWrite p v s) = peer_bits s"
  by (simp add: digitalWrite_def wr_def)

lemma and_push_bit_1: "(v :: u8) AND push_bit k 1 \<noteq> 0 \<longleftrightarrow> bit v k"
proof
  assume "bit v k"
  then have "bit (v AND push_bit k 1) k"
    by (auto simp: bit_simps dest: bit_imp_le_length)
  then show "v AND push_bit k 1 \<noteq> 0"
    by (metis bit_0_eq bot_apply bot_bool_def)
next
  assume ne: "v AND push_bit k 1 \<noteq> 0"
  show "bit v k"
  proof (rule ccontr)
    assume "\<not> bit v k"
    then have "v AND push_bit k 1 = 0"
      by (intro bit_word_eqI) (auto simp: bit_simps)
    with ne show False by simp
  qed
qed

lemma shiftOut_body_clock:
  "shiftOut_body d c bitOrder v i =
     pins.clock_bit d c (of_bool (bit v (if bitOrder = LSBFIRST then i else 7 - i)))"
  unfolding shiftOut_body_def pins.clock_bit_def and_push_bit_1 HIGH_def LOW_def Let_def
  by (cases "bitOrder = LSBFIRST") (simp_all only: if_True if_False simp_thms)

lemma received_clock_bit:
  assumes "d \<noteq> c" and "d < 34" and "c < 34" and "\<not> out_level s c"
  shows "received d c (pins.clock_bit d c v s) = received d c s @ [v \<noteq> 0]"
  using assms pins.clock_bit_levels [of d c v s]
  by (simp add: pins.clock_bit_def received_digitalWrite)

lemma received_clock_bits:
  assumes "d \<noteq> c" and "d < 34" and "c < 34" and "\<not> out_level s c"
  shows "received d c (fold (\<lambda>b. pins.clock_bit d c (of_bool b)) bs s) = received d c s @ bs
    \<and> \<not> out_level (fold (\<lambda>b. pins.clock_bit d c (of_bool b)) bs s) c"
  using assms(4)
proof (induction bs arbitrary: s)
  case (Cons b bs)
  then show ?case
    using pins.clock_bit_levels(4) [of d c "of_bool b" s] assms(1-3)
    by (simp add: received_clock_bit)
qed simp

lemma shiftOut_bits:
  "shiftOut d c bitOrder v s = fold (\<lambda>b. pins.clock_bit d c (of_bool b)) (order_bits bitOrder v) s"
  unfolding shiftOut_def order_bits_def fold_map o_def shiftOut_body_clock ..

lemma ucast_of_flag: "(ucast (of_flag b :: u32) :: u8) = of_bool b"
  by (simp add: of_flag_def)

lemma bit_push_of_bool: "bit (push_bit i (of_bool b) :: u8) n \<longleftrightarrow> n = i \<and> n < 8 \<and> b"
  by (auto simp: bit_push_bit_iff bit_1_iff)

text \<open>After \<open>k\<close> clocks \<open>shiftIn\<close> has the first \<open>k\<close> bits in place.\<close>

definition shifted_in :: "u8 \<Rightarrow> u8 \<Rightarrow> bool list \<Rightarrow> nat \<Rightarrow> u8 \<times> peer_soc \<Rightarrow> bool" where
  "shifted_in bitOrder b rest k = (\<lambda>(v, s).
     (\<forall>n. bit v n \<longleftrightarrow> (if bitOrder = LSBFIRST then n < k else 8 \<le> n + k) \<and> bit b n) \<and>
     peer_bits s = map (\<lambda>i. bit b (if bitOrder = LSBFIRST then i else 7 - i)) [k..<8] @ rest)"

lemma shifted_in_step:
  assumes "shifted_in bitOrder b rest k vs" and "k < 8" and "d < 40"
  shows "shifted_in bitOrder b rest (Suc k) (shiftIn_body (present d) d c bitOrder k vs)"
proof -
  obtain v s where vs: "vs = (v, s)" by (cases vs)
  define pos where "pos = (if bitOrder = LSBFIRST then k else 7 - k)"
  define s1 where "s1 = digitalWrite c HIGH s"
  have bits: "peer_bits s1 = bit b pos #
      map (\<lambda>i. bit b (if bitOrder = LSBFIRST then i else 7 - i)) [Suc k..<8] @ rest"
    using assms(1,2) by (simp add: s1_def vs shifted_in_def pos_def upt_conv_Cons)
  then have read: "digitalRead d (present d s1) = of_flag (bit b pos)"
    using assms(3) by (simp add: present_def digitalRead_set_pin_in)
  have "shiftIn_body (present d) d c bitOrder k vs =
      (v OR push_bit pos (of_bool (bit b pos)), digitalWrite c LOW (present d s1))"
    by (simp only: shiftIn_body_def vs prod.case Let_def s1_def [symmetric] read ucast_of_flag pos_def
        split: if_splits) simp
  moreover have "bit (v OR push_bit pos (of_bool (bit b pos))) n \<longleftrightarrow>
      (if bitOrder = LSBFIRST then n < Suc k else 8 \<le> n + Suc k) \<and> bit b n" for n
  proof -
    have v: "bit v n \<longleftrightarrow> (if bitOrder = LSBFIRST then n < k else 8 \<le> n + k) \<and> bit b n"
      using assms(1) by (simp add: vs shifted_in_def)
    have b: "bit b n \<Longrightarrow> n < 8"
      using bit_imp_le_length [of b n] by simp
    show ?thesis
      unfolding bit_or_iff bit_push_of_bool v pos_def
      using assms(2) b
      by (cases "bitOrder = LSBFIRST"; cases "n = pos"; cases "bit b n") (auto simp: pos_def)
  qed
  ultimately show ?thesis
    by (simp add: shifted_in_def bits present_def)
qed

lemma shiftIn_bits:
  assumes "peer_bits s = order_bits bitOrder b @ rest" and "d < 40"
  shows "fst (shiftIn (present d) d c bitOrder s) = b
    \<and> peer_bits (snd (shiftIn (present d) d c bitOrder s)) = rest"
proof -
  have "shifted_in bitOrder b rest 0 (0, s)"
    using assms(1) by (auto simp: shifted_in_def order_bits_def dest: bit_imp_le_length)
  then have "shifted_in bitOrder b rest 8 (shiftIn (present d) d c bitOrder s)"
    unfolding shiftIn_def
    by (rule fold_upt_inv [where n = 8]) (rule shifted_in_step, assumption+, rule assms(2))
  then have bits: "bit (fst (shiftIn (present d) d c bitOrder s)) n \<longleftrightarrow>
      (if bitOrder = LSBFIRST then n < 8 else 8 \<le> n + 8) \<and> bit b n"
    and rest: "peer_bits (snd (shiftIn (present d) d c bitOrder s)) = rest" for n
    unfolding shifted_in_def split_def by simp_all
  have "fst (shiftIn (present d) d c bitOrder s) = b"
    by (rule bit_word_eqI) (simp add: bits)
  with rest show ?thesis
    by simp
qed

section \<open>The timeout of pulseIn\<close>

text \<open>
  \<open>paced\<close>: every hardware step advances the cycle counter by at least one cycle and at most \<open>\<delta>\<close>.
\<close>

definition paced :: "('s \<Rightarrow> 's) \<Rightarrow> ('s \<Rightarrow> u32) \<Rightarrow> nat \<Rightarrow> bool" where
  "paced env ccount \<delta> \<longleftrightarrow>
     (\<forall>s. 0 < unat (ccount (env s) - ccount s) \<and> unat (ccount (env s) - ccount s) \<le> \<delta>)"

lemma unat_pulse_timeout: "unat (pulse_timeout timeout) = 240 * min (unat timeout) 17895697"
proof -
  have max: "clockCyclesToMicroseconds (- 1) = 17895697"
    by (simp add: clockCyclesToMicroseconds_def clockCyclesPerMicrosecond_def)
  define m where "m = (if 17895697 < timeout then 17895697 else timeout)"
  have m: "unat m = min (unat timeout) 17895697"
    by (simp add: m_def word_less_nat_alt min_def)
  have "unat (m * 240) = unat m * 240"
    using m by (subst unat_mult_lem [THEN iffD1]) simp_all
  then show ?thesis
    by (simp add: pulse_timeout_def Let_def max m_def [symmetric] m
        microsecondsToClockCycles_def clockCyclesPerMicrosecond_def)
qed

lemma elapsed_env:
  assumes "paced env ccount \<delta>" and "unat (ccount s - start) + \<delta> < 2 ^ 32"
  shows "unat (ccount s - start) < unat (ccount (env s) - start)
    \<and> unat (ccount (env s) - start) \<le> unat (ccount s - start) + \<delta>"
proof -
  define a where "a = ccount s - start"
  define d where "d = ccount (env s) - ccount s"
  have sum: "ccount (env s) - start = a + d"
    by (simp add: a_def d_def)
  have d: "0 < unat d" "unat d \<le> \<delta>"
    using assms(1) by (auto simp: paced_def d_def)
  have "unat (a + d) = unat a + unat d"
    using assms(2) d(2) by (subst unat_add_lem [THEN iffD1]) (simp_all add: a_def)
  with d show ?thesis
    by (simp add: sum a_def [symmetric])
qed

text \<open>
  The loop ends: either the pin gets the state, within \<open>3 * \<delta>\<close> cycles of the last check, or the
  elapsed time, which grows and cannot wrap before it is checked, passes the timeout.
\<close>

lemma wait_for_pin_state_returns:
  assumes paced: "paced env ccount \<delta>" and "unat tmo + k * \<delta> + 2 * \<delta> < 2 ^ 32"
    and "unat (ccount s - start) \<le> unat tmo + k * \<delta>"
  shows "\<exists>b t. wait_for_pin_state env ccount pin st start tmo s = Some (b, t)
    \<and> (b \<longrightarrow> pin t = st \<and> t \<in> range env \<and> unat (ccount t - start) \<le> unat tmo + (k + 1) * \<delta>)"
  using assms(3)
proof (induction "2 ^ 32 - unat (ccount s - start)" arbitrary: s rule: less_induct)
  case (less s)
  define s1 where "s1 = env s"
  define s2 where "s2 = env s1"
  have e1: "unat (ccount s - start) < unat (ccount s1 - start)"
      "unat (ccount s1 - start) \<le> unat (ccount s - start) + \<delta>"
    using elapsed_env [OF paced, of s start] less.prems assms(2) by (auto simp: s1_def)
  have e2: "unat (ccount s1 - start) < unat (ccount s2 - start)"
    using elapsed_env [OF paced, of s1 start] less.prems assms(2) e1 by (auto simp: s2_def)
  show ?case
  proof (cases "pin s1 = st")
    case True
    then have "wait_for_pin_state env ccount pin st start tmo s = Some (True, s1)"
      by (subst wait_for_pin_state.simps) (simp add: Let_def s1_def)
    with True e1 less.prems show ?thesis
      by (intro exI [of _ True] exI [of _ s1]) (simp add: add_mult_distrib s1_def)
  next
    case pin: False
    show ?thesis
    proof (cases "tmo < ccount s2 - start")
      case True
      with pin have "wait_for_pin_state env ccount pin st start tmo s = Some (False, s2)"
        by (subst wait_for_pin_state.simps) (simp add: Let_def s1_def s2_def)
      then show ?thesis
        by blast
    next
      case False
      with pin have eq: "wait_for_pin_state env ccount pin st start tmo s =
          wait_for_pin_state env ccount pin st start tmo s2"
        by (subst wait_for_pin_state.simps) (simp add: Let_def s1_def s2_def)
      have "unat (ccount s2 - start) \<le> unat tmo"
        using False by (simp add: word_less_nat_alt)
      moreover have "unat (ccount s2 - start) < 2 ^ 32"
        using unsigned_less [of "ccount s2 - start"] by simp
      ultimately show ?thesis
        unfolding eq using e1 e2 by (intro less.hyps) auto
    qed
  qed
qed

section \<open>Properties\<close>

text \<open>
  C23: a receiver that samples the data pin on the rising edges of the clock pin gets exactly the eight
  bits of the byte from \<open>shiftOut\<close>, in the order asked for, and the clock is left low, ready for the
  next byte.
\<close>

theorem shiftOut_transmits:
  assumes "d \<noteq> c" and "d < 34" and "c < 34" and "\<not> out_level s c"
  shows "received d c (shiftOut d c bitOrder v s) = received d c s @ order_bits bitOrder v
    \<and> \<not> out_level (shiftOut d c bitOrder v s) c"
  unfolding shiftOut_bits using assms by (rule received_clock_bits)

theorem shiftOut_transmits_witness:
  "received 4 5 (shiftOut 4 5 MSBFIRST 0xA1 \<lparr>soc_regs = \<lambda>_. 0, soc_trace = []\<rparr>) =
     [True, False, True, False, False, False, False, True]"
proof -
  have "\<not> out_level \<lparr>soc_regs = \<lambda>_. 0, soc_trace = []\<rparr> 5"
    by (simp add: out_level_def)
  moreover have "received 4 5 \<lparr>soc_regs = \<lambda>_. 0, soc_trace = []\<rparr> = []"
    by (simp add: received_def)
  moreover have "order_bits MSBFIRST 0xA1 = [True, False, True, False, False, False, False, True]"
    by (simp add: order_bits_def MSBFIRST_def LSBFIRST_def upt_rec)
  ultimately show ?thesis
    using shiftOut_transmits [of 4 5 "\<lparr>soc_regs = \<lambda>_. 0, soc_trace = []\<rparr>" MSBFIRST "0xA1"] by simp
qed

text \<open>
  \<open>shiftIn\<close> inverts \<open>shiftOut\<close>: reading from a peer that presents, one per clock, the bits a
  receiver got from \<open>shiftOut\<close> with the same bit order returns the byte, and takes exactly eight
  bits from the peer.
\<close>

theorem shift_roundtrip:
  assumes "d \<noteq> c" and "d < 34" and "c < 34" and "\<not> out_level s c" and "d' < 40"
    and "received d c (shiftOut d c bitOrder v s) = received d c s @ bs"
    and "peer_bits t = bs @ rest"
  shows "fst (shiftIn (present d') d' c' bitOrder t) = v
    \<and> peer_bits (snd (shiftIn (present d') d' c' bitOrder t)) = rest"
proof -
  have "bs = order_bits bitOrder v"
    using received_clock_bits [OF assms(1-4), of "order_bits bitOrder v"] assms(6)
    by (simp add: shiftOut_bits)
  with assms(5,7) show ?thesis
    by (intro shiftIn_bits) auto
qed

theorem shift_roundtrip_witness:
  "fst (shiftIn (present 36) 36 5 LSBFIRST
     (soc.extend \<lparr>soc_regs = \<lambda>_. 0, soc_trace = []\<rparr> \<lparr>peer_bits = order_bits LSBFIRST 0x35\<rparr>)) = 0x35"
proof -
  have low: "\<not> out_level \<lparr>soc_regs = \<lambda>_. 0, soc_trace = []\<rparr> 5"
    by (simp add: out_level_def)
  have "received 4 5 (shiftOut 4 5 LSBFIRST 0x35 \<lparr>soc_regs = \<lambda>_. 0, soc_trace = []\<rparr>) =
      received 4 5 \<lparr>soc_regs = \<lambda>_. 0, soc_trace = []\<rparr> @ order_bits LSBFIRST 0x35"
    unfolding shiftOut_bits by (rule conjunct1, rule received_clock_bits) (simp_all add: low)
  from shift_roundtrip [OF _ _ _ low _ this, of 36 _ "[]" 5] show ?thesis
    by (simp add: soc.defs)
qed


definition tick_ex :: "'a soc_scheme \<Rightarrow> 'a soc_scheme" where
  "tick_ex s = s\<lparr>soc_regs := (soc_regs s)(Mem 0 := soc_regs s (Mem 0) + 1)\<rparr>"


end
