(* ===== verification/Sketch.thy ===== *)
theory Sketch
  imports Wiring
begin

text \<open>
  \<^verbatim>\<open>arduino/iot/iot.ino\<close>, the application: a claw machine's sensor node. Every half second it takes
  the time, measures the distance to the prize chute with the ultrasonic sensor, counts a prize when
  something is nearer than 15 cm, and every 10 seconds uploads the counts and starts them again.

  The clock and the Wi-Fi link are volatile like the pins: \<open>env\<close> steps before each reading, and
  \<open>clk\<close>, \<open>ccount\<close> and \<open>wifi\<close> read the current state. \<open>Firebase.set\<close> appends to a log of uploads.
  The Serial prints and the delays have no effect on this state.
\<close>

section \<open>State\<close>

record upload =
  up_coin :: int
  up_goods :: int
  up_machine_num :: int
  up_timestamp :: int
  up_path :: int

record sketch_soc = soc +
  coin :: int
  timer :: int
  uploadTime :: int
  getGoods :: int
  uploads :: "upload list"

definition irPin :: nat where "irPin = 34"
definition trigPin :: nat where "trigPin = 18"
definition echoPin :: nat where "echoPin = 19"

text \<open>The initialisers of the global variables; \<open>now\<close> is what \<^verbatim>\<open>getTimeStamp()\<close> returns there.\<close>

definition sketch_globals :: "int \<Rightarrow> soc \<Rightarrow> sketch_soc" where
  "sketch_globals now s = soc.extend s
     \<lparr>coin = 0, timer = now, uploadTime = now + 10, getGoods = 0, uploads = []\<rparr>"

section \<open>Operations\<close>

definition sketch_setup ::
  "(nat \<Rightarrow> rtc_gpio_desc_t) \<Rightarrow> (sketch_soc \<Rightarrow> sketch_soc) \<Rightarrow> (sketch_soc \<Rightarrow> bool) \<Rightarrow> sketch_soc
     \<Rightarrow> sketch_soc option" where
  "sketch_setup desc env wifi s =
     await env wifi
       (exec [pinMode desc irPin INPUT, pinMode desc echoPin INPUT, pinMode desc trigPin OUTPUT] s)"

definition getTimeStamp :: "('s \<Rightarrow> 's) \<Rightarrow> ('s \<Rightarrow> int) \<Rightarrow> 's \<Rightarrow> int \<times> 's" where
  "getTimeStamp env clk s = (let s = env s in (clk s, s))"

text \<open>
  \<^verbatim>\<open>(duration/2) / 29.1\<close>, cut to a \<^verbatim>\<open>long\<close>. For every \<open>long\<close> numerator the double quotient has the
  same integer part as the exact one: a quotient that is not an integer is at least 1/291 away from
  the next one, and the rounding of 29.1 is absorbed when it is.
\<close>

definition echo_cm :: "u32 \<Rightarrow> int" where
  "echo_cm duration = (10 * (uint duration div 2)) div 291"

definition measure_echo ::
  "(nat \<Rightarrow> rtc_gpio_desc_t) \<Rightarrow> (sketch_soc \<Rightarrow> sketch_soc) \<Rightarrow> (sketch_soc \<Rightarrow> u32) \<Rightarrow> sketch_soc
     \<Rightarrow> (u32 \<times> sketch_soc) option" where
  "measure_echo desc env ccount s =
     pulseIn env ccount echoPin HIGH 1000000
       (exec [digitalWrite trigPin LOW, digitalWrite trigPin HIGH, digitalWrite trigPin LOW,
          pinMode desc echoPin INPUT] s)"

definition ultrasound ::
  "(nat \<Rightarrow> rtc_gpio_desc_t) \<Rightarrow> (sketch_soc \<Rightarrow> sketch_soc) \<Rightarrow> (sketch_soc \<Rightarrow> u32) \<Rightarrow> sketch_soc
     \<Rightarrow> sketch_soc option" where
  "ultrasound desc env ccount s =
     (case measure_echo desc env ccount s of
        None \<Rightarrow> None
      | Some (duration, s) \<Rightarrow>
          Some (if echo_cm duration < 15 then s\<lparr>getGoods := 1 + getGoods s\<rparr> else s))"

definition upload_counts :: "(sketch_soc \<Rightarrow> sketch_soc) \<Rightarrow> (sketch_soc \<Rightarrow> int) \<Rightarrow> sketch_soc \<Rightarrow> sketch_soc"
  where
  "upload_counts env clk s =
     (let c = coin s; g = getGoods s;
          (ts, s) = getTimeStamp env clk s;
          (path, s) = getTimeStamp env clk s;
          s = s\<lparr>uploads := uploads s @
            [\<lparr>up_coin = c, up_goods = g, up_machine_num = 2, up_timestamp = ts, up_path = path\<rparr>]\<rparr>
      in s\<lparr>uploadTime := timer s + 10, coin := 0, getGoods := 0\<rparr>)"

definition sketch_loop ::
  "(nat \<Rightarrow> rtc_gpio_desc_t) \<Rightarrow> (sketch_soc \<Rightarrow> sketch_soc) \<Rightarrow> (sketch_soc \<Rightarrow> u32) \<Rightarrow> (sketch_soc \<Rightarrow> int)
     \<Rightarrow> sketch_soc \<Rightarrow> sketch_soc option" where
  "sketch_loop desc env ccount clk s =
     (let (now, s) = getTimeStamp env clk s;
          s = s\<lparr>timer := now\<rparr>
      in if timer s < 100 then Some s
         else
           case ultrasound desc env ccount s of
             None \<Rightarrow> None
           | Some s \<Rightarrow> Some (if uploadTime s < timer s then upload_counts env clk s else s))"

section \<open>The variables of the sketch\<close>

text \<open>Hardware steps and pin operations do not change the sketch's variables.\<close>

definition keeps_vars :: "(sketch_soc \<Rightarrow> sketch_soc) \<Rightarrow> bool" where
  "keeps_vars f \<longleftrightarrow> (\<forall>s. soc.more (f s) = soc.more s)"

lemma vars_of_more:
  assumes "soc.more t = soc.more (s :: sketch_soc)"
  shows "coin t = coin s" "timer t = timer s" "uploadTime t = uploadTime s"
    "getGoods t = getGoods s" "uploads t = uploads s"
  using assms by (cases s; cases t; simp)+

lemma more_digitalWrite [simp]: "soc.more (digitalWrite p v s) = soc.more s"
  by (simp add: digitalWrite_def)

lemma wait_for_pin_state_inv:
  assumes "wait_for_pin_state env ccount pin st start tmo s = Some (b, t)"
    and "I s" and "\<And>s. I s \<Longrightarrow> I (env s)"
  shows "I t"
proof -
  have "(\<forall>s. I s \<longrightarrow> I (env s)) \<longrightarrow> I s \<longrightarrow> I (snd bt)"
    if "wait_for_pin_state env ccount pin st start tmo s = Some bt" for bt
  proof (rule wait_for_pin_state.raw_induct [where P = "\<lambda>env ccount pin st start tmo s bt.
        (\<forall>s. I s \<longrightarrow> I (env s)) \<longrightarrow> I s \<longrightarrow> I (snd bt)", OF _ that])
    fix f :: "('a \<Rightarrow> 'a) \<Rightarrow> ('a \<Rightarrow> u32) \<Rightarrow> ('a \<Rightarrow> u32) \<Rightarrow> u32 \<Rightarrow> u32 \<Rightarrow> u32 \<Rightarrow> 'a \<Rightarrow> (bool \<times> 'a) option"
      and env ccount pin st start tmo s bt
    assume IH: "\<And>env ccount pin st start tmo s bt. f env ccount pin st start tmo s = Some bt \<Longrightarrow>
        (\<forall>s. I s \<longrightarrow> I (env s)) \<longrightarrow> I s \<longrightarrow> I (snd bt)"
      and eq: "(let s = env s in if pin s = st then Some (True, s)
        else let s = env s in if tmo < ccount s - start then Some (False, s)
        else f env ccount pin st start tmo s) = Some bt"
    show "(\<forall>s. I s \<longrightarrow> I (env s)) \<longrightarrow> I s \<longrightarrow> I (snd bt)"
      using eq IH [of env ccount pin st start tmo "env (env s)" bt]
      by (auto simp: Let_def split: if_splits)
  qed
  with assms show ?thesis by fastforce
qed

lemma pulseIn_inv:
  assumes "pulseIn env ccount pin state timeout s = Some (d, t)"
    and "I s" and env: "\<And>s. I s \<Longrightarrow> I (env s)"
  shows "I t"
proof -
  define wait where "wait st s' = wait_for_pin_state env ccount (digitalRead pin) st
      (ccount (env s)) (pulse_timeout timeout) s'" for st s'
  have inv: "I t'" if "wait st s' = Some (b, t')" and "I s'" for st s' b t'
    using that env unfolding wait_def by (rule wait_for_pin_state_inv)
  note unf = assms(1) [unfolded pulseIn_def Let_def, folded wait_def]
  from unf obtain b1 s1 where 1: "wait (of_bool (state = 0)) (env s) = Some (b1, s1)"
    by (auto split: option.splits)
  with assms(2) have I1: "I s1" using inv env by blast
  show ?thesis
  proof (cases b1)
    case False
    with unf 1 I1 show ?thesis by simp
  next
    case True
    with unf 1 obtain b2 s2 where 2: "wait (ucast state) s1 = Some (b2, s2)"
      by (auto split: option.splits)
    with I1 have I2: "I s2" using inv by blast
    show ?thesis
    proof (cases b2)
      case False
      with unf 1 True 2 I2 show ?thesis by simp
    next
      case b2: True
      with unf 1 True 2 obtain b3 s3 where 3: "wait (of_bool (state = 0)) (env s2) = Some (b3, s3)"
        by (auto split: option.splits)
      with I2 have "I s3" using inv env by blast
      with unf 1 True 2 b2 3 env show ?thesis
        by (cases b3) auto
    qed
  qed
qed

lemma measure_echo_vars:
  assumes "keeps_vars env" and "measure_echo desc env ccount s = Some (d, t)"
  shows "soc.more t = soc.more s"
proof (rule pulseIn_inv [where I = "\<lambda>t. soc.more t = soc.more s"])
  show "pulseIn env ccount echoPin HIGH 1000000 (exec [digitalWrite trigPin LOW,
      digitalWrite trigPin HIGH, digitalWrite trigPin LOW, pinMode desc echoPin INPUT] s) = Some (d, t)"
    using assms(2) by (simp only: measure_echo_def)
  show "soc.more (exec [digitalWrite trigPin LOW, digitalWrite trigPin HIGH,
      digitalWrite trigPin LOW, pinMode desc echoPin INPUT] s) = soc.more s"
    by simp
qed (use assms(1) in \<open>simp add: keeps_vars_def\<close>)

section \<open>Runs\<close>

text \<open>
  A run of the sketch, with the list of the pulse lengths its sensor measured. The hardware may step
  between two iterations.
\<close>

definition loop_measures ::
  "(nat \<Rightarrow> rtc_gpio_desc_t) \<Rightarrow> (sketch_soc \<Rightarrow> sketch_soc) \<Rightarrow> (sketch_soc \<Rightarrow> u32) \<Rightarrow> (sketch_soc \<Rightarrow> int)
     \<Rightarrow> sketch_soc \<Rightarrow> u32 list" where
  "loop_measures desc env ccount clk s =
     (if clk (env s) < 100 then []
      else case measure_echo desc env ccount ((env s)\<lparr>timer := clk (env s)\<rparr>) of
             None \<Rightarrow> [] | Some (d, _) \<Rightarrow> [d])"

inductive sketch_run ::
  "(nat \<Rightarrow> rtc_gpio_desc_t) \<Rightarrow> (sketch_soc \<Rightarrow> sketch_soc) \<Rightarrow> (sketch_soc \<Rightarrow> u32) \<Rightarrow> (sketch_soc \<Rightarrow> int)
     \<Rightarrow> u32 list \<Rightarrow> sketch_soc \<Rightarrow> bool"
  for desc env ccount clk where
  start: "sketch_run desc env ccount clk [] (sketch_globals now s)"
| hardware: "sketch_run desc env ccount clk ds s \<Longrightarrow> sketch_run desc env ccount clk ds (env s)"
| iteration: "sketch_run desc env ccount clk ds s \<Longrightarrow> sketch_loop desc env ccount clk s = Some s'
    \<Longrightarrow> sketch_run desc env ccount clk (ds @ loop_measures desc env ccount clk s) s'"

definition total_goods :: "sketch_soc \<Rightarrow> int" where
  "total_goods s = sum_list (map up_goods (uploads s)) + getGoods s"

lemma keeps_varsD:
  assumes "keeps_vars env"
  shows "coin (env s) = coin s" "timer (env s) = timer s" "uploadTime (env s) = uploadTime s"
    "getGoods (env s) = getGoods s" "uploads (env s) = uploads s"
  using assms by (intro vars_of_more; simp add: keeps_vars_def)+

lemma upload_counts_vars:
  assumes "keeps_vars env"
  shows "total_goods (upload_counts env clk s) = total_goods s"
    and "uploadTime (upload_counts env clk s) = timer s + 10"
    and "timer (upload_counts env clk s) = timer s"
    and "\<exists>ts path. uploads (upload_counts env clk s) = uploads s @
      [\<lparr>up_coin = coin s, up_goods = getGoods s, up_machine_num = 2, up_timestamp = ts, up_path = path\<rparr>]"
    and "coin (upload_counts env clk s) = 0" and "getGoods (upload_counts env clk s) = 0"
  using keeps_varsD [OF assms]
  by (simp_all add: upload_counts_def getTimeStamp_def Let_def total_goods_def)

lemma sketch_loop_cases:
  assumes "keeps_vars env" and "sketch_loop desc env ccount clk s = Some s'"
  obtains (early) "clk (env s) < 100" "s' = (env s)\<lparr>timer := clk (env s)\<rparr>"
  | (measured) d t where "100 \<le> clk (env s)"
      "measure_echo desc env ccount ((env s)\<lparr>timer := clk (env s)\<rparr>) = Some (d, t)"
      "coin t = coin s" "timer t = clk (env s)" "uploadTime t = uploadTime s"
      "getGoods t = getGoods s" "uploads t = uploads s"
      "s' = (let t = (if echo_cm d < 15 then t\<lparr>getGoods := 1 + getGoods t\<rparr> else t)
        in if uploadTime t < timer t then upload_counts env clk t else t)"
proof (cases "clk (env s) < 100")
  case True
  with assms(2) early show ?thesis
    by (simp add: sketch_loop_def getTimeStamp_def Let_def)
next
  case False
  define s1 where "s1 = (env s)\<lparr>timer := clk (env s)\<rparr>"
  from False assms(2) obtain d t where m: "measure_echo desc env ccount s1 = Some (d, t)"
    and s': "s' = (let t = (if echo_cm d < 15 then t\<lparr>getGoods := 1 + getGoods t\<rparr> else t)
        in if uploadTime t < timer t then upload_counts env clk t else t)"
    by (auto simp: sketch_loop_def getTimeStamp_def Let_def ultrasound_def s1_def split: option.splits)
  from measure_echo_vars [OF assms(1) m] have "soc.more t = soc.more s1" .
  from vars_of_more [OF this] keeps_varsD [OF assms(1)] False m s'
  show ?thesis
    by (intro measured [of d t]) (simp_all add: s1_def)
qed

lemma total_goods_loop:
  assumes "keeps_vars env" and "sketch_loop desc env ccount clk s = Some s'"
  shows "total_goods s' = total_goods s +
    int (length (filter (\<lambda>d. echo_cm d < 15) (loop_measures desc env ccount clk s)))"
  using assms
proof (cases rule: sketch_loop_cases)
  case early
  then show ?thesis
    using keeps_varsD [OF assms(1)] by (simp add: total_goods_def loop_measures_def)
next
  case (measured d t)
  define t1 where "t1 = (if echo_cm d < 15 then t\<lparr>getGoods := 1 + getGoods t\<rparr> else t)"
  have "total_goods t1 = total_goods s + of_bool (echo_cm d < 15)"
    using measured by (simp add: total_goods_def t1_def)
  moreover have "total_goods s' = total_goods t1"
    using measured upload_counts_vars(1) [OF assms(1)] by (simp add: t1_def Let_def)
  ultimately show ?thesis
    using measured by (simp add: loop_measures_def)
qed

lemma total_goods_run:
  assumes "keeps_vars env" and "sketch_run desc env ccount clk ds s"
  shows "total_goods s = int (length (filter (\<lambda>d. echo_cm d < 15) ds))"
  using assms(2)
proof (induction rule: sketch_run.induct)
  case (start now s)
  then show ?case
    by (simp add: total_goods_def sketch_globals_def soc.defs)
next
  case (hardware ds s)
  then show ?case
    using keeps_varsD [OF assms(1)] by (simp add: total_goods_def)
next
  case (iteration ds s s')
  then show ?case
    using total_goods_loop [OF assms(1) iteration.hyps(2)] by simp
qed

text \<open>The coin sensor is commented out in the loop: every upload reports no coins.\<close>

lemma uploads_report_no_coins:
  assumes "keeps_vars env" and "sketch_run desc env ccount clk ds s"
  shows "coin s = 0 \<and> (\<forall>u \<in> set (uploads s). up_coin u = 0)"
  using assms(2)
proof (induction rule: sketch_run.induct)
  case (start now s)
  then show ?case
    by (simp add: sketch_globals_def soc.defs)
next
  case (hardware ds s)
  then show ?case
    using keeps_varsD [OF assms(1)] by simp
next
  case (iteration ds s s')
  from assms(1) iteration.hyps(2) show ?case
  proof (cases rule: sketch_loop_cases)
    case early
    with iteration.IH show ?thesis
      using keeps_varsD [OF assms(1)] by simp
  next
    case (measured d t)
    define t1 where "t1 = (if echo_cm d < 15 then t\<lparr>getGoods := 1 + getGoods t\<rparr> else t)"
    have "coin t1 = 0 \<and> (\<forall>u \<in> set (uploads t1). up_coin u = 0)"
      using measured iteration.IH by (simp add: t1_def)
    moreover have "s' = (if uploadTime t1 < timer t1 then upload_counts env clk t1 else t1)"
      using measured by (simp add: t1_def Let_def)
    ultimately show ?thesis
      using upload_counts_vars(4,5) [OF assms(1), of clk t1] by (auto split: if_splits)
  qed
qed

lemma pulseIn_no_pulse:
  assumes "paced env ccount \<delta>" and "240 * min (unat timeout) 17895697 + 5 * \<delta> < 2 ^ 32"
    and low: "\<And>s. digitalRead pin (env s) = 0"
  shows "\<exists>t. pulseIn env ccount pin HIGH timeout s = Some (0, t)"
proof -
  define s0 start tmo where "s0 = env s" and "start = ccount s0" and "tmo = pulse_timeout timeout"
  have tmo: "unat tmo + 5 * \<delta> < 2 ^ 32"
    using assms(2) by (simp add: tmo_def unat_pulse_timeout)
  have 1: "wait_for_pin_state env ccount (digitalRead pin) 0 start tmo s0 = Some (True, env s0)"
    by (subst wait_for_pin_state.simps) (simp add: low Let_def)
  have "unat (ccount s0 - start) + \<delta> < 2 ^ 32"
    using tmo by (simp add: start_def)
  from elapsed_env [OF assms(1) this]
  have le: "unat (ccount (env s0) - start) \<le> unat tmo + 1 * \<delta>"
    by (simp add: start_def)
  have room: "unat tmo + 1 * \<delta> + 2 * \<delta> < 2 ^ 32"
    using tmo by simp
  from wait_for_pin_state_returns [OF assms(1) room le, of "digitalRead pin" 1]
  obtain b t where 2: "wait_for_pin_state env ccount (digitalRead pin) 1 start tmo (env s0) = Some (b, t)"
    and b: "b \<longrightarrow> digitalRead pin t = 1 \<and> t \<in> range env"
    by blast
  have "\<not> b"
    using b low by (metis imageE zero_neq_one)
  with 1 2 show ?thesis
    by (simp add: pulseIn_def HIGH_def Let_def s0_def [symmetric] start_def [symmetric] tmo_def [symmetric])
qed

section \<open>Properties\<close>


text \<open>
  C35: what one iteration does on every path. A wrong clock (below 100) changes nothing but \<open>timer\<close>.
  Otherwise the measurement is counted, and if the deadline has passed one upload with the counts so
  far is sent, the counts restart at 0 and the next deadline is 10 seconds later; before the deadline
  nothing is sent.
\<close>

theorem sketch_loop_effect:
  assumes "keeps_vars env" and "sketch_loop desc env ccount clk s = Some s'"
    and "now = clk (env s)"
    and "n = int (length (filter (\<lambda>d. echo_cm d < 15) (loop_measures desc env ccount clk s)))"
  shows "timer s' = now \<and>
    (if now < 100 then s' = (env s)\<lparr>timer := now\<rparr>
     else if uploadTime s < now
     then (\<exists>ts path. uploads s' = uploads s @ [\<lparr>up_coin = coin s, up_goods = getGoods s + n,
             up_machine_num = 2, up_timestamp = ts, up_path = path\<rparr>])
       \<and> coin s' = 0 \<and> getGoods s' = 0 \<and> uploadTime s' = now + 10
     else uploads s' = uploads s \<and> coin s' = coin s \<and> getGoods s' = getGoods s + n
       \<and> uploadTime s' = uploadTime s)"
  using assms(1,2)
proof (cases rule: sketch_loop_cases)
  case early
  with assms(3) show ?thesis by simp
next
  case (measured d t)
  define t1 where "t1 = (if echo_cm d < 15 then t\<lparr>getGoods := 1 + getGoods t\<rparr> else t)"
  have t1: "coin t1 = coin s" "timer t1 = now" "uploadTime t1 = uploadTime s"
      "getGoods t1 = getGoods s + n" "uploads t1 = uploads s"
    using measured assms(3,4) by (simp_all add: t1_def loop_measures_def)
  have "s' = (if uploadTime t1 < timer t1 then upload_counts env clk t1 else t1)"
    using measured by (simp add: t1_def Let_def)
  with t1 measured(1) assms(3) show ?thesis
    using upload_counts_vars [OF assms(1), of clk t1] by simp
qed

text \<open>
  A measurement without any echo counts as a prize: \<open>pulseIn\<close> reports its timeout as a pulse of
  length 0, which the sketch takes for a distance of 0 cm.
\<close>

theorem no_echo_counts_as_prize:
  assumes "keeps_vars env" and "paced env ccount \<delta>" and "240000000 + 5 * \<delta> < 2 ^ 32"
    and "\<forall>s. digitalRead echoPin (env s) = 0" and "100 \<le> clk (env s)"
  shows "\<exists>s'. sketch_loop desc env ccount clk s = Some s' \<and> loop_measures desc env ccount clk s = [0]
    \<and> total_goods s' = total_goods s + 1"
proof -
  define s1 where "s1 = (env s)\<lparr>timer := clk (env s)\<rparr>"
  have "240 * min (unat (1000000 :: u32)) 17895697 + 5 * \<delta> < 2 ^ 32"
    using assms(3) by simp
  from pulseIn_no_pulse [OF assms(2) this assms(4) [THEN spec]]
  obtain t where m: "measure_echo desc env ccount s1 = Some (0, t)"
    unfolding measure_echo_def by blast
  have ms: "loop_measures desc env ccount clk s = [0]"
    using m assms(5) by (simp add: loop_measures_def s1_def)
  obtain s' where s': "sketch_loop desc env ccount clk s = Some s'"
    using m assms(5) by (simp add: sketch_loop_def getTimeStamp_def ultrasound_def Let_def s1_def)
  have "total_goods s' = total_goods s + 1"
    using total_goods_loop [OF assms(1) s'] ms by (simp add: echo_cm_def)
  with s' ms show ?thesis by blast
qed

section \<open>Witnesses\<close>

definition sketch_ex :: sketch_soc where
  "sketch_ex = sketch_globals 0 \<lparr>soc_regs = \<lambda>_. 0, soc_trace = []\<rparr>"

definition desc_ex :: "nat \<Rightarrow> rtc_gpio_desc_t" where
  "desc_ex _ = \<lparr>desc_reg = 0, desc_mux = 0, desc_func = 0, desc_ie = 0, desc_pullup = 0,
     desc_pulldown = 0, desc_rtc_num = -1\<rparr>"

text \<open>The echo line is tied low.\<close>

definition low_ex :: "sketch_soc \<Rightarrow> sketch_soc" where
  "low_ex s = tick_ex (set_pin_in echoPin False s)"

lemma low_ex: "keeps_vars low_ex" "paced low_ex (rd (Mem 0)) 1" "digitalRead echoPin (low_ex s) = 0"
  by (simp_all add: keeps_vars_def paced_def low_ex_def tick_ex_def set_pin_in_def rd_def
      echoPin_def digitalRead_bit bits)

theorem no_echo_counts_as_prize_witness:
  "\<exists>s'. sketch_loop desc_ex low_ex (rd (Mem 0)) (\<lambda>_. 1500000000) sketch_ex = Some s'
    \<and> loop_measures desc_ex low_ex (rd (Mem 0)) (\<lambda>_. 1500000000) sketch_ex = [0]
    \<and> total_goods s' = total_goods sketch_ex + 1"
  using low_ex by (intro no_echo_counts_as_prize) auto

lemma low_ex_iteration:
  "\<exists>s'. sketch_loop desc_ex low_ex (rd (Mem 0)) (\<lambda>_. 1500000000) sketch_ex = Some s'"
proof -
  have "240 * min (unat (1000000 :: u32)) 17895697 + 5 * 1 < 2 ^ 32"
    by simp
  from pulseIn_no_pulse [OF low_ex(2) this low_ex(3)]
  obtain t where "measure_echo desc_ex low_ex (rd (Mem 0))
      ((low_ex sketch_ex)\<lparr>timer := 1500000000\<rparr>) = Some (0, t)"
    unfolding measure_echo_def by blast
  then show ?thesis
    by (simp add: sketch_loop_def getTimeStamp_def ultrasound_def Let_def)
qed


theorem sketch_loop_effect_witness:
  "\<exists>s'. sketch_loop desc_ex low_ex (rd (Mem 0)) (\<lambda>_. 1500000000) sketch_ex = Some s'
    \<and> timer s' = 1500000000 \<and> uploadTime s' = 1500000010 \<and> getGoods s' = 0"
proof -
  obtain s' where s': "sketch_loop desc_ex low_ex (rd (Mem 0)) (\<lambda>_. 1500000000) sketch_ex = Some s'"
    using low_ex_iteration by blast
  from sketch_loop_effect [OF low_ex(1) s' refl refl] s' show ?thesis
    by (simp add: sketch_ex_def sketch_globals_def soc.defs)
qed

end
