(* ===== verification/Timer.thy ===== *)
theory Timer
  imports Soc
begin

text \<open>
  \<^verbatim>\<open>esp32-hal-timer.c\<close>: the four 64-bit hardware timers, in two groups of two. The static handler
  table and the interrupt handle are part of the state; the handle \<^verbatim>\<open>esp_intr_alloc\<close> gives and what
  \<^verbatim>\<open>esp_intr_get_cpu\<close> and \<^verbatim>\<open>esp_intr_get_intno\<close> say of it are a parameter. The two readings in seconds
  return doubles and are not modelled.
\<close>

section \<open>State\<close>

record hw_timer_t =
  ht_num :: nat
  ht_group :: nat
  ht_timer :: nat

definition hw_timer :: "hw_timer_t list" where
  "hw_timer =
     [\<lparr>ht_num = 0, ht_group = 0, ht_timer = 0\<rparr>,
      \<lparr>ht_num = 1, ht_group = 0, ht_timer = 1\<rparr>,
      \<lparr>ht_num = 2, ht_group = 1, ht_timer = 0\<rparr>,
      \<lparr>ht_num = 3, ht_group = 1, ht_timer = 1\<rparr>]"

record timer_soc = soc +
  timerInterruptHandlers :: "ptr list"
  timer_intr_initialized :: bool
  timer_intr_handle :: ptr

definition timer_boot :: "soc \<Rightarrow> timer_soc" where
  "timer_boot s = soc.extend s
     \<lparr>timerInterruptHandlers = [NULL, NULL, NULL, NULL], timer_intr_initialized = False,
      timer_intr_handle = NULL\<rparr>"

record intr_env =
  ie_handle :: ptr
  ie_cpu :: nat
  ie_intno :: nat

text \<open>The bit fields of the configuration register of a timer.\<close>

definition alarm_en :: bfield where "alarm_en = (10, 1)"
definition level_int_en :: bfield where "level_int_en = (11, 1)"
definition edge_int_en :: bfield where "edge_int_en = (12, 1)"
definition divider_f :: bfield where "divider_f = (13, 16)"
definition autoreload_f :: bfield where "autoreload_f = (29, 1)"
definition increase_f :: bfield where "increase_f = (30, 1)"
definition enable_f :: bfield where "enable_f = (31, 1)"

lemmas tconfig_fields =
  alarm_en_def level_int_en_def edge_int_en_def divider_f_def autoreload_f_def increase_f_def
  enable_f_def

definition DPORT_TIMERGROUP_CLK_EN :: u32 where "DPORT_TIMERGROUP_CLK_EN = BIT 13"
definition DPORT_TIMERGROUP_RST :: u32 where "DPORT_TIMERGROUP_RST = BIT 13"
definition DPORT_TIMERGROUP1_CLK_EN :: u32 where "DPORT_TIMERGROUP1_CLK_EN = BIT 15"
definition DPORT_TIMERGROUP1_RST :: u32 where "DPORT_TIMERGROUP1_RST = BIT 15"

definition ETS_TG0_T0_LEVEL_INTR_SOURCE :: nat where "ETS_TG0_T0_LEVEL_INTR_SOURCE = 14"
definition ETS_TG1_T0_LEVEL_INTR_SOURCE :: nat where "ETS_TG1_T0_LEVEL_INTR_SOURCE = 18"
definition ETS_TG0_T0_EDGE_INTR_SOURCE :: nat where "ETS_TG0_T0_EDGE_INTR_SOURCE = 58"
definition ETS_TG1_T0_EDGE_INTR_SOURCE :: nat where "ETS_TG1_T0_EDGE_INTR_SOURCE = 62"

abbreviation tcfg :: "hw_timer_t \<Rightarrow> reg" where
  "tcfg t \<equiv> Timer (ht_num t) tconfig"

section \<open>Interrupt handler\<close>

definition timer_rearm :: "u8 \<Rightarrow> nat \<Rightarrow> timer_soc \<Rightarrow> timer_soc" where
  "timer_rearm status i s =
     (if status AND push_bit i 1 \<noteq> 0 \<and> getf (Timer i tconfig) autoreload_f s \<noteq> 0
      then setf (Timer i tconfig) alarm_en 1 s else s)"

definition timer_callback :: "u8 \<Rightarrow> nat \<Rightarrow> timer_soc \<Rightarrow> timer_soc" where
  "timer_callback status i s =
     (if timerInterruptHandlers s ! i \<noteq> NULL \<and> status AND push_bit i 1 \<noteq> 0
      then ext (CallFn (timerInterruptHandlers s ! i)) s else s)"

definition timerISR :: "timer_soc \<Rightarrow> timer_soc" where
  "timerISR s =
     (let s0 = rd (TimerGroup 0 int_st_timers) s;
          s1 = rd (TimerGroup 1 int_st_timers) s;
          s = wr (TimerGroup 0 int_clr_timers) s0 s;
          s = wr (TimerGroup 1 int_clr_timers) s1 s;
          status = ucast (push_bit 2 (s1 AND 3) OR (s0 AND 3));
          s = fold (timer_rearm status) (rev [0..<4]) s
      in fold (timer_callback status) (rev [0..<4]) s)"

section \<open>Counter and alarm\<close>

definition of_halves :: "u32 \<Rightarrow> u32 \<Rightarrow> u64" where
  "of_halves h l = push_bit 32 (ucast h) OR ucast l"

text \<open>\<open>env\<close> is the hardware's reaction to the store to \<open>update\<close>: it latches the counter.\<close>

definition timerRead ::
  "('a soc_scheme \<Rightarrow> 'a soc_scheme) \<Rightarrow> hw_timer_t \<Rightarrow> 'a soc_scheme \<Rightarrow> u64 \<times> 'a soc_scheme" where
  "timerRead env t s =
     (let s = wr (Timer (ht_num t) tupdate) 1 s;
          s = env s;
          h = rd (Timer (ht_num t) cnt_high) s;
          l = rd (Timer (ht_num t) cnt_low) s
      in (of_halves h l, s))"

definition timerAlarmRead :: "hw_timer_t \<Rightarrow> 'a soc_scheme \<Rightarrow> u64" where
  "timerAlarmRead t s =
     of_halves (rd (Timer (ht_num t) alarm_high) s) (rd (Timer (ht_num t) alarm_low) s)"

definition timerWrite :: "hw_timer_t \<Rightarrow> u64 \<Rightarrow> 'a soc_scheme \<Rightarrow> 'a soc_scheme" where
  "timerWrite t val =
     exec
       [wr (Timer (ht_num t) load_high) (ucast (drop_bit 32 val)),
        wr (Timer (ht_num t) load_low) (ucast val),
        wr (Timer (ht_num t) treload) 1]"

definition timerAlarmWrite :: "hw_timer_t \<Rightarrow> u64 \<Rightarrow> bool \<Rightarrow> 'a soc_scheme \<Rightarrow> 'a soc_scheme" where
  "timerAlarmWrite t alarm_value autoreload =
     exec
       [wr (Timer (ht_num t) alarm_high) (ucast (drop_bit 32 alarm_value)),
        wr (Timer (ht_num t) alarm_low) (ucast alarm_value),
        setf (tcfg t) autoreload_f (of_flag autoreload)]"

section \<open>Configuration\<close>

definition timerSetConfig :: "hw_timer_t \<Rightarrow> u32 \<Rightarrow> 'a soc_scheme \<Rightarrow> 'a soc_scheme" where
  "timerSetConfig t config = wr (tcfg t) config"

definition timerGetConfig :: "hw_timer_t \<Rightarrow> 'a soc_scheme \<Rightarrow> u32" where
  "timerGetConfig t s = rd (tcfg t) s"

definition timerSetCountUp :: "hw_timer_t \<Rightarrow> bool \<Rightarrow> 'a soc_scheme \<Rightarrow> 'a soc_scheme" where
  "timerSetCountUp t countUp = setf (tcfg t) increase_f (of_flag countUp)"

definition timerGetCountUp :: "hw_timer_t \<Rightarrow> 'a soc_scheme \<Rightarrow> bool" where
  "timerGetCountUp t s \<longleftrightarrow> getf (tcfg t) increase_f s \<noteq> 0"

definition timerSetAutoReload :: "hw_timer_t \<Rightarrow> bool \<Rightarrow> 'a soc_scheme \<Rightarrow> 'a soc_scheme" where
  "timerSetAutoReload t autoreload = setf (tcfg t) autoreload_f (of_flag autoreload)"

definition timerGetAutoReload :: "hw_timer_t \<Rightarrow> 'a soc_scheme \<Rightarrow> bool" where
  "timerGetAutoReload t s \<longleftrightarrow> getf (tcfg t) autoreload_f s \<noteq> 0"

definition timerSetDivider :: "hw_timer_t \<Rightarrow> u16 \<Rightarrow> 'a soc_scheme \<Rightarrow> 'a soc_scheme" where
  "timerSetDivider t divider s =
     (let divider = (if divider = 0 then 0xFFFF else if divider = 1 then 2 else divider);
          timer_en = getf (tcfg t) enable_f s
      in exec
           [setf (tcfg t) enable_f 0,
            setf (tcfg t) divider_f (ucast divider),
            setf (tcfg t) enable_f timer_en] s)"

definition timerGetDivider :: "hw_timer_t \<Rightarrow> 'a soc_scheme \<Rightarrow> u16" where
  "timerGetDivider t s = ucast (getf (tcfg t) divider_f s)"

definition timerStart :: "hw_timer_t \<Rightarrow> 'a soc_scheme \<Rightarrow> 'a soc_scheme" where
  "timerStart t = setf (tcfg t) enable_f 1"

definition timerStop :: "hw_timer_t \<Rightarrow> 'a soc_scheme \<Rightarrow> 'a soc_scheme" where
  "timerStop t = setf (tcfg t) enable_f 0"

definition timerRestart :: "hw_timer_t \<Rightarrow> 'a soc_scheme \<Rightarrow> 'a soc_scheme" where
  "timerRestart t = exec [setf (tcfg t) enable_f 0, setf (tcfg t) enable_f 1]"

definition timerStarted :: "hw_timer_t \<Rightarrow> 'a soc_scheme \<Rightarrow> bool" where
  "timerStarted t s \<longleftrightarrow> getf (tcfg t) enable_f s \<noteq> 0"

definition timerAlarmEnable :: "hw_timer_t \<Rightarrow> 'a soc_scheme \<Rightarrow> 'a soc_scheme" where
  "timerAlarmEnable t = setf (tcfg t) alarm_en 1"

definition timerAlarmDisable :: "hw_timer_t \<Rightarrow> 'a soc_scheme \<Rightarrow> 'a soc_scheme" where
  "timerAlarmDisable t = setf (tcfg t) alarm_en 0"

definition timerAlarmEnabled :: "hw_timer_t \<Rightarrow> 'a soc_scheme \<Rightarrow> bool" where
  "timerAlarmEnabled t s \<longleftrightarrow> getf (tcfg t) alarm_en s \<noteq> 0"

section \<open>Interrupts\<close>

definition timerAttachInterrupt ::
  "intr_env \<Rightarrow> hw_timer_t \<Rightarrow> ptr \<Rightarrow> bool \<Rightarrow> timer_soc \<Rightarrow> timer_soc" where
  "timerAttachInterrupt ie t fn edge s =
     (let s = (if timer_intr_handle s \<noteq> NULL then ext (IntrDisable (timer_intr_handle s)) s else s);
          s =
            (if fn = NULL then
               let s = setf (tcfg t) level_int_en 0 s;
                   s = setf (tcfg t) edge_int_en 0 s;
                   s = setf (tcfg t) alarm_en 0 s;
                   s = (if odd (ht_num t div 2)
                        then clear_peri_reg_mask (TimerGroup 1 int_ena_timers) (BIT (ht_timer t)) s
                        else clear_peri_reg_mask (TimerGroup 0 int_ena_timers) (BIT (ht_timer t)) s)
               in s\<lparr>timerInterruptHandlers := (timerInterruptHandlers s)[ht_num t := NULL]\<rparr>
             else
               let s = s\<lparr>timerInterruptHandlers := (timerInterruptHandlers s)[ht_num t := fn]\<rparr>;
                   s = setf (tcfg t) level_int_en (if edge then 0 else 1) s;
                   s = setf (tcfg t) edge_int_en (if edge then 1 else 0) s;
                   intr_source =
                     (if \<not> edge
                      then if ht_group t \<noteq> 0 then ETS_TG1_T0_LEVEL_INTR_SOURCE + ht_timer t
                           else ETS_TG0_T0_LEVEL_INTR_SOURCE + ht_timer t
                      else if ht_group t \<noteq> 0 then ETS_TG1_T0_EDGE_INTR_SOURCE + ht_timer t
                           else ETS_TG0_T0_EDGE_INTR_SOURCE + ht_timer t);
                   s = (if \<not> timer_intr_initialized s
                        then (ext (IntrAlloc intr_source) s)
                               \<lparr>timer_intr_initialized := True, timer_intr_handle := ie_handle ie\<rparr>
                        else ext (IntrMatrixSet (ie_cpu ie) intr_source (ie_intno ie)) s)
               in if ht_group t \<noteq> 0
                  then set_peri_reg_mask (TimerGroup 1 int_ena_timers) (BIT (ht_timer t)) s
                  else set_peri_reg_mask (TimerGroup 0 int_ena_timers) (BIT (ht_timer t)) s)
      in if timer_intr_handle s \<noteq> NULL then ext (IntrEnable (timer_intr_handle s)) s else s)"

definition timerDetachInterrupt :: "intr_env \<Rightarrow> hw_timer_t \<Rightarrow> timer_soc \<Rightarrow> timer_soc" where
  "timerDetachInterrupt ie t s = timerAttachInterrupt ie t NULL False s"

definition timer_clock :: "hw_timer_t \<Rightarrow> 'a soc_scheme \<Rightarrow> 'a soc_scheme" where
  "timer_clock t =
     (if ht_group t \<noteq> 0
      then exec
        [set_peri_reg_mask DPORT_PERIP_CLK_EN_REG DPORT_TIMERGROUP1_CLK_EN,
         clear_peri_reg_mask DPORT_PERIP_RST_EN_REG DPORT_TIMERGROUP1_RST,
         clear_peri_reg_mask (TimerGroup 1 int_ena_timers) (BIT (ht_timer t))]
      else exec
        [set_peri_reg_mask DPORT_PERIP_CLK_EN_REG DPORT_TIMERGROUP_CLK_EN,
         clear_peri_reg_mask DPORT_PERIP_RST_EN_REG DPORT_TIMERGROUP_RST,
         clear_peri_reg_mask (TimerGroup 0 int_ena_timers) (BIT (ht_timer t))])"

definition timerBegin ::
  "intr_env \<Rightarrow> nat \<Rightarrow> u16 \<Rightarrow> bool \<Rightarrow> timer_soc \<Rightarrow> hw_timer_t option \<times> timer_soc" where
  "timerBegin ie num divider countUp s =
     (if 3 < num then (None, s)
      else
        let t = hw_timer ! num in
        (Some t, exec
          [timer_clock t,
           setf (tcfg t) enable_f 0,
           timerSetDivider t divider,
           timerSetCountUp t countUp,
           timerSetAutoReload t False,
           timerAttachInterrupt ie t NULL False,
           timerWrite t 0,
           setf (tcfg t) enable_f 1] s))"

definition timerEnd :: "intr_env \<Rightarrow> hw_timer_t \<Rightarrow> timer_soc \<Rightarrow> timer_soc" where
  "timerEnd ie t = exec [setf (tcfg t) enable_f 0, timerAttachInterrupt ie t NULL False]"

section \<open>Time in microseconds\<close>

definition timerReadMicros ::
  "('a soc_scheme \<Rightarrow> 'a soc_scheme) \<Rightarrow> hw_timer_t \<Rightarrow> 'a soc_scheme \<Rightarrow> u64 \<times> 'a soc_scheme" where
  "timerReadMicros env t s =
     (let (timer_val, s) = timerRead env t s
      in (timer_val * ucast (timerGetDivider t s) div 80, s))"

definition timerAlarmReadMicros :: "hw_timer_t \<Rightarrow> 'a soc_scheme \<Rightarrow> u64" where
  "timerAlarmReadMicros t s = timerAlarmRead t s * ucast (timerGetDivider t s) div 80"

section \<open>Lemmas\<close>

lemma of_halves_split: "of_halves (ucast (drop_bit 32 v)) (ucast v) = v"
  by (rule bit_word_eqI) (auto simp: of_halves_def bit_simps dest: bit_imp_le_length)

lemma hw_timer_nth:
  assumes "n < 4"
  shows "ht_num (hw_timer ! n) = n" "ht_group (hw_timer ! n) = n div 2" "ht_timer (hw_timer ! n) = n mod 2"
proof -
  from assms have "n = 0 \<or> n = 1 \<or> n = 2 \<or> n = 3" by auto
  then show "ht_num (hw_timer ! n) = n" "ht_group (hw_timer ! n) = n div 2"
    "ht_timer (hw_timer ! n) = n mod 2"
    by (auto simp: hw_timer_def)
qed

lemma timer_vars_wr [simp]:
  "timerInterruptHandlers (wr r v s) = timerInterruptHandlers s"
  "timer_intr_handle (wr r v s) = timer_intr_handle s"
  "timerInterruptHandlers (ext c s) = timerInterruptHandlers s"
  "timer_intr_handle (ext c s) = timer_intr_handle s"
  by (simp_all add: wr_def ext_def)

lemma timer_vars_setf [simp]:
  "timerInterruptHandlers (setf r f v s) = timerInterruptHandlers s"
  "timer_intr_handle (setf r f v s) = timer_intr_handle s"
  "timerInterruptHandlers (set_peri_reg_mask r m s) = timerInterruptHandlers s"
  "timerInterruptHandlers (clear_peri_reg_mask r m s) = timerInterruptHandlers s"
  by (simp_all add: reg_ops)

lemma rd_update_handlers [simp]:
  "rd r (s\<lparr>timerInterruptHandlers := hs\<rparr>) = rd r s"
  "rd r (s\<lparr>timer_intr_initialized := b, timer_intr_handle := p\<rparr>) = rd r s"
  by (simp_all add: rd_def)

lemma timer_flags:
  "timerStarted t s \<longleftrightarrow> bit (rd (tcfg t) s) 31"
  "timerGetCountUp t s \<longleftrightarrow> bit (rd (tcfg t) s) 30"
  "timerGetAutoReload t s \<longleftrightarrow> bit (rd (tcfg t) s) 29"
  "timerAlarmEnabled t s \<longleftrightarrow> bit (rd (tcfg t) s) 10"
  unfolding timerStarted_def timerGetCountUp_def timerGetAutoReload_def timerAlarmEnabled_def
    tconfig_fields getf_flag by (rule refl)+

definition pending :: "'a soc_scheme \<Rightarrow> nat \<Rightarrow> bool" where
  "pending s i \<longleftrightarrow> bit (rd (TimerGroup (i div 2) int_st_timers) s) (i mod 2)"

lemma status_bit:
  assumes "i < 4"
  shows "(ucast (push_bit 2 (s1 AND 3) OR (s0 AND 3 :: u32)) :: u8) AND push_bit i 1 \<noteq> 0 \<longleftrightarrow>
    (if i < 2 then bit s0 i else bit s1 (i - 2))"
proof -
  have one: "v AND push_bit i 1 \<noteq> 0 \<longleftrightarrow> bit v i" for v :: u8
    using and_exp_eq_0_iff_not_bit [of v i] by (simp add: push_bit_of_1)
  have m: "(3 :: u32) = mask 2"
    by (simp add: mask_eq_exp_minus_1)
  show ?thesis
    unfolding one m using assms
    by (auto simp: bit_simps)
qed

lemma fold_rearm:
  assumes "\<forall>i \<in> set is. i < 4" and "distinct is"
  shows "soc_trace (fold (timer_rearm st) is s) = soc_trace s @
      map (\<lambda>i. Wr (Timer i tconfig) (bf_put alarm_en 1 (rd (Timer i tconfig) s)))
        (filter (\<lambda>i. st AND push_bit i 1 \<noteq> 0 \<and> getf (Timer i tconfig) autoreload_f s \<noteq> 0) is)
    \<and> timerInterruptHandlers (fold (timer_rearm st) is s) = timerInterruptHandlers s"
  using assms
proof (induction "is" arbitrary: s)
  case (Cons i "is")
  define t where "t = timer_rearm st i s"
  have same: "rd (Timer j tconfig) t = rd (Timer j tconfig) s" if "j \<in> set is" for j
    using that Cons.prems(2) by (auto simp: t_def timer_rearm_def)
  then have "filter (\<lambda>i. st AND push_bit i 1 \<noteq> 0 \<and> getf (Timer i tconfig) autoreload_f t \<noteq> 0) is =
      filter (\<lambda>i. st AND push_bit i 1 \<noteq> 0 \<and> getf (Timer i tconfig) autoreload_f s \<noteq> 0) is"
    by (intro filter_cong) (simp_all add: getf_def)
  moreover have "soc_trace t = soc_trace s @
      (if st AND push_bit i 1 \<noteq> 0 \<and> getf (Timer i tconfig) autoreload_f s \<noteq> 0
       then [Wr (Timer i tconfig) (bf_put alarm_en 1 (rd (Timer i tconfig) s))] else [])"
    and "timerInterruptHandlers t = timerInterruptHandlers s"
    by (simp_all add: t_def timer_rearm_def)
  ultimately show ?case
    using Cons.IH [of t] Cons.prems same by (simp add: t_def [symmetric])
qed simp

lemma fold_callback:
  "soc_trace (fold (timer_callback st) is s) = soc_trace s @
     map (\<lambda>i. Ext (CallFn (timerInterruptHandlers s ! i)))
       (filter (\<lambda>i. timerInterruptHandlers s ! i \<noteq> NULL \<and> st AND push_bit i 1 \<noteq> 0) is)"
  by (induction "is" arbitrary: s) (simp_all add: timer_callback_def)

section \<open>Operations on one timer\<close>

datatype timer_op =
    TBegin u16 bool | TEnd | TAttach ptr bool | TDetach
  | TWrite u64 | TAlarmWrite u64 bool
  | TSetConfig u32 | TSetCountUp bool | TSetAutoReload bool | TSetDivider u16
  | TStart | TStop | TRestart | TAlarmEnable | TAlarmDisable

fun timer_step :: "intr_env \<Rightarrow> nat \<Rightarrow> timer_op \<Rightarrow> timer_soc \<Rightarrow> timer_soc" where
  "timer_step ie n (TBegin d up) s = snd (timerBegin ie n d up s)"
| "timer_step ie n TEnd s = timerEnd ie (hw_timer ! n) s"
| "timer_step ie n (TAttach fn edge) s = timerAttachInterrupt ie (hw_timer ! n) fn edge s"
| "timer_step ie n TDetach s = timerDetachInterrupt ie (hw_timer ! n) s"
| "timer_step ie n (TWrite v) s = timerWrite (hw_timer ! n) v s"
| "timer_step ie n (TAlarmWrite v b) s = timerAlarmWrite (hw_timer ! n) v b s"
| "timer_step ie n (TSetConfig c) s = timerSetConfig (hw_timer ! n) c s"
| "timer_step ie n (TSetCountUp b) s = timerSetCountUp (hw_timer ! n) b s"
| "timer_step ie n (TSetAutoReload b) s = timerSetAutoReload (hw_timer ! n) b s"
| "timer_step ie n (TSetDivider d) s = timerSetDivider (hw_timer ! n) d s"
| "timer_step ie n TStart s = timerStart (hw_timer ! n) s"
| "timer_step ie n TStop s = timerStop (hw_timer ! n) s"
| "timer_step ie n TRestart s = timerRestart (hw_timer ! n) s"
| "timer_step ie n TAlarmEnable s = timerAlarmEnable (hw_timer ! n) s"
| "timer_step ie n TAlarmDisable s = timerAlarmDisable (hw_timer ! n) s"

text \<open>What belongs to timer \<open>m\<close>: its registers, its interrupt-enable bit and its handler.\<close>

definition same_timer :: "nat \<Rightarrow> timer_soc \<Rightarrow> timer_soc \<Rightarrow> bool" where
  "same_timer m s t \<longleftrightarrow>
     (\<forall>r. rd (Timer m r) t = rd (Timer m r) s) \<and>
     bit (rd (TimerGroup (m div 2) int_ena_timers) t) (m mod 2) =
       bit (rd (TimerGroup (m div 2) int_ena_timers) s) (m mod 2) \<and>
     timerInterruptHandlers t ! m = timerInterruptHandlers s ! m"

lemma same_timer_refl [simp]: "same_timer m s s"
  by (simp add: same_timer_def)

lemma same_timer_trans: "same_timer m s t \<Longrightarrow> same_timer m t u \<Longrightarrow> same_timer m s u"
  by (simp add: same_timer_def)

named_theorems frame

lemma same_timer_setf [frame]: "n \<noteq> m \<Longrightarrow> same_timer m s t \<Longrightarrow> same_timer m s (setf (Timer n r) f v t)"
  by (simp add: same_timer_def)

lemma same_timer_wr [frame]: "n \<noteq> m \<Longrightarrow> same_timer m s t \<Longrightarrow> same_timer m s (wr (Timer n r) v t)"
  by (simp add: same_timer_def)

lemma same_timer_ext [frame]: "same_timer m s t \<Longrightarrow> same_timer m s (ext c t)"
  by (simp add: same_timer_def)

lemma same_timer_intr [frame]:
  "same_timer m s t \<Longrightarrow> same_timer m s (t\<lparr>timer_intr_initialized := b, timer_intr_handle := p\<rparr>)"
  by (simp add: same_timer_def)

lemma same_timer_handlers [frame]:
  "n \<noteq> m \<Longrightarrow> same_timer m s t \<Longrightarrow>
     same_timer m s (t\<lparr>timerInterruptHandlers := (timerInterruptHandlers t)[n := p]\<rparr>)"
  by (simp add: same_timer_def)

lemma same_timer_dport [frame]:
  "same_timer m s t \<Longrightarrow> same_timer m s (set_peri_reg_mask DPORT_PERIP_CLK_EN_REG v t)"
  "same_timer m s t \<Longrightarrow> same_timer m s (clear_peri_reg_mask DPORT_PERIP_RST_EN_REG v t)"
  by (simp_all add: same_timer_def DPORT_PERIP_CLK_EN_REG_def DPORT_PERIP_RST_EN_REG_def
      reg_ops)

lemma same_timer_ena [frame]:
  assumes "n \<noteq> m" and "n div 2 = g" and "same_timer m s t"
  shows "same_timer m s (set_peri_reg_mask (TimerGroup g int_ena_timers) (BIT (n mod 2)) t)"
    and "same_timer m s (clear_peri_reg_mask (TimerGroup g int_ena_timers) (BIT (n mod 2)) t)"
proof -
  have ne: "n mod 2 \<noteq> m mod 2" if "m div 2 = g"
    using assms(1,2) that by (metis div_mult_mod_eq)
  then show "same_timer m s (set_peri_reg_mask (TimerGroup g int_ena_timers) (BIT (n mod 2)) t)"
    using assms(3) by (auto simp: same_timer_def bit_or_iff bits)
  show "same_timer m s (clear_peri_reg_mask (TimerGroup g int_ena_timers) (BIT (n mod 2)) t)"
    using assms(3) ne
    by (auto simp: same_timer_def bit_and_iff bit_not_iff bits dest: bit_imp_le_length)
qed

text \<open>The frame rules follow the structure of the code: conditionals and successive states.\<close>

lemma same_timer_if [frame]:
  "(b \<Longrightarrow> same_timer m s t) \<Longrightarrow> (\<not> b \<Longrightarrow> same_timer m s u) \<Longrightarrow> same_timer m s (if b then t else u)"
  by simp

lemma same_timer_Let [frame]:
  "same_timer m s t \<Longrightarrow> (\<And>u. same_timer m s u \<Longrightarrow> same_timer m s (f u)) \<Longrightarrow> same_timer m s (Let t f)"
  by (simp add: Let_def)

lemma same_timer_Let_nat [frame]:
  "(\<And>i. same_timer m s (f i)) \<Longrightarrow> same_timer m s (Let (k :: nat) f)"
  by (simp add: Let_def)

lemma same_timer_attach [frame]:
  assumes "n < 4" and "n \<noteq> m" and "same_timer m s t"
  shows "same_timer m s (timerAttachInterrupt ie (hw_timer ! n) fn edge t)"
proof -
  have group: "n div 2 = 1" if "odd (n div 2) \<or> n div 2 \<noteq> 0"
    using that assms(1) by presburger
  show ?thesis
    unfolding timerAttachInterrupt_def hw_timer_nth [OF assms(1)]
    by (intro frame assms; (assumption | rule group; simp | use assms(1) in presburger))
qed

text \<open>Detaching, in full: the configuration, the enable bit and the handler.\<close>

lemma detach_effect:
  assumes "n < 4" and "length (timerInterruptHandlers s) = 4"
  shows "rd (Timer n tconfig) (timerAttachInterrupt ie (hw_timer ! n) NULL e s) =
      bf_put alarm_en 0 (bf_put edge_int_en 0 (bf_put level_int_en 0 (rd (Timer n tconfig) s)))"
    and "\<not> bit (rd (TimerGroup (n div 2) int_ena_timers)
      (timerAttachInterrupt ie (hw_timer ! n) NULL e s)) (n mod 2)"
    and "timerInterruptHandlers (timerAttachInterrupt ie (hw_timer ! n) NULL e s) =
      (timerInterruptHandlers s)[n := NULL]"
proof -
  from assms(1) have "n = 0 \<or> n = 1 \<or> n = 2 \<or> n = 3" by auto
  then have g: "odd (n div 2) \<longleftrightarrow> n div 2 = 1" "n div 2 \<noteq> 1 \<Longrightarrow> n div 2 = 0" by auto
  show "rd (Timer n tconfig) (timerAttachInterrupt ie (hw_timer ! n) NULL e s) =
      bf_put alarm_en 0 (bf_put edge_int_en 0 (bf_put level_int_en 0 (rd (Timer n tconfig) s)))"
    by (simp add: timerAttachInterrupt_def hw_timer_nth [OF assms(1)] Let_def)
  show "\<not> bit (rd (TimerGroup (n div 2) int_ena_timers)
      (timerAttachInterrupt ie (hw_timer ! n) NULL e s)) (n mod 2)"
    using g by (auto simp: timerAttachInterrupt_def hw_timer_nth [OF assms(1)] Let_def
        bit_and_iff bit_not_iff bits)
  show "timerInterruptHandlers (timerAttachInterrupt ie (hw_timer ! n) NULL e s) =
      (timerInterruptHandlers s)[n := NULL]"
    by (simp add: timerAttachInterrupt_def hw_timer_nth [OF assms(1)] Let_def)
qed

lemma same_timer_clock [frame]:
  assumes "n < 4" and "n \<noteq> m" and "same_timer m s t"
  shows "same_timer m s (timer_clock (hw_timer ! n) t)"
proof (cases "n div 2 = 0")
  case True
  then show ?thesis
    by (simp only: timer_clock_def hw_timer_nth [OF assms(1)] exec.simps True simp_thms if_False)
      (intro frame assms; simp add: True)
next
  case False
  then have "n div 2 = 1" using assms(1) by presburger
  then show ?thesis
    by (simp only: timer_clock_def hw_timer_nth [OF assms(1)] exec.simps one_neq_zero simp_thms if_True)
      (intro frame assms; simp)
qed

lemma same_timer_step:
  assumes "n < 4" and "n \<noteq> m"
  shows "same_timer m s (timer_step ie n op s)"
proof -
  note defs = timerEnd_def timerDetachInterrupt_def timerWrite_def timerAlarmWrite_def
    timerSetConfig_def timerSetCountUp_def timerSetAutoReload_def timerSetDivider_def timerStart_def
    timerStop_def timerRestart_def timerAlarmEnable_def timerAlarmDisable_def exec.simps
  have "\<not> 3 < n" using assms(1) by simp
  then have tbegin: "same_timer m s (snd (timerBegin ie n d up s))" for d up
    by (simp only: timerBegin_def if_False Let_def snd_conv defs hw_timer_nth [OF assms(1)])
      (intro frame assms same_timer_refl)
  show ?thesis
    by (cases op; simp only: timer_step.simps tbegin;
        (simp only: defs hw_timer_nth [OF assms(1)] Let_def)?; intro frame assms same_timer_refl)
qed

lemma timerGetDivider_set:
  "timerGetDivider t (timerSetDivider t d s) = (if d = 0 then 65535 else if d = 1 then 2 else d)"
proof -
  define d' where "d' = (if d = 0 then 65535 else if d = 1 then 2 else d)"
  have "(ucast (take_bit 16 (ucast d' :: u32)) :: u16) = d'"
    by (rule bit_word_eqI) (auto simp: bit_simps)
  then have "timerGetDivider t (timerSetDivider t d s) = d'"
    by (simp add: timerGetDivider_def timerSetDivider_def Let_def getf_def d'_def [symmetric]
        bf_get_put_other bf_get_put_same bf_disjoint_def tconfig_fields)
  then show ?thesis
    by (simp only: d'_def)
qed

section \<open>Properties\<close>

text \<open>
  The 64-bit alarm value survives the split into two registers, the auto-reload flag is the one
  given, and the rest of the timer's configuration is untouched.
\<close>

theorem timerAlarm_roundtrip:
  "timerAlarmRead t (timerAlarmWrite t v b s) = v
    \<and> timerGetAutoReload t (timerAlarmWrite t v b s) = b
    \<and> timerGetDivider t (timerAlarmWrite t v b s) = timerGetDivider t s
    \<and> timerStarted t (timerAlarmWrite t v b s) = timerStarted t s
    \<and> timerAlarmEnabled t (timerAlarmWrite t v b s) = timerAlarmEnabled t s
    \<and> timerGetCountUp t (timerAlarmWrite t v b s) = timerGetCountUp t s"
  unfolding timer_flags
  by (simp add: timerAlarmRead_def timerAlarmWrite_def of_halves_split timerGetDivider_def getf_def
      bf_get_put_other bf_disjoint_def tconfig_fields bits)

text \<open>
  \<open>timerSetDivider\<close> changes the divider only while the counter is stopped, and leaves the counter
  running exactly if it was: of the three values it stores in the configuration register, the first
  stops the counter and keeps the divider, the second sets the divider (0 becomes 65535, 1 becomes 2)
  with the counter still stopped, the last restores the enable bit.
\<close>

theorem timerSetDivider_stopped:
  "\<exists>w0 w1 w2. soc_trace (timerSetDivider t d s) =
       soc_trace s @ [Wr (tcfg t) w0, Wr (tcfg t) w1, Wr (tcfg t) w2]
     \<and> \<not> bit w0 31 \<and> bf_get divider_f w0 = bf_get divider_f (rd (tcfg t) s) \<and> \<not> bit w1 31
     \<and> timerGetConfig t (timerSetDivider t d s) = w2
     \<and> timerStarted t (timerSetDivider t d s) = timerStarted t s
     \<and> timerGetDivider t (timerSetDivider t d s) = (if d = 0 then 65535 else if d = 1 then 2 else d)"
proof -
  define d' where "d' = (if d = 0 then 65535 else if d = 1 then 2 else d)"
  define w0 w1 where "w0 = bf_put enable_f 0 (rd (tcfg t) s)"
    and "w1 = bf_put divider_f (ucast d') w0"
  define w2 where "w2 = bf_put enable_f (getf (tcfg t) enable_f s) w1"
  have trace: "soc_trace (timerSetDivider t d s) =
      soc_trace s @ [Wr (tcfg t) w0, Wr (tcfg t) w1, Wr (tcfg t) w2]"
    and config: "rd (tcfg t) (timerSetDivider t d s) = w2"
    by (simp_all add: timerSetDivider_def Let_def w0_def w1_def w2_def d'_def [symmetric])
  have "\<not> bit w0 31" "\<not> bit w1 31"
    by (simp_all add: w0_def w1_def bits tconfig_fields)
  moreover have "bf_get divider_f w0 = bf_get divider_f (rd (tcfg t) s)"
    by (simp add: w0_def bf_get_put_other bf_disjoint_def tconfig_fields)
  moreover have "timerStarted t (timerSetDivider t d s) = timerStarted t s"
    unfolding timer_flags config w2_def by (simp add: bits tconfig_fields getf_def)
  moreover have "timerGetDivider t (timerSetDivider t d s) = d'"
    by (simp only: d'_def timerGetDivider_set)
  ultimately show ?thesis
    using trace config by (auto simp: timerGetConfig_def d'_def)
qed

text \<open>
  C28: the timer interrupt clears exactly the status bits it read, re-arms the alarm of each timer
  that fired and auto-reloads, then calls the handler of each timer that fired and has one; both from
  timer 3 down to timer 0, each at most once.
\<close>

theorem timerISR_dispatch:
  "soc_trace (timerISR s) = soc_trace s
     @ [Wr (TimerGroup 0 int_clr_timers) (rd (TimerGroup 0 int_st_timers) s),
        Wr (TimerGroup 1 int_clr_timers) (rd (TimerGroup 1 int_st_timers) s)]
     @ map (\<lambda>i. Wr (Timer i tconfig) (bf_put alarm_en 1 (rd (Timer i tconfig) s)))
         (filter (\<lambda>i. pending s i \<and> bit (rd (Timer i tconfig) s) 29) [3, 2, 1, 0])
     @ map (\<lambda>i. Ext (CallFn (timerInterruptHandlers s ! i)))
         (filter (\<lambda>i. pending s i \<and> timerInterruptHandlers s ! i \<noteq> NULL) [3, 2, 1, 0])"
proof -
  define s0 s1 where "s0 = rd (TimerGroup 0 int_st_timers) s" and "s1 = rd (TimerGroup 1 int_st_timers) s"
  define st :: u8 where "st = ucast (push_bit 2 (s1 AND 3) OR (s0 AND 3))"
  define t where "t = wr (TimerGroup 1 int_clr_timers) s1 (wr (TimerGroup 0 int_clr_timers) s0 s)"
  have idx: "rev [0..<4] = [3, 2, 1, 0::nat]"
    by (simp add: upt_rec)
  have isr: "timerISR s = fold (timer_callback st) [3, 2, 1, 0] (fold (timer_rearm st) [3, 2, 1, 0] t)"
    unfolding timerISR_def Let_def idx t_def st_def s0_def s1_def ..
  have pend: "st AND push_bit i 1 \<noteq> 0 \<longleftrightarrow> pending s i" if "i \<in> set [3, 2, 1, 0]" for i
    using that status_bit [of i s1 s0]
    by (auto simp: st_def pending_def s0_def s1_def simp del: push_bit_of_1 push_bit_numeral)
  have cfg: "rd (Timer i tconfig) t = rd (Timer i tconfig) s" for i
    by (simp add: t_def)
  have f1: "filter (\<lambda>i. st AND push_bit i 1 \<noteq> 0 \<and> getf (Timer i tconfig) autoreload_f t \<noteq> 0) [3, 2, 1, 0] =
      filter (\<lambda>i. pending s i \<and> bit (rd (Timer i tconfig) s) 29) [3, 2, 1, 0]"
    by (rule filter_cong) (simp_all only: pend autoreload_f_def getf_flag cfg)
  have f2: "filter (\<lambda>i. timerInterruptHandlers s ! i \<noteq> NULL \<and> st AND push_bit i 1 \<noteq> 0) [3, 2, 1, 0] =
      filter (\<lambda>i. pending s i \<and> timerInterruptHandlers s ! i \<noteq> NULL) [3, 2, 1, 0]"
    by (rule filter_cong) (simp_all only: pend conj_commute)
  have h: "timerInterruptHandlers t = timerInterruptHandlers s"
    and tr: "soc_trace t = soc_trace s @ [Wr (TimerGroup 0 int_clr_timers) s0, Wr (TimerGroup 1 int_clr_timers) s1]"
    by (simp_all add: t_def)
  have "\<forall>i \<in> set [3, 2, 1, 0 :: nat]. i < 4" and "distinct [3, 2, 1, 0 :: nat]"
    by simp_all
  from fold_rearm [OF this, of st t] show ?thesis
    unfolding isr fold_callback f1 h cfg
    by (simp only: f2 tr s0_def s1_def append.assoc)
qed

text \<open>
  \<open>timerBegin\<close> refuses exactly the numbers above 3, touching nothing; otherwise the timer runs,
  with the clamped divider and the direction asked for, no auto-reload, no alarm, no interrupt of
  either kind, no handler, and a counter loaded with 0.
\<close>

theorem timerBegin_state:
  assumes "length (timerInterruptHandlers s) = 4" and "timerBegin ie num d up s = (r, s')"
  shows "if 3 < num then r = None \<and> s' = s
    else r = Some (hw_timer ! num)
      \<and> timerStarted (hw_timer ! num) s' \<and> timerGetCountUp (hw_timer ! num) s' = up
      \<and> timerGetDivider (hw_timer ! num) s' = (if d = 0 then 65535 else if d = 1 then 2 else d)
      \<and> \<not> timerGetAutoReload (hw_timer ! num) s' \<and> \<not> timerAlarmEnabled (hw_timer ! num) s'
      \<and> getf (Timer num tconfig) level_int_en s' = 0 \<and> getf (Timer num tconfig) edge_int_en s' = 0
      \<and> \<not> bit (rd (TimerGroup (num div 2) int_ena_timers) s') (num mod 2)
      \<and> timerInterruptHandlers s' ! num = NULL
      \<and> rd (Timer num load_high) s' = 0 \<and> rd (Timer num load_low) s' = 0"
proof (cases "3 < num")
  case True
  with assms(2) show ?thesis
    by (simp add: timerBegin_def)
next
  case False
  then have n: "num < 4" by simp
  let ?t = "hw_timer ! num" and ?c = "Timer num tconfig"
  define s1 where "s1 = setf ?c enable_f 0 (timer_clock ?t s)"
  define s2 where "s2 = timerSetAutoReload ?t False (timerSetCountUp ?t up (timerSetDivider ?t d s1))"
  define s3 where "s3 = timerAttachInterrupt ie ?t NULL False s2"
  have len: "length (timerInterruptHandlers s2) = 4"
    using assms(1)
    by (simp add: s2_def s1_def timer_clock_def timerSetAutoReload_def timerSetCountUp_def
        timerSetDivider_def Let_def)
  have r: "r = Some ?t" and s': "s' = setf ?c enable_f 1 (timerWrite ?t 0 s3)"
    using assms(2) n by (simp_all add: timerBegin_def Let_def s1_def s2_def s3_def hw_timer_nth)
  have cfg: "rd ?c s' = bf_put enable_f 1 (rd ?c s3)"
    by (simp add: s' timerWrite_def hw_timer_nth [OF n])
  have cfg2: "rd ?c s2 = bf_put autoreload_f 0 (bf_put increase_f (of_flag up) (rd ?c (timerSetDivider ?t d s1)))"
    by (simp add: s2_def timerSetAutoReload_def timerSetCountUp_def hw_timer_nth [OF n])
  have ena: "rd (TimerGroup g int_ena_timers) s' = rd (TimerGroup g int_ena_timers) s3" for g
    by (simp add: s' timerWrite_def hw_timer_nth [OF n])
  have hdl: "timerInterruptHandlers s' = timerInterruptHandlers s3"
    by (simp add: s' timerWrite_def)
  have loads: "rd (Timer num load_high) s' = 0" "rd (Timer num load_low) s' = 0"
    by (simp_all add: s' timerWrite_def hw_timer_nth [OF n])
  note eff = detach_effect [OF n len, of ie False, folded s3_def]
  have div: "timerGetDivider ?t s' = timerGetDivider ?t (timerSetDivider ?t d s1)"
    by (simp add: timerGetDivider_def getf_def hw_timer_nth [OF n] cfg eff(1) cfg2
        bf_get_put_other bf_disjoint_def tconfig_fields)
  have "timerGetDivider ?t (timerSetDivider ?t d s1) = (if d = 0 then 65535 else if d = 1 then 2 else d)"
    by (rule timerGetDivider_set)
  with False div loads eff(2) len show ?thesis
    unfolding timer_flags hw_timer_nth [OF n] getf_def cfg eff(1) cfg2 r ena hdl eff(3)
    by (simp add: bits tconfig_fields n bf_get_put_other bf_get_put_same bf_disjoint_def)
qed

definition timer_ex :: timer_soc where
  "timer_ex = timer_boot \<lparr>soc_regs = \<lambda>_. 0xFFFFFFFF, soc_trace = []\<rparr>"

definition intr_ex :: intr_env where
  "intr_ex = \<lparr>ie_handle = 5, ie_cpu = 1, ie_intno = 7\<rparr>"

theorem timerBegin_state_witness:
  "timerGetDivider (hw_timer ! 2) (snd (timerBegin intr_ex 2 80 True timer_ex)) = 80
    \<and> \<not> bit (rd (TimerGroup 1 int_ena_timers) (snd (timerBegin intr_ex 2 80 True timer_ex))) 0"
  using timerBegin_state [of timer_ex intr_ex 2 80 True "fst (timerBegin intr_ex 2 80 True timer_ex)"
      "snd (timerBegin intr_ex 2 80 True timer_ex)"]
  by (simp add: timer_ex_def timer_boot_def soc.defs)

text \<open>
  C22: the timers are independent: whatever operations are done on other timers, a timer keeps all its
  registers, its interrupt-enable bit in the group's shared register, and its handler.
\<close>

theorem timer_isolation:
  assumes "\<forall>(n, op) \<in> set ops. n < 4 \<and> n \<noteq> m"
  shows "rd (Timer m r) (fold (\<lambda>(n, op). timer_step ie n op) ops s) = rd (Timer m r) s
    \<and> bit (rd (TimerGroup (m div 2) int_ena_timers) (fold (\<lambda>(n, op). timer_step ie n op) ops s)) (m mod 2)
      = bit (rd (TimerGroup (m div 2) int_ena_timers) s) (m mod 2)
    \<and> timerInterruptHandlers (fold (\<lambda>(n, op). timer_step ie n op) ops s) ! m =
      timerInterruptHandlers s ! m"
proof -
  have "same_timer m s (fold (\<lambda>(n, op). timer_step ie n op) ops s)"
    using assms
  proof (induction ops arbitrary: s)
    case (Cons nop ops)
    obtain n op where nop: "nop = (n, op)" by (cases nop)
    have "same_timer m s (timer_step ie n op s)"
      using Cons.prems by (intro same_timer_step) (auto simp: nop)
    moreover have "same_timer m (timer_step ie n op s)
        (fold (\<lambda>(n, op). timer_step ie n op) ops (timer_step ie n op s))"
      using Cons.prems by (intro Cons.IH) simp
    ultimately show ?case
      unfolding nop by simp (rule same_timer_trans)
  qed simp
  then show ?thesis
    by (simp add: same_timer_def)
qed

theorem timer_isolation_witness:
  "timerInterruptHandlers (timer_step intr_ex 2 TEnd (timer_step intr_ex 3 (TAttach 9 True) timer_ex)) ! 1
     = NULL"
  using timer_isolation [of "[(3, TAttach 9 True), (2, TEnd)]" 1 _ intr_ex timer_ex]
  by (simp add: timer_ex_def timer_boot_def soc.defs)

end
