(* ===== verification/Ledc.thy ===== *)
theory Ledc
  imports Gpio
begin

text \<open>
  \<^verbatim>\<open>esp32-hal-ledc.c\<close>: sixteen PWM channels in two groups of eight; each pair of channels shares one
  of four timers per group. The mutex exists only after the first timer was set up: taking it before
  that is a call of \<^verbatim>\<open>xSemaphoreTake\<close> on NULL, the outcome \<open>None\<close>.

  Frequencies are C doubles. The code divides an integer clock by the frequency and truncates; that
  quotient is the parameter \<open>quot\<close>, a function of the clock. A frequency returned is given as the pair
  of integers the code divides.
\<close>

section \<open>State and registers\<close>

record ledc_soc = soc +
  ledc_tHasStarted :: bool
  ledc_lock_created :: bool

definition ledc_boot :: "soc \<Rightarrow> ledc_soc" where
  "ledc_boot s = soc.extend s \<lparr>ledc_tHasStarted = False, ledc_lock_created = False\<rparr>"

definition lc_timer_sel :: bfield where "lc_timer_sel = (0, 2)"
definition lc_sig_out_en :: bfield where "lc_sig_out_en = (2, 1)"
definition lc_idle_lv :: bfield where "lc_idle_lv = (3, 1)"
definition lc_clk_en :: bfield where "lc_clk_en = (31, 1)"
definition lc_hpoint :: bfield where "lc_hpoint = (0, 20)"
definition lc_duty :: bfield where "lc_duty = (0, 25)"
definition lc_duty_scale :: bfield where "lc_duty_scale = (0, 10)"
definition lc_duty_cycle :: bfield where "lc_duty_cycle = (10, 10)"
definition lc_duty_num :: bfield where "lc_duty_num = (20, 10)"
definition lc_duty_inc :: bfield where "lc_duty_inc = (30, 1)"
definition lc_duty_start :: bfield where "lc_duty_start = (31, 1)"
definition lt_duty_resolution :: bfield where "lt_duty_resolution = (0, 5)"
definition lt_clock_divider :: bfield where "lt_clock_divider = (5, 18)"
definition lt_pause :: bfield where "lt_pause = (23, 1)"
definition lt_rst :: bfield where "lt_rst = (24, 1)"
definition lt_tick_sel :: bfield where "lt_tick_sel = (25, 1)"
definition lt_low_speed_update :: bfield where "lt_low_speed_update = (26, 1)"
definition l_apb_clk_sel :: bfield where "l_apb_clk_sel = (0, 1)"

lemmas ledc_fields =
  lc_timer_sel_def lc_sig_out_en_def lc_idle_lv_def lc_clk_en_def lc_hpoint_def lc_duty_def
  lc_duty_scale_def lc_duty_cycle_def lc_duty_num_def lc_duty_inc_def lc_duty_start_def
  lt_duty_resolution_def lt_clock_divider_def lt_pause_def lt_rst_def lt_tick_sel_def
  lt_low_speed_update_def l_apb_clk_sel_def

definition DPORT_LEDC_CLK_EN :: u32 where "DPORT_LEDC_CLK_EN = BIT 11"
definition DPORT_LEDC_RST :: u32 where "DPORT_LEDC_RST = BIT 11"
definition LEDC_DIV_NUM_HSTIMER0_V :: u32 where "LEDC_DIV_NUM_HSTIMER0_V = 0x3FFFF"
definition LEDC_HS_SIG_OUT0_IDX :: nat where "LEDC_HS_SIG_OUT0_IDX = 71"
definition LEDC_LS_SIG_OUT0_IDX :: nat where "LEDC_LS_SIG_OUT0_IDX = 79"
definition APB_CLK_FREQ :: nat where "APB_CLK_FREQ = 80000000"

text \<open>A critical section: the section's statements between taking and giving the mutex.\<close>

definition ledc_locked :: "(ledc_soc \<Rightarrow> ledc_soc) \<Rightarrow> ledc_soc \<Rightarrow> ledc_soc option" where
  "ledc_locked body s =
     (if ledc_lock_created s
      then Some (ext (SemGive LedcLock) (body (ext (SemTake LedcLock) s)))
      else None)"

section \<open>Timers\<close>

definition ledcSetupTimer :: "nat \<Rightarrow> u32 \<Rightarrow> u8 \<Rightarrow> bool \<Rightarrow> ledc_soc \<Rightarrow> ledc_soc option" where
  "ledcSetupTimer chan div_num bit_num apb_clk s =
     (let group = chan div 8; timer = (chan div 2) mod 4; r = LedcTimer group timer;
          s = (if \<not> ledc_tHasStarted s
               then let s = s\<lparr>ledc_tHasStarted := True\<rparr>;
                        s = set_peri_reg_mask DPORT_PERIP_CLK_EN_REG DPORT_LEDC_CLK_EN s;
                        s = clear_peri_reg_mask DPORT_PERIP_RST_EN_REG DPORT_LEDC_RST s;
                        s = setf LedcConf l_apb_clk_sel 1 s
                    in s\<lparr>ledc_lock_created := True\<rparr>
               else s)
      in ledc_locked
           (exec
             [setf r lt_clock_divider div_num,
              setf r lt_duty_resolution (ucast bit_num),
              setf r lt_tick_sel (of_flag apb_clk),
              (if group \<noteq> 0 then setf r lt_low_speed_update 1 else id),
              setf r lt_pause 0,
              setf r lt_rst 1,
              setf r lt_rst 0]) s)"

definition ledc_div :: "(nat \<Rightarrow> u32) \<Rightarrow> u8 \<Rightarrow> u32 \<times> bool \<times> nat" where
  "ledc_div quot bit_num =
     (let clk_freq = APB_CLK_FREQ * 2 ^ 8;
          div_num = quot (clk_freq div 2 ^ unat bit_num)
      in
      if LEDC_DIV_NUM_HSTIMER0_V < div_num then
        let clk_freq = clk_freq div 80;
            div_num = quot (clk_freq div 2 ^ unat bit_num);
            div_num = (if LEDC_DIV_NUM_HSTIMER0_V < div_num then LEDC_DIV_NUM_HSTIMER0_V else div_num)
        in (div_num, False, clk_freq)
      else if div_num < 256 then (256, True, clk_freq)
      else (div_num, True, clk_freq))"

definition ledcSetupTimerFreq ::
  "(nat \<Rightarrow> u32) \<Rightarrow> nat \<Rightarrow> u8 \<Rightarrow> ledc_soc \<Rightarrow> ((nat \<times> nat) \<times> ledc_soc) option" where
  "ledcSetupTimerFreq quot chan bit_num s =
     (let (div_num, apb_clk, clk_freq) = ledc_div quot bit_num in
      case ledcSetupTimer chan div_num bit_num apb_clk s of
        None \<Rightarrow> None
      | Some s \<Rightarrow> Some ((clk_freq div 2 ^ unat bit_num, unat div_num), s))"

definition ledcTimerRead :: "nat \<Rightarrow> ledc_soc \<Rightarrow> ((nat \<times> nat) \<times> ledc_soc) option" where
  "ledcTimerRead chan s =
     (let group = chan div 8; timer = (chan div 2) mod 4; r = LedcTimer group timer in
      case ledc_locked id s of
        None \<Rightarrow> None
      | Some t \<Rightarrow>
          let div_num = getf r lt_clock_divider s;
              bit_num = getf r lt_duty_resolution s;
              apb_clk = getf r lt_tick_sel s \<noteq> 0;
              clk_freq = (if apb_clk then 1000000 * 80 else 1000000) * 2 ^ 8
          in Some ((clk_freq div 2 ^ unat bit_num, unat div_num), t))"

section \<open>Channels\<close>

definition ledcSetupChannel :: "nat \<Rightarrow> u8 \<Rightarrow> ledc_soc \<Rightarrow> ledc_soc option" where
  "ledcSetupChannel chan idle_level s =
     (let group = chan div 8; channel = chan mod 8; timer = (chan div 2) mod 4;
          conf0 = LedcChan group channel lconf0; conf1 = LedcChan group channel lconf1
      in ledc_locked
           (exec
             [setf conf0 lc_timer_sel (of_nat timer),
              setf conf0 lc_idle_lv (ucast idle_level),
              setf (LedcChan group channel lhpoint) lc_hpoint 0,
              setf conf1 lc_duty_inc 1,
              setf conf1 lc_duty_num 1,
              setf conf1 lc_duty_cycle 1,
              setf conf1 lc_duty_scale 0,
              setf (LedcChan group channel lduty) lc_duty 0,
              setf conf0 lc_sig_out_en 0,
              setf conf1 lc_duty_start 0,
              (if group \<noteq> 0 then clear_peri_reg_mask conf0 (BIT 4) else setf conf0 lc_clk_en 0)]) s)"

definition ledcSetup ::
  "(nat \<Rightarrow> u32) \<Rightarrow> nat \<Rightarrow> u8 \<Rightarrow> ledc_soc \<Rightarrow> ((nat \<times> nat) option \<times> ledc_soc) option" where
  "ledcSetup quot chan bit_num s =
     (if 15 < chan then Some (None, s)
      else
        case ledcSetupTimerFreq quot chan bit_num s of
          None \<Rightarrow> None
        | Some (res_freq, s) \<Rightarrow>
            (case ledcSetupChannel chan 0 s of
               None \<Rightarrow> None
             | Some s \<Rightarrow> Some (Some res_freq, s)))"

definition ledcWrite :: "nat \<Rightarrow> u32 \<Rightarrow> ledc_soc \<Rightarrow> ledc_soc option" where
  "ledcWrite chan duty s =
     (if 15 < chan then Some s
      else
        let group = chan div 8; channel = chan mod 8;
            conf0 = LedcChan group channel lconf0; conf1 = LedcChan group channel lconf1
        in ledc_locked
             (exec
               (setf (LedcChan group channel lduty) lc_duty (push_bit 4 duty) #
                (if duty \<noteq> 0 then
                   [setf conf0 lc_sig_out_en 1,
                    setf conf1 lc_duty_start 1,
                    (if group \<noteq> 0 then set_peri_reg_mask conf0 (BIT 4) else setf conf0 lc_clk_en 1)]
                 else
                   [setf conf0 lc_sig_out_en 0,
                    setf conf1 lc_duty_start 0,
                    (if group \<noteq> 0 then clear_peri_reg_mask conf0 (BIT 4) else setf conf0 lc_clk_en 0)]))) s)"

definition ledcRead :: "nat \<Rightarrow> 'a soc_scheme \<Rightarrow> u32" where
  "ledcRead chan s =
     (if 15 < chan then 0
      else drop_bit 4 (getf (LedcChan (chan div 8) (chan mod 8) lduty) lc_duty s))"

definition ledcReadFreq :: "nat \<Rightarrow> ledc_soc \<Rightarrow> ((nat \<times> nat) option \<times> ledc_soc) option" where
  "ledcReadFreq chan s =
     (if ledcRead chan s = 0 then Some (None, s)
      else map_option (\<lambda>(f, s). (Some f, s)) (ledcTimerRead chan s))"

text \<open>\<open>freq\<close> is \<open>None\<close> for the frequency 0 and gives the quotients otherwise.\<close>

definition ledcWriteTone ::
  "nat \<Rightarrow> (nat \<Rightarrow> u32) option \<Rightarrow> ledc_soc \<Rightarrow> ((nat \<times> nat) option \<times> ledc_soc) option" where
  "ledcWriteTone chan freq s =
     (if 15 < chan then Some (None, s)
      else
        case freq of
          None \<Rightarrow> map_option (\<lambda>s. (None, s)) (ledcWrite chan 0 s)
        | Some quot \<Rightarrow>
            (case ledcSetupTimerFreq quot chan 10 s of
               None \<Rightarrow> None
             | Some (res_freq, s) \<Rightarrow> map_option (\<lambda>s. (Some res_freq, s)) (ledcWrite chan 0x1FF s)))"

definition noteFrequencyBase :: "nat list" where
  "noteFrequencyBase =
     [4186, 4435, 4699, 4978, 5274, 5588, 5920, 6272, 6645, 7040, 7459, 7902]"

text \<open>\<open>quot_of b k\<close> are the quotients for the frequency \<open>b / 2 ^ k\<close>.\<close>

definition ledcWriteNote ::
  "(nat \<Rightarrow> nat \<Rightarrow> nat \<Rightarrow> u32) \<Rightarrow> nat \<Rightarrow> nat \<Rightarrow> nat \<Rightarrow> ledc_soc
     \<Rightarrow> ((nat \<times> nat) option \<times> ledc_soc) option" where
  "ledcWriteNote quot_of chan note octave s =
     (if 8 < octave \<or> 12 \<le> note then Some (None, s)
      else ledcWriteTone chan (Some (quot_of (noteFrequencyBase ! note) (8 - octave))) s)"

definition ledcAttachPin ::
  "(nat \<Rightarrow> rtc_gpio_desc_t) \<Rightarrow> u8 \<Rightarrow> nat \<Rightarrow> 'a soc_scheme \<Rightarrow> 'a soc_scheme" where
  "ledcAttachPin desc pin chan s =
     (if 15 < chan then s
      else exec
        [pinMode desc (unat pin) OUTPUT,
         pinMatrixOutAttach pin
           (of_nat ((if chan div 8 \<noteq> 0 then LEDC_LS_SIG_OUT0_IDX else LEDC_HS_SIG_OUT0_IDX) + chan mod 8))
           False False] s)"

definition ledcDetachPin :: "u8 \<Rightarrow> 'a soc_scheme \<Rightarrow> 'a soc_scheme" where
  "ledcDetachPin pin = pinMatrixOutDetach pin False False"

section \<open>Lemmas\<close>

lemma ledc_vars [simp]:
  "ledc_lock_created (wr r v s) = ledc_lock_created s"
  "ledc_lock_created (ext c s) = ledc_lock_created s"
  "ledc_tHasStarted (wr r v s) = ledc_tHasStarted s"
  "ledc_tHasStarted (ext c s) = ledc_tHasStarted s"
  by (simp_all add: wr_def ext_def)

lemma ledc_vars_ops [simp]:
  "ledc_lock_created (setf r f v s) = ledc_lock_created s"
  "ledc_lock_created (set_peri_reg_mask r m s) = ledc_lock_created s"
  "ledc_lock_created (clear_peri_reg_mask r m s) = ledc_lock_created s"
  by (simp_all add: reg_ops)

lemma rd_ledc_vars [simp]:
  "rd r (s\<lparr>ledc_tHasStarted := b\<rparr>) = rd r s"
  "rd r (s\<lparr>ledc_lock_created := b\<rparr>) = rd r s"
  "held l (s\<lparr>ledc_tHasStarted := b\<rparr>) = held l s"
  "held l (s\<lparr>ledc_lock_created := b\<rparr>) = held l s"
  by (simp_all add: rd_def held_def)

lemma ledc_locked_eq:
  "ledc_locked body s = Some t \<longleftrightarrow>
     ledc_lock_created s \<and> t = ext (SemGive LedcLock) (body (ext (SemTake LedcLock) s))"
  by (auto simp: ledc_locked_def)

text \<open>The registers of different channels are different.\<close>

lemma chan_eq_iff: "c div 8 = d div 8 \<and> c mod 8 = d mod 8 \<longleftrightarrow> c = (d :: nat)"
  by (metis div_mult_mod_eq)

lemma duty_shift: "drop_bit 4 (take_bit 25 (push_bit 4 d)) = take_bit 21 (d :: u32)"
  by (rule bit_word_eqI) (auto simp: bit_simps)

lemma ledc_div_bound: "fst (ledc_div quot b) \<le> 0x3FFFF"
  by (auto simp: ledc_div_def Let_def LEDC_DIV_NUM_HSTIMER0_V_def not_less)

lemma ledcSetupTimer_ok:
  assumes "ledc_tHasStarted s \<longrightarrow> ledc_lock_created s"
  shows "\<exists>t. ledcSetupTimer chan dv b apb s = Some t
    \<and> ledc_lock_created t
    \<and> held l t = held l s
    \<and> getf (LedcTimer (chan div 8) (chan div 2 mod 4)) lt_clock_divider t = take_bit 18 dv
    \<and> getf (LedcTimer (chan div 8) (chan div 2 mod 4)) lt_duty_resolution t = take_bit 5 (ucast b)
    \<and> getf (LedcTimer (chan div 8) (chan div 2 mod 4)) lt_tick_sel t = of_flag apb
    \<and> (\<forall>g c r. rd (LedcChan g c r) t = rd (LedcChan g c r) s)
    \<and> (\<forall>g k. (g, k) \<noteq> (chan div 8, chan div 2 mod 4) \<longrightarrow> rd (LedcTimer g k) t = rd (LedcTimer g k) s)"
proof -
  define s1 where "s1 = (if \<not> ledc_tHasStarted s
      then (setf LedcConf l_apb_clk_sel 1
             (clear_peri_reg_mask DPORT_PERIP_RST_EN_REG DPORT_LEDC_RST
               (set_peri_reg_mask DPORT_PERIP_CLK_EN_REG DPORT_LEDC_CLK_EN
                 (s\<lparr>ledc_tHasStarted := True\<rparr>))))\<lparr>ledc_lock_created := True\<rparr>
      else s)"
  define r where "r = LedcTimer (chan div 8) (chan div 2 mod 4)"
  define t where "t = ext (SemGive LedcLock) (exec
      [setf r lt_clock_divider dv, setf r lt_duty_resolution (ucast b), setf r lt_tick_sel (of_flag apb),
       (if chan div 8 \<noteq> 0 then setf r lt_low_speed_update 1 else id),
       setf r lt_pause 0, setf r lt_rst 1, setf r lt_rst 0] (ext (SemTake LedcLock) s1))"
  have created: "ledc_lock_created s1"
    using assms by (simp add: s1_def)
  have s1: "rd (LedcChan g c q) s1 = rd (LedcChan g c q) s" "rd (LedcTimer g k) s1 = rd (LedcTimer g k) s"
      "held l s1 = held l s" for g c q k l
    by (simp_all add: s1_def DPORT_PERIP_CLK_EN_REG_def DPORT_PERIP_RST_EN_REG_def)
  have "ledcSetupTimer chan dv b apb s = ledc_locked (exec
      [setf r lt_clock_divider dv, setf r lt_duty_resolution (ucast b), setf r lt_tick_sel (of_flag apb),
       (if chan div 8 \<noteq> 0 then setf r lt_low_speed_update 1 else id),
       setf r lt_pause 0, setf r lt_rst 1, setf r lt_rst 0]) s1"
    unfolding ledcSetupTimer_def Let_def s1_def r_def ..
  then have "ledcSetupTimer chan dv b apb s = Some t"
    using created by (simp only: ledc_locked_eq t_def simp_thms)
  moreover have "ledc_lock_created t" "held l t = held l s" for l
    using created s1 by (simp_all add: t_def)
  moreover have "getf r lt_clock_divider t = take_bit 18 dv"
    and "getf r lt_duty_resolution t = take_bit 5 (ucast b)"
    and "getf r lt_tick_sel t = of_flag apb"
    by (simp_all add: t_def getf_steps ledc_fields bf_get_put_same bf_get_put_other bf_disjoint_def
        take_bit_of_flag)
  moreover have "rd (LedcChan g c q) t = rd (LedcChan g c q) s" for g c q
    using s1 by (simp add: t_def r_def)
  moreover have "rd (LedcTimer g k) t = rd (LedcTimer g k) s"
    if "(g, k) \<noteq> (chan div 8, chan div 2 mod 4)" for g k
    using that s1 by (auto simp: t_def r_def)
  ultimately show ?thesis
    unfolding r_def by (intro exI [of _ t]) blast
qed

lemma ledcSetupChannel_ok:
  assumes "ledc_lock_created s"
  shows "\<exists>t. ledcSetupChannel chan idle s = Some t
    \<and> ledc_lock_created t
    \<and> held l t = held l s
    \<and> getf (LedcChan (chan div 8) (chan mod 8) lconf0) lc_timer_sel t = take_bit 2 (of_nat (chan div 2 mod 4))
    \<and> \<not> bit (rd (LedcChan (chan div 8) (chan mod 8) lconf0) t) 2
    \<and> ledcRead chan t = 0
    \<and> (\<forall>g k. rd (LedcTimer g k) t = rd (LedcTimer g k) s)
    \<and> (\<forall>g c r. (g, c) \<noteq> (chan div 8, chan mod 8) \<longrightarrow> rd (LedcChan g c r) t = rd (LedcChan g c r) s)"
proof -
  define conf0 conf1 where "conf0 = LedcChan (chan div 8) (chan mod 8) lconf0"
    and "conf1 = LedcChan (chan div 8) (chan mod 8) lconf1"
  define body :: "(ledc_soc \<Rightarrow> ledc_soc) list" where "body = [setf conf0 lc_timer_sel (of_nat (chan div 2 mod 4)),
      setf conf0 lc_idle_lv (ucast idle),
      setf (LedcChan (chan div 8) (chan mod 8) lhpoint) lc_hpoint 0,
      setf conf1 lc_duty_inc 1, setf conf1 lc_duty_num 1, setf conf1 lc_duty_cycle 1,
      setf conf1 lc_duty_scale 0, setf (LedcChan (chan div 8) (chan mod 8) lduty) lc_duty 0,
      setf conf0 lc_sig_out_en 0, setf conf1 lc_duty_start (0 :: u32),
      (if chan div 8 \<noteq> 0 then clear_peri_reg_mask conf0 (BIT 4) else setf conf0 lc_clk_en (0 :: u32))]"
  define t where "t = ext (SemGive LedcLock) (exec body (ext (SemTake LedcLock) s))"
  have a1: "ledcSetupChannel chan idle s = Some t"
    using assms
    by (simp add: ledcSetupChannel_def Let_def ledc_locked_eq t_def body_def conf0_def conf1_def)
  have a2: "ledc_lock_created t" "held l t = held l s" for l
    using assms by (simp_all add: t_def body_def)
  have a3: "getf conf0 lc_timer_sel t = take_bit 2 (of_nat (chan div 2 mod 4))"
    by (simp add: t_def body_def conf0_def conf1_def getf_steps ledc_fields bf_get_put_same
        bf_get_put_other bf_get_BIT bf_disjoint_def)
  have a4: "\<not> bit (rd conf0 t) 2"
    unfolding getf_flag [symmetric]
    by (simp add: t_def body_def conf0_def conf1_def getf_steps ledc_fields bf_get_put_same
        bf_get_put_other bf_get_BIT bf_disjoint_def)
  have a5: "ledcRead chan t = 0"
    by (simp add: t_def body_def ledcRead_def getf_steps conf0_def conf1_def ledc_fields bf_get_put_same)
  have a6: "rd (LedcTimer g k) t = rd (LedcTimer g k) s" for g k
    by (simp add: t_def body_def conf0_def conf1_def)
  have a7: "rd (LedcChan g c q) t = rd (LedcChan g c q) s"
    if "(g, c) \<noteq> (chan div 8, chan mod 8)" for g c q
  proof -
    have "LedcChan g c q \<noteq> LedcChan (chan div 8) (chan mod 8) q'" for q'
      using that by auto
    then have "rd (LedcChan g c q) (exec body s') = rd (LedcChan g c q) s'" for s'
      by (intro rd_exec_other)
        (auto simp: body_def conf0_def conf1_def simp del: reg.inject split: if_splits)
    then show ?thesis
      by (simp add: t_def)
  qed
  show ?thesis
    by (intro exI [of _ t] conjI allI impI)
      (rule a1 a2 a3 [unfolded conf0_def] a4 [unfolded conf0_def] a5 a6 a7 | assumption)+
qed

lemma ledcWrite_ok:
  assumes "chan \<le> 15" and "ledc_lock_created s"
  shows "\<exists>t. ledcWrite chan duty s = Some t
    \<and> held l t = held l s
    \<and> ledcRead chan t = take_bit 21 duty
    \<and> (bit (rd (LedcChan (chan div 8) (chan mod 8) lconf0) t) 2 \<longleftrightarrow> duty \<noteq> 0)
    \<and> (\<forall>g k. rd (LedcTimer g k) t = rd (LedcTimer g k) s)
    \<and> (\<forall>g c r. (g, c) \<noteq> (chan div 8, chan mod 8) \<longrightarrow> rd (LedcChan g c r) t = rd (LedcChan g c r) s)"
proof -
  define conf0 conf1 where "conf0 = LedcChan (chan div 8) (chan mod 8) lconf0"
    and "conf1 = LedcChan (chan div 8) (chan mod 8) lconf1"
  define body :: "(ledc_soc \<Rightarrow> ledc_soc) list" where
    "body = setf (LedcChan (chan div 8) (chan mod 8) lduty) lc_duty (push_bit 4 duty) #
      (if duty \<noteq> 0 then
         [setf conf0 lc_sig_out_en 1, setf conf1 lc_duty_start 1,
          (if chan div 8 \<noteq> 0 then set_peri_reg_mask conf0 (BIT 4) else setf conf0 lc_clk_en 1)]
       else
         [setf conf0 lc_sig_out_en 0, setf conf1 lc_duty_start 0,
          (if chan div 8 \<noteq> 0 then clear_peri_reg_mask conf0 (BIT 4) else setf conf0 lc_clk_en 0)])"
  define t where "t = ext (SemGive LedcLock) (exec body (ext (SemTake LedcLock) s))"
  have "ledcWrite chan duty s = ledc_locked (exec body) s"
    unfolding ledcWrite_def Let_def body_def conf0_def conf1_def using assms(1) by simp
  then have "ledcWrite chan duty s = Some t"
    using assms(2) by (simp add: ledc_locked_eq t_def)
  moreover have "held l t = held l s" for l
    by (simp add: t_def body_def)
  moreover have "ledcRead chan t = take_bit 21 duty"
    using assms(1)
    by (simp add: t_def body_def ledcRead_def getf_steps conf0_def conf1_def ledc_fields bf_get_put_same
        duty_shift)
  moreover have "bit (rd conf0 t) 2 \<longleftrightarrow> duty \<noteq> 0"
    by (simp add: t_def body_def conf0_def conf1_def bits bit_and_iff bit_or_iff bit_not_iff ledc_fields)
  moreover have "rd (LedcTimer g k) t = rd (LedcTimer g k) s" for g k
    by (simp add: t_def body_def conf0_def conf1_def)
  moreover have "rd (LedcChan g c q) t = rd (LedcChan g c q) s"
    if "(g, c) \<noteq> (chan div 8, chan mod 8)" for g c q
  proof -
    have "LedcChan g c q \<noteq> LedcChan (chan div 8) (chan mod 8) q'" for q'
      using that by auto
    then have "rd (LedcChan g c q) (exec body s') = rd (LedcChan g c q) s'" for s'
      by (intro rd_exec_other)
        (auto simp: body_def conf0_def conf1_def simp del: reg.inject split: if_splits)
    then show ?thesis
      by (simp add: t_def)
  qed
  ultimately show ?thesis
    unfolding conf0_def by (intro exI [of _ t]) blast
qed

lemma ledcRead_frame:
  assumes "\<And>g c r. (g, c) \<noteq> (chan div 8, chan mod 8) \<Longrightarrow> rd (LedcChan g c r) t = rd (LedcChan g c r) s"
    and "c \<noteq> chan"
  shows "ledcRead c t = ledcRead c s"
  using assms(1) [of "c div 8" "c mod 8" lduty] assms(2) chan_eq_iff [of c chan]
  by (auto simp: ledcRead_def getf_def)

lemma ledcTimerRead_eq:
  assumes "ledc_lock_created s" and "unat b < 32" and "dv \<le> 0x3FFFF"
    and "getf (LedcTimer (chan div 8) (chan div 2 mod 4)) lt_clock_divider s = take_bit 18 dv"
    and "getf (LedcTimer (chan div 8) (chan div 2 mod 4)) lt_duty_resolution s = take_bit 5 (ucast b)"
    and "getf (LedcTimer (chan div 8) (chan div 2 mod 4)) lt_tick_sel s = of_flag apb"
  shows "\<exists>u. ledcTimerRead chan s =
    Some (((if apb then 80000000 else 1000000) * 256 div 2 ^ unat b, unat dv), u)"
proof -
  have "unat dv \<le> 0x3FFFF"
    using assms(3) by (simp add: word_le_nat_alt)
  then have dv: "unat (take_bit 18 dv) = unat dv"
    by (simp add: unsigned_take_bit_eq take_bit_nat_eq_self)
  have b: "unat (take_bit 5 (ucast b :: u32)) = unat b"
    using assms(2) by (simp add: unsigned_take_bit_eq unsigned_ucast_eq take_bit_nat_eq_self)
  show ?thesis
    using assms(1)
    by (simp add: ledcTimerRead_def Let_def ledc_locked_def assms(4-6) dv b)
qed

lemma ledc_div_freq:
  assumes "ledc_div quot b = (dv, apb, clk)"
  shows "clk div 2 ^ unat b = (if apb then 80000000 else 1000000) * 256 div 2 ^ unat b"
    and "dv \<le> 0x3FFFF"
  using assms ledc_div_bound [of quot b]
  by (auto simp: ledc_div_def Let_def APB_CLK_FREQ_def split: if_splits)

section \<open>Properties\<close>

text \<open>
  \<open>ledcWrite\<close> fails exactly when no timer was ever set up (it takes a mutex that does not exist);
  otherwise the channel reads back the low 21 bits of the duty, its output is on exactly for a
  non-zero duty, every other channel reads as before, and the mutex is given back.
\<close>

theorem ledcWrite_effect:
  "case ledcWrite chan duty s of
     None \<Rightarrow> chan \<le> 15 \<and> \<not> ledc_lock_created s
   | Some t \<Rightarrow>
       (if chan \<le> 15
        then ledc_lock_created s \<and> ledcRead chan t = take_bit 21 duty
          \<and> bit (rd (LedcChan (chan div 8) (chan mod 8) lconf0) t) 2 = (duty \<noteq> 0)
          \<and> (\<forall>c. c = chan \<or> ledcRead c t = ledcRead c s)
          \<and> held LedcLock t = held LedcLock s
        else t = s)"
proof (cases "chan \<le> 15 \<and> ledc_lock_created s")
  case True
  obtain t where t: "ledcWrite chan duty s = Some t" "held LedcLock t = held LedcLock s"
      "ledcRead chan t = take_bit 21 duty"
      "bit (rd (LedcChan (chan div 8) (chan mod 8) lconf0) t) 2 \<longleftrightarrow> duty \<noteq> 0"
      "\<forall>g k. rd (LedcTimer g k) t = rd (LedcTimer g k) s"
      "\<forall>g c r. (g, c) \<noteq> (chan div 8, chan mod 8) \<longrightarrow> rd (LedcChan g c r) t = rd (LedcChan g c r) s"
    using ledcWrite_ok [OF conjunct1 [OF True] conjunct2 [OF True], of duty LedcLock] by blast
  have "ledcRead c t = ledcRead c s" if "c \<noteq> chan" for c
    using t(6) that by (intro ledcRead_frame [of chan]) auto
  with True t(1-4) show ?thesis
    by auto
next
  case False
  then show ?thesis
    by (auto simp: ledcWrite_def ledc_locked_def Let_def)
qed

text \<open>
  C34: \<open>ledcSetup\<close> succeeds from every state in which the driver has its mutex if it was ever started.
  It refuses exactly the channels above 15. Otherwise the channel is routed to the timer of its pair,
  with duty 0 and its output off, no other channel is touched, and the frequency read back from the
  channel, and from the other channel of its pair, is the one \<open>ledcSetup\<close> returned.
\<close>

theorem ledcSetup_effect:
  assumes "ledc_tHasStarted s \<longrightarrow> ledc_lock_created s" and "unat bit_num < 32"
  shows "\<exists>f t. ledcSetup quot chan bit_num s = Some (f, t) \<and>
    (if 15 < chan then f = None \<and> t = s
     else ledcRead chan t = 0
       \<and> \<not> bit (rd (LedcChan (chan div 8) (chan mod 8) lconf0) t) 2
       \<and> getf (LedcChan (chan div 8) (chan mod 8) lconf0) lc_timer_sel t = of_nat (chan div 2 mod 4)
       \<and> (\<forall>c. c = chan \<or> ledcRead c t = ledcRead c s)
       \<and> (\<forall>c. c div 2 = chan div 2 \<longrightarrow> (\<exists>g u. f = Some g \<and> ledcTimerRead c t = Some (g, u)))
       \<and> held LedcLock t = held LedcLock s)"
proof (cases "15 < chan")
  case True
  then show ?thesis by (simp add: ledcSetup_def)
next
  case False
  obtain dv apb clk where dv: "ledc_div quot bit_num = (dv, apb, clk)"
    by (cases "ledc_div quot bit_num")
  obtain t1 where t1: "ledcSetupTimer chan dv bit_num apb s = Some t1" "ledc_lock_created t1"
      "held LedcLock t1 = held LedcLock s"
      "getf (LedcTimer (chan div 8) (chan div 2 mod 4)) lt_clock_divider t1 = take_bit 18 dv"
      "getf (LedcTimer (chan div 8) (chan div 2 mod 4)) lt_duty_resolution t1 = take_bit 5 (ucast bit_num)"
      "getf (LedcTimer (chan div 8) (chan div 2 mod 4)) lt_tick_sel t1 = of_flag apb"
      "\<forall>g c r. rd (LedcChan g c r) t1 = rd (LedcChan g c r) s"
      "\<forall>g k. (g, k) \<noteq> (chan div 8, chan div 2 mod 4) \<longrightarrow> rd (LedcTimer g k) t1 = rd (LedcTimer g k) s"
    using ledcSetupTimer_ok [OF assms(1), of chan dv bit_num apb LedcLock] by blast
  obtain t where t: "ledcSetupChannel chan 0 t1 = Some t" "ledc_lock_created t"
      "held LedcLock t = held LedcLock t1"
      "getf (LedcChan (chan div 8) (chan mod 8) lconf0) lc_timer_sel t = take_bit 2 (of_nat (chan div 2 mod 4))"
      "\<not> bit (rd (LedcChan (chan div 8) (chan mod 8) lconf0) t) 2" "ledcRead chan t = 0"
      "\<forall>g k. rd (LedcTimer g k) t = rd (LedcTimer g k) t1"
      "\<forall>g c r. (g, c) \<noteq> (chan div 8, chan mod 8) \<longrightarrow> rd (LedcChan g c r) t = rd (LedcChan g c r) t1"
    using ledcSetupChannel_ok [OF t1(2), of chan 0 LedcLock] by blast
  define f where "f = (clk div 2 ^ unat bit_num, unat dv)"
  have res: "ledcSetup quot chan bit_num s = Some (Some f, t)"
    using False t1(1) t(1) by (simp add: ledcSetup_def ledcSetupTimerFreq_def dv f_def)
  have frame: "ledcRead c t = ledcRead c s" if "c \<noteq> chan" for c
    using t(8) t1(7) that by (intro ledcRead_frame [of chan]) auto
  have sel: "take_bit 2 (of_nat (chan div 2 mod 4) :: u32) = of_nat (chan div 2 mod 4)"
    by (simp add: take_bit_of_nat take_bit_nat_eq_self)
  have timer: "\<exists>u. ledcTimerRead c t = Some (f, u)" if "c div 2 = chan div 2" for c
  proof -
    have "c div 8 = c div 2 div 4" "chan div 8 = chan div 2 div 4"
      by (simp_all add: div_mult2_eq [symmetric])
    with that have "c div 8 = chan div 8"
      by simp
    with that show ?thesis
      using ledcTimerRead_eq [OF t(2) assms(2) ledc_div_freq(2) [OF dv], of c apb] t1(4-6) t(7)
      by (simp add: getf_def f_def ledc_div_freq(1) [OF dv])
  qed
  show ?thesis
    using False res t(3-6) t1(3) frame timer by (cases f) (auto simp: sel)
qed

theorem ledcSetup_effect_witness:
  "\<exists>f t. ledcSetup (\<lambda>n. of_nat (n div 5000)) 3 8 (ledc_boot \<lparr>soc_regs = \<lambda>_. 0xFFFFFFFF, soc_trace = []\<rparr>)
      = Some (Some f, t) \<and> ledcRead 3 t = 0 \<and> (\<exists>u. ledcTimerRead 2 t = Some (f, u))"
proof -
  define s where "s = ledc_boot \<lparr>soc_regs = \<lambda>_. 0xFFFFFFFF, soc_trace = []\<rparr>"
  have "ledc_tHasStarted s \<longrightarrow> ledc_lock_created s"
    by (simp add: s_def ledc_boot_def soc.defs)
  from ledcSetup_effect [OF this, of 8 "\<lambda>n. of_nat (n div 5000)" 3]
  show ?thesis
    unfolding s_def by fastforce
qed

end
