(* ===== verification/Adc.thy ===== *)
theory Adc
  imports Gpio
begin

text \<open>
  \<^verbatim>\<open>esp32-hal-adc.c\<close> and \<^verbatim>\<open>esp32-hal-dac.c\<close>: the two SAR converters, the Hall sensor and the two
  digital-to-analog pads. The static settings of the driver are part of the state. The conversions
  and the power-up state machine are hardware: \<open>env\<close> is the step it makes before each reading of a
  status register in a wait loop, and a loop that never ends is the outcome \<open>None\<close>.
\<close>

section \<open>State and registers\<close>

record adc_soc = soc +
  analogAttenuation :: u8
  analogWidth :: u8
  analogCycles :: u8
  analogSamples :: u8
  analogClockDiv :: u8
  analogReturnedWidth :: u8
  analog_initialized :: bool

definition adc_boot :: "soc \<Rightarrow> adc_soc" where
  "adc_boot s = soc.extend s
     \<lparr>analogAttenuation = 3, analogWidth = 3, analogCycles = 8, analogSamples = 0,
      analogClockDiv = 1, analogReturnedWidth = 12, analog_initialized = False\<rparr>"

definition SENS_SAR_READ_CTRL_REG :: reg where "SENS_SAR_READ_CTRL_REG = Mem 0x3ff48800"
definition SENS_SAR_MEAS_WAIT1_REG :: reg where "SENS_SAR_MEAS_WAIT1_REG = Mem 0x3ff48808"
definition SENS_SAR_MEAS_WAIT2_REG :: reg where "SENS_SAR_MEAS_WAIT2_REG = Mem 0x3ff4880c"
definition SENS_SAR_MEAS_CTRL_REG :: reg where "SENS_SAR_MEAS_CTRL_REG = Mem 0x3ff48810"
definition SENS_SAR_START_FORCE_REG :: reg where "SENS_SAR_START_FORCE_REG = Mem 0x3ff4882c"
definition SENS_SAR_ATTEN1_REG :: reg where "SENS_SAR_ATTEN1_REG = Mem 0x3ff48834"
definition SENS_SAR_ATTEN2_REG :: reg where "SENS_SAR_ATTEN2_REG = Mem 0x3ff48838"
definition SENS_SAR_SLAVE_ADDR1_REG :: reg where "SENS_SAR_SLAVE_ADDR1_REG = Mem 0x3ff4883c"
definition SENS_SAR_MEAS_START1_REG :: reg where "SENS_SAR_MEAS_START1_REG = Mem 0x3ff48854"
definition SENS_SAR_TOUCH_CTRL1_REG :: reg where "SENS_SAR_TOUCH_CTRL1_REG = Mem 0x3ff48858"
definition SENS_SAR_TOUCH_ENABLE_REG :: reg where "SENS_SAR_TOUCH_ENABLE_REG = Mem 0x3ff4888c"
definition SENS_SAR_READ_CTRL2_REG :: reg where "SENS_SAR_READ_CTRL2_REG = Mem 0x3ff48890"
definition SENS_SAR_MEAS_START2_REG :: reg where "SENS_SAR_MEAS_START2_REG = Mem 0x3ff48894"
definition SENS_SAR_DAC_CTRL1_REG :: reg where "SENS_SAR_DAC_CTRL1_REG = Mem 0x3ff48898"
definition SENS_SAR_DAC_CTRL2_REG :: reg where "SENS_SAR_DAC_CTRL2_REG = Mem 0x3ff4889c"
definition RTC_IO_HALL_SENS_REG :: reg where "RTC_IO_HALL_SENS_REG = Mem 0x3ff48478"
definition RTC_IO_PAD_DAC1_REG :: reg where "RTC_IO_PAD_DAC1_REG = Mem 0x3ff48484"
definition RTC_IO_PAD_DAC2_REG :: reg where "RTC_IO_PAD_DAC2_REG = Mem 0x3ff48488"

lemmas adc_regs =
  SENS_SAR_READ_CTRL_REG_def SENS_SAR_MEAS_WAIT1_REG_def SENS_SAR_MEAS_WAIT2_REG_def
  SENS_SAR_MEAS_CTRL_REG_def SENS_SAR_START_FORCE_REG_def SENS_SAR_ATTEN1_REG_def
  SENS_SAR_ATTEN2_REG_def SENS_SAR_SLAVE_ADDR1_REG_def SENS_SAR_MEAS_START1_REG_def
  SENS_SAR_TOUCH_CTRL1_REG_def SENS_SAR_TOUCH_ENABLE_REG_def SENS_SAR_READ_CTRL2_REG_def
  SENS_SAR_MEAS_START2_REG_def SENS_SAR_DAC_CTRL1_REG_def SENS_SAR_DAC_CTRL2_REG_def
  RTC_IO_HALL_SENS_REG_def RTC_IO_PAD_DAC1_REG_def RTC_IO_PAD_DAC2_REG_def

text \<open>\<open>SENS_TOUCH_PAD_*_S\<close>: where the three enable bitmaps of the touch pads start.\<close>

definition SENS_TOUCH_PAD_WORKEN_S :: nat where "SENS_TOUCH_PAD_WORKEN_S = 0"
definition SENS_TOUCH_PAD_OUTEN2_S :: nat where "SENS_TOUCH_PAD_OUTEN2_S = 10"
definition SENS_TOUCH_PAD_OUTEN1_S :: nat where "SENS_TOUCH_PAD_OUTEN1_S = 20"

section \<open>Settings\<close>

definition analogSetWidth :: "u8 \<Rightarrow> adc_soc \<Rightarrow> adc_soc" where
  "analogSetWidth b s =
     (let b = (if b < 9 then 9 else if 12 < b then 12 else b);
          s = s\<lparr>analogReturnedWidth := b, analogWidth := b - 9\<rparr>;
          w = ucast (analogWidth s)
      in exec
           [set_peri_reg_bits SENS_SAR_START_FORCE_REG 3 w 0,
            set_peri_reg_bits SENS_SAR_READ_CTRL_REG 3 w 16,
            set_peri_reg_bits SENS_SAR_START_FORCE_REG 3 w 2,
            set_peri_reg_bits SENS_SAR_READ_CTRL2_REG 3 w 16] s)"

definition analogSetCycles :: "u8 \<Rightarrow> adc_soc \<Rightarrow> adc_soc" where
  "analogSetCycles cycles s =
     exec
       [set_peri_reg_bits SENS_SAR_READ_CTRL_REG 0xFF (ucast cycles) 8,
        set_peri_reg_bits SENS_SAR_READ_CTRL2_REG 0xFF (ucast cycles) 8] (s\<lparr>analogCycles := cycles\<rparr>)"

definition analogSetSamples :: "u8 \<Rightarrow> adc_soc \<Rightarrow> adc_soc" where
  "analogSetSamples samples s =
     (if samples = 0 then s
      else exec
        [set_peri_reg_bits SENS_SAR_READ_CTRL_REG 0xFF (ucast (samples - 1)) 19,
         set_peri_reg_bits SENS_SAR_READ_CTRL2_REG 0xFF (ucast (samples - 1)) 19]
        (s\<lparr>analogSamples := samples - 1\<rparr>))"

definition analogSetClockDiv :: "u8 \<Rightarrow> adc_soc \<Rightarrow> adc_soc" where
  "analogSetClockDiv clockDiv s =
     (if clockDiv = 0 then s
      else exec
        [set_peri_reg_bits SENS_SAR_READ_CTRL_REG 0xFF (ucast clockDiv) 0,
         set_peri_reg_bits SENS_SAR_READ_CTRL2_REG 0xFF (ucast clockDiv) 0]
        (s\<lparr>analogClockDiv := clockDiv\<rparr>))"

definition analogSetAttenuation :: "u8 \<Rightarrow> adc_soc \<Rightarrow> adc_soc" where
  "analogSetAttenuation attenuation s =
     (let s = s\<lparr>analogAttenuation := attenuation AND 3\<rparr>;
          att_data = fold (\<lambda>i d. d OR push_bit (i * 2) (ucast (analogAttenuation s))) (rev [0..<10]) 0
      in exec
           [wr SENS_SAR_ATTEN1_REG (att_data AND 0xFFFF),
            wr SENS_SAR_ATTEN2_REG att_data] s)"

definition analogInit :: "(adc_soc \<Rightarrow> adc_soc) \<Rightarrow> adc_soc \<Rightarrow> adc_soc option" where
  "analogInit env s =
     (if analog_initialized s then Some s
      else
        let s = analogSetAttenuation (analogAttenuation s) s;
            s = analogSetCycles (analogCycles s) s;
            s = analogSetSamples (analogSamples s + 1) s;
            s = analogSetClockDiv (analogClockDiv s) s;
            s = analogSetWidth (analogWidth s + 9) s;
            s = exec
              [set_peri_reg_mask SENS_SAR_READ_CTRL_REG (BIT 28),
               set_peri_reg_mask SENS_SAR_READ_CTRL2_REG (BIT 29),
               set_peri_reg_mask SENS_SAR_MEAS_START1_REG (BIT 18),
               set_peri_reg_mask SENS_SAR_MEAS_START1_REG (BIT 31),
               set_peri_reg_mask SENS_SAR_MEAS_START2_REG (BIT 18),
               set_peri_reg_mask SENS_SAR_MEAS_START2_REG (BIT 31),
               clear_peri_reg_mask SENS_SAR_MEAS_WAIT2_REG (push_bit 18 3),
               set_peri_reg_bits SENS_SAR_MEAS_WAIT2_REG 3 2 16,
               clear_peri_reg_mask SENS_SAR_MEAS_CTRL_REG (push_bit 4 0xfff),
               set_peri_reg_bits SENS_SAR_MEAS_WAIT1_REG 0xFFFF 1 0,
               set_peri_reg_bits SENS_SAR_MEAS_WAIT1_REG 0xFFFF 1 16,
               set_peri_reg_bits SENS_SAR_MEAS_WAIT2_REG 0xFFFF 1 0] s
        in map_option (\<lambda>s. s\<lparr>analog_initialized := True\<rparr>)
             (await env (\<lambda>s. get_peri_reg_bits2 SENS_SAR_SLAVE_ADDR1_REG 7 22 s = 0) s))"

definition analogSetPinAttenuation ::
  "(adc_soc \<Rightarrow> adc_soc) \<Rightarrow> nat \<Rightarrow> u32 \<Rightarrow> adc_soc \<Rightarrow> adc_soc option" where
  "analogSetPinAttenuation env pin attenuation s =
     (let channel = digitalPinToAnalogChannel pin in
      if channel < 0 \<or> 3 < attenuation then Some s
      else map_option
        (\<lambda>s. if 7 < channel
              then set_peri_reg_bits SENS_SAR_ATTEN2_REG 3 attenuation (nat ((channel - 10) * 2)) s
              else set_peri_reg_bits SENS_SAR_ATTEN1_REG 3 attenuation (nat (channel * 2)) s)
        (analogInit env s))"

section \<open>Conversions\<close>

definition adcAttachPin ::
  "(nat \<Rightarrow> rtc_gpio_desc_t) \<Rightarrow> (adc_soc \<Rightarrow> adc_soc) \<Rightarrow> nat \<Rightarrow> adc_soc \<Rightarrow> (bool \<times> adc_soc) option" where
  "adcAttachPin desc env pin s =
     (if digitalPinToAnalogChannel pin < 0 then Some (False, s)
      else
        let pad = digitalPinToTouchChannel pin;
            s = (if 0 \<le> pad then
                   let touch = rd SENS_SAR_TOUCH_ENABLE_REG s in
                   if touch AND BIT (nat pad) \<noteq> 0
                   then wr SENS_SAR_TOUCH_ENABLE_REG
                          (touch AND NOT (BIT (nat pad + SENS_TOUCH_PAD_OUTEN2_S)
                             OR BIT (nat pad + SENS_TOUCH_PAD_OUTEN1_S)
                             OR BIT (nat pad + SENS_TOUCH_PAD_WORKEN_S))) s
                   else s
                 else if pin = 25 then clear_peri_reg_mask RTC_IO_PAD_DAC1_REG (BIT 18 OR BIT 10) s
                 else if pin = 26 then clear_peri_reg_mask RTC_IO_PAD_DAC2_REG (BIT 18 OR BIT 10) s
                 else s);
            s = pinMode desc pin ANALOG s
        in map_option (\<lambda>s. (True, s)) (analogInit env s))"

definition adcStart :: "nat \<Rightarrow> 'a soc_scheme \<Rightarrow> bool \<times> 'a soc_scheme" where
  "adcStart pin s =
     (let channel = digitalPinToAnalogChannel pin in
      if channel < 0 then (False, s)
      else if 9 < channel then
        (True, exec
          [clear_peri_reg_mask SENS_SAR_MEAS_START2_REG (BIT 17),
           set_peri_reg_bits SENS_SAR_MEAS_START2_REG 0xFFF (BIT (nat (channel - 10))) 19,
           set_peri_reg_mask SENS_SAR_MEAS_START2_REG (BIT 17)] s)
      else
        (True, exec
          [clear_peri_reg_mask SENS_SAR_MEAS_START1_REG (BIT 17),
           set_peri_reg_bits SENS_SAR_MEAS_START1_REG 0xFFF (BIT (nat channel)) 19,
           set_peri_reg_mask SENS_SAR_MEAS_START1_REG (BIT 17)] s))"

definition adcBusy :: "nat \<Rightarrow> 'a soc_scheme \<Rightarrow> bool" where
  "adcBusy pin s =
     (let channel = digitalPinToAnalogChannel pin in
      if channel < 0 then False
      else if 7 < channel then get_peri_reg_mask SENS_SAR_MEAS_START2_REG (BIT 16) s = 0
      else get_peri_reg_mask SENS_SAR_MEAS_START1_REG (BIT 16) s = 0)"

definition adc_scale :: "u8 \<Rightarrow> u8 \<Rightarrow> u16 \<Rightarrow> u16" where
  "adc_scale from returned v =
     (if from = returned then v
      else if returned < from then drop_bit (unat from - unat returned) v
      else push_bit (unat returned - unat from) v)"

definition adcEnd :: "(adc_soc \<Rightarrow> adc_soc) \<Rightarrow> nat \<Rightarrow> adc_soc \<Rightarrow> (u16 \<times> adc_soc) option" where
  "adcEnd env pin s =
     (let channel = digitalPinToAnalogChannel pin in
      if channel < 0 then Some (0, s)
      else
        let r = (if 7 < channel then SENS_SAR_MEAS_START2_REG else SENS_SAR_MEAS_START1_REG) in
        case await env (\<lambda>s. get_peri_reg_mask r (BIT 16) s \<noteq> 0) s of
          None \<Rightarrow> None
        | Some s \<Rightarrow>
            let v = ucast (get_peri_reg_bits2 r 0xFFFF 0 s)
            in Some (adc_scale (analogWidth s + 9) (analogReturnedWidth s) v, s))"

definition analogRead ::
  "(nat \<Rightarrow> rtc_gpio_desc_t) \<Rightarrow> (adc_soc \<Rightarrow> adc_soc) \<Rightarrow> nat \<Rightarrow> adc_soc \<Rightarrow> (u16 \<times> adc_soc) option" where
  "analogRead desc env pin s =
     (case adcAttachPin desc env pin s of
        None \<Rightarrow> None
      | Some (False, s) \<Rightarrow> Some (0, s)
      | Some (True, s) \<Rightarrow>
          (case adcStart pin s of
             (False, s) \<Rightarrow> Some (0, s)
           | (True, s) \<Rightarrow> adcEnd env pin s))"

definition analogReadResolution :: "u8 \<Rightarrow> adc_soc \<Rightarrow> adc_soc" where
  "analogReadResolution b s =
     (if b = 0 \<or> 16 < b then s
      else (analogSetWidth b s)\<lparr>analogReturnedWidth := b\<rparr>)"

definition hallRead ::
  "(nat \<Rightarrow> rtc_gpio_desc_t) \<Rightarrow> (adc_soc \<Rightarrow> adc_soc) \<Rightarrow> adc_soc \<Rightarrow> (int \<times> adc_soc) option" where
  "hallRead desc env s =
     (let s = exec
            [pinMode desc 36 ANALOG,
             pinMode desc 39 ANALOG,
             set_peri_reg_mask SENS_SAR_TOUCH_CTRL1_REG (BIT 26),
             set_peri_reg_mask RTC_IO_HALL_SENS_REG (BIT 31),
             set_peri_reg_mask SENS_SAR_TOUCH_CTRL1_REG (BIT 27),
             clear_peri_reg_mask RTC_IO_HALL_SENS_REG (BIT 30)] s in
      case analogRead desc env 36 s of
        None \<Rightarrow> None
      | Some (vp0, s) \<Rightarrow>
      (case analogRead desc env 39 s of
        None \<Rightarrow> None
      | Some (vn0, s) \<Rightarrow>
      (case analogRead desc env 36 (set_peri_reg_mask RTC_IO_HALL_SENS_REG (BIT 30) s) of
        None \<Rightarrow> None
      | Some (vp1, s) \<Rightarrow>
      (case analogRead desc env 39 s of
        None \<Rightarrow> None
      | Some (vn1, s) \<Rightarrow>
          Some ((uint vp1 - uint vp0) - (uint vn1 - uint vn0), exec
            [set_peri_reg_bits SENS_SAR_MEAS_WAIT2_REG 3 0 18,
             clear_peri_reg_mask SENS_SAR_TOUCH_CTRL1_REG (BIT 26),
             clear_peri_reg_mask SENS_SAR_TOUCH_CTRL1_REG (BIT 27)] s)))))"

section \<open>The digital-to-analog pads\<close>

definition dacWrite ::
  "(nat \<Rightarrow> rtc_gpio_desc_t) \<Rightarrow> nat \<Rightarrow> u8 \<Rightarrow> 'a soc_scheme \<Rightarrow> 'a soc_scheme" where
  "dacWrite desc pin v s =
     (if pin < 25 \<or> 26 < pin then s
      else
        let s = pinMode desc pin ANALOG s; channel = pin - 25;
            s = clear_peri_reg_mask SENS_SAR_DAC_CTRL1_REG (BIT 16) s
        in if channel \<noteq> 0
           then exec
             [clear_peri_reg_mask SENS_SAR_DAC_CTRL2_REG (BIT 25),
              set_peri_reg_bits RTC_IO_PAD_DAC2_REG 0xFF (ucast v) 19,
              set_peri_reg_mask RTC_IO_PAD_DAC2_REG (BIT 18 OR BIT 10)] s
           else exec
             [clear_peri_reg_mask SENS_SAR_DAC_CTRL2_REG (BIT 24),
              set_peri_reg_bits RTC_IO_PAD_DAC1_REG 0xFF (ucast v) 19,
              set_peri_reg_mask RTC_IO_PAD_DAC1_REG (BIT 18 OR BIT 10)] s)"

section \<open>The settings\<close>

lemma more_adc_ops [simp]:
  "soc.more (set_peri_reg_bits r b v k s) = soc.more s"
  "soc.more (pinMode desc pin mode s) = soc.more s"
  by (simp_all add: reg_ops pinMode_def pinMode_rtc_pull_def pinMode_analog_def Let_def)

lemma adc_vars_of_more:
  assumes "soc.more t = soc.more (s :: adc_soc)"
  shows "analogWidth t = analogWidth s" "analogReturnedWidth t = analogReturnedWidth s"
    "analog_initialized t = analog_initialized s"
  using assms by (cases s; cases t; simp)+

lemma adc_vars_ops [simp]:
  "analogWidth (set_peri_reg_bits r b v k s) = analogWidth s"
  "analogReturnedWidth (set_peri_reg_bits r b v k s) = analogReturnedWidth s"
  "analog_initialized (set_peri_reg_bits r b v k s) = analog_initialized s"
  "analogWidth (set_peri_reg_mask r v s) = analogWidth s"
  "analogReturnedWidth (set_peri_reg_mask r v s) = analogReturnedWidth s"
  "analog_initialized (set_peri_reg_mask r v s) = analog_initialized s"
  "analogWidth (clear_peri_reg_mask r v s) = analogWidth s"
  "analogReturnedWidth (clear_peri_reg_mask r v s) = analogReturnedWidth s"
  "analog_initialized (clear_peri_reg_mask r v s) = analog_initialized s"
  "analogWidth (wr r v s) = analogWidth s"
  "analogReturnedWidth (wr r v s) = analogReturnedWidth s"
  "analog_initialized (wr r v s) = analog_initialized s"
  "analogWidth (pinMode desc pin mode s) = analogWidth s"
  "analogReturnedWidth (pinMode desc pin mode s) = analogReturnedWidth s"
  for s :: adc_soc
  by (rule adc_vars_of_more, simp)+

definition keeps_adc :: "(adc_soc \<Rightarrow> adc_soc) \<Rightarrow> bool" where
  "keeps_adc env \<longleftrightarrow> (\<forall>s. soc.more (env s) = soc.more s)"

definition adc_inv :: "adc_soc \<Rightarrow> bool" where
  "adc_inv s \<longleftrightarrow> analogWidth s \<le> 3 \<and> 1 \<le> analogReturnedWidth s \<and> analogReturnedWidth s \<le> 16"

lemma analogSetWidth_vars:
  "analogReturnedWidth (analogSetWidth b s) = (if b < 9 then 9 else if 12 < b then 12 else b)"
  "analogWidth (analogSetWidth b s) = (if b < 9 then 9 else if 12 < b then 12 else b) - 9"
  by (simp_all add: analogSetWidth_def Let_def)

lemma analogSet_vars [simp]:
  "analogWidth (analogSetCycles c s) = analogWidth s"
  "analogReturnedWidth (analogSetCycles c s) = analogReturnedWidth s"
  "analogWidth (analogSetSamples c s) = analogWidth s"
  "analogReturnedWidth (analogSetSamples c s) = analogReturnedWidth s"
  "analogWidth (analogSetClockDiv c s) = analogWidth s"
  "analogReturnedWidth (analogSetClockDiv c s) = analogReturnedWidth s"
  "analogWidth (analogSetAttenuation c s) = analogWidth s"
  "analogReturnedWidth (analogSetAttenuation c s) = analogReturnedWidth s"
  by (simp_all add: analogSetCycles_def analogSetSamples_def analogSetClockDiv_def
      analogSetAttenuation_def Let_def)

lemma width_clamp:
  fixes b :: u8
  defines "w \<equiv> (if b < 9 then 9 else if 12 < b then 12 else b)"
  shows "w - 9 \<le> 3" and "1 \<le> w" and "w \<le> 16" and "w - 9 + 9 = w" and "9 \<le> w" and "w \<le> 12"
proof -
  show "9 \<le> w" "w \<le> 12" "1 \<le> w" "w \<le> 16" "w - 9 + 9 = w"
    by (auto simp: w_def not_less word_le_nat_alt word_less_nat_alt)
  from \<open>9 \<le> w\<close> \<open>w \<le> 12\<close> show "w - 9 \<le> 3"
    by (simp add: word_le_nat_alt unat_sub)
qed

lemma analogSetWidth_inv: "adc_inv (analogSetWidth b s)"
  using width_clamp [of b] by (simp add: adc_inv_def analogSetWidth_vars)

lemma await_vars:
  assumes "keeps_adc env" and "await env c s = Some t"
  shows "soc.more t = soc.more s"
  using assms(1) by (intro await_Some_inv [OF assms(2), where I = "\<lambda>t. soc.more t = soc.more s"])
    (auto simp: keeps_adc_def)

text \<open>
  The first use of the converter sets the returned width back to the converter's own: a resolution
  outside 9 to 12 bits asked for before that is lost.
\<close>

lemma analogInit_vars:
  assumes "keeps_adc env" and "analogInit env s = Some t"
  shows "if analog_initialized s then t = s
    else analog_initialized t \<and> analogWidth t = analogWidth (analogSetWidth (analogWidth s + 9) s)
      \<and> analogReturnedWidth t = analogReturnedWidth (analogSetWidth (analogWidth s + 9) s)"
proof (cases "analog_initialized s")
  case True
  with assms(2) show ?thesis by (simp add: analogInit_def)
next
  case False
  with assms(2) obtain c s0 u where u: "await env c s0 = Some u" "t = u\<lparr>analog_initialized := True\<rparr>"
    and s0: "analogWidth s0 = analogWidth (analogSetWidth (analogWidth s + 9) s)"
      "analogReturnedWidth s0 = analogReturnedWidth (analogSetWidth (analogWidth s + 9) s)"
    by (auto simp: analogInit_def Let_def analogSetWidth_vars)
  from adc_vars_of_more [OF await_vars [OF assms(1) u(1)]] False u(2) s0 show ?thesis
    by simp
qed

lemma analogInit_inv:
  assumes "keeps_adc env" and "analogInit env s = Some t" and "adc_inv s"
  shows "adc_inv t"
  using analogInit_vars [OF assms(1,2)] assms(3) analogSetWidth_inv [of "analogWidth s + 9" s]
  by (auto simp: adc_inv_def split: if_splits)

section \<open>Sessions\<close>

datatype adc_op =
    ASetWidth u8 | ASetCycles u8 | ASetSamples u8 | ASetClockDiv u8 | ASetAttenuation u8
  | ASetPinAttenuation nat u32 | AReadResolution u8 | ARead nat

fun adc_step ::
  "(nat \<Rightarrow> rtc_gpio_desc_t) \<Rightarrow> (adc_soc \<Rightarrow> adc_soc) \<Rightarrow> adc_op \<Rightarrow> adc_soc \<Rightarrow> adc_soc option" where
  "adc_step desc env (ASetWidth b) s = Some (analogSetWidth b s)"
| "adc_step desc env (ASetCycles c) s = Some (analogSetCycles c s)"
| "adc_step desc env (ASetSamples c) s = Some (analogSetSamples c s)"
| "adc_step desc env (ASetClockDiv c) s = Some (analogSetClockDiv c s)"
| "adc_step desc env (ASetAttenuation a) s = Some (analogSetAttenuation a s)"
| "adc_step desc env (ASetPinAttenuation pin a) s = analogSetPinAttenuation env pin a s"
| "adc_step desc env (AReadResolution b) s = Some (analogReadResolution b s)"
| "adc_step desc env (ARead pin) s = map_option snd (analogRead desc env pin s)"

inductive adc_run ::
  "(nat \<Rightarrow> rtc_gpio_desc_t) \<Rightarrow> (adc_soc \<Rightarrow> adc_soc) \<Rightarrow> adc_op list \<Rightarrow> adc_soc \<Rightarrow> bool"
  for desc env where
  boot: "adc_run desc env [] (adc_boot s)"
| step: "adc_run desc env ops s \<Longrightarrow> adc_step desc env op s = Some t \<Longrightarrow> adc_run desc env (ops @ [op]) t"

lemma adcAttachPin_inv:
  assumes "keeps_adc env" and "adcAttachPin desc env pin s = Some (b, t)" and "adc_inv s"
  shows "adc_inv t"
proof (cases "digitalPinToAnalogChannel pin < 0")
  case True
  with assms show ?thesis by (simp add: adcAttachPin_def)
next
  case False
  with assms(2) obtain s0 where "analogInit env s0 = Some t" and "soc.more s0 = soc.more s"
    by (auto simp: adcAttachPin_def Let_def)
  moreover from this(2) assms(3) have "adc_inv s0"
    using adc_vars_of_more [of s0 s] by (simp add: adc_inv_def)
  ultimately show ?thesis
    using assms(1) by (blast intro: analogInit_inv)
qed

lemma adcEnd_vars:
  assumes "keeps_adc env" and "adcEnd env pin s = Some (v, t)"
  shows "soc.more t = soc.more s"
  using assms by (auto simp: adcEnd_def Let_def split: if_splits option.splits dest: await_vars)

lemma more_adcStart: "soc.more (snd (adcStart pin s)) = soc.more s"
  by (simp add: adcStart_def Let_def)

lemma analogRead_inv:
  assumes "keeps_adc env" and "analogRead desc env pin s = Some (v, t)" and "adc_inv s"
  shows "adc_inv t"
proof -
  from assms(2) obtain b s1 where at: "adcAttachPin desc env pin s = Some (b, s1)"
    by (auto simp: analogRead_def split: option.splits)
  then have inv: "adc_inv s1" by (rule adcAttachPin_inv [OF assms(1) _ assms(3)])
  obtain c s2 where st: "adcStart pin s1 = (c, s2)" by (cases "adcStart pin s1")
  with more_adcStart [of pin s1] have m2: "soc.more s2 = soc.more s1" by simp
  have "t = s1 \<or> t = s2 \<or> adcEnd env pin s2 = Some (v, t)"
    using assms(2) at st by (cases b; cases c) (simp_all add: analogRead_def)
  then have "soc.more t = soc.more s1"
    using m2 adcEnd_vars [OF assms(1)] by (elim disjE) simp_all
  from adc_vars_of_more [OF this] inv show ?thesis
    by (simp add: adc_inv_def)
qed

lemma adc_step_inv:
  assumes "keeps_adc env" and "adc_step desc env op s = Some t" and "adc_inv s"
  shows "adc_inv t"
proof (cases op)
  case (ASetWidth b)
  with assms(2) analogSetWidth_inv show ?thesis by auto
next
  case (ASetPinAttenuation pin a)
  with assms(2) show ?thesis
    using assms(3) by (auto simp: analogSetPinAttenuation_def Let_def adc_inv_def
        dest!: analogInit_inv [OF assms(1) _ assms(3)] split: if_splits)
next
  case (AReadResolution b)
  with assms show ?thesis
    using width_clamp [of b]
    by (auto simp: analogReadResolution_def adc_inv_def analogSetWidth_vars word_le_nat_alt
        word_less_nat_alt unat_gt_0 [symmetric] simp del: unat_gt_0 split: if_splits)
next
  case (ARead pin)
  with assms show ?thesis
    by (auto dest: analogRead_inv [OF assms(1)])
qed (use assms in \<open>auto simp: adc_inv_def\<close>)

lemma adc_run_inv:
  assumes "keeps_adc env" and "adc_run desc env ops s"
  shows "adc_inv s"
  using assms(2)
proof (induction rule: adc_run.induct)
  case (boot s)
  show ?case by (simp add: adc_inv_def adc_boot_def soc.defs)
next
  case (step ops s op t)
  show ?case by (rule adc_step_inv [OF assms(1) step.hyps(2) step.IH])
qed

lemma adc_scale_bound:
  assumes "unat v < 2 ^ unat from" and "unat from \<le> 16" and "unat ret \<le> 16"
  shows "unat (adc_scale from ret v) < 2 ^ unat ret"
proof (cases "ret < from")
  case True
  then have lt: "unat ret < unat from" by (simp add: word_less_nat_alt)
  have v16: "unat v < 2 ^ 16"
    using unsigned_less [of v] by simp
  have "unat (drop_bit (unat from - unat ret) v) = unat v div 2 ^ (unat from - unat ret)"
    using take_bit_nat_eq_self [of "unat v" 16] v16
    by (subst unsigned_drop_bit_eq) (simp add: drop_bit_eq_div)
  also have "\<dots> < 2 ^ unat ret"
    using assms(1) lt by (simp add: less_mult_imp_div_less flip: power_add)
  finally show ?thesis
    using True by (auto simp: adc_scale_def)
next
  case False
  then have le: "unat from \<le> unat ret" by (simp add: not_less word_le_nat_alt)
  have "unat (push_bit (unat ret - unat from) v) \<le> unat v * 2 ^ (unat ret - unat from)"
    by (subst unsigned_push_bit_eq) (simp add: push_bit_eq_mult take_bit_nat_less_eq_self)
  also have "\<dots> < 2 ^ unat from * 2 ^ (unat ret - unat from)"
    using assms(1) by simp
  also have "\<dots> = 2 ^ unat ret"
    using le by (simp flip: power_add)
  finally show ?thesis
    using False assms(1) by (auto simp: adc_scale_def)
qed

section \<open>Attenuation\<close>

text \<open>The attenuation of a converter channel, as the pin numbering of the driver has it.\<close>

definition channel_attenuation :: "int \<Rightarrow> 'a soc_scheme \<Rightarrow> u32" where
  "channel_attenuation ch s =
     (if 7 < ch then bf_get (nat ((ch - 10) * 2), 2) (rd SENS_SAR_ATTEN2_REG s)
      else bf_get (nat (ch * 2), 2) (rd SENS_SAR_ATTEN1_REG s))"

lemma set_bits_bf_put:
  "set_peri_reg_bits r (mask w) v k s = wr r (bf_put (k, w) v (rd r s)) s"
proof -
  have "(rd r s AND NOT (push_bit k (mask w))) OR push_bit k (v AND mask w) = bf_put (k, w) v (rd r s)"
    by (rule bit_word_eqI) (auto simp: bit_simps bits)
  then show ?thesis
    by (simp add: set_peri_reg_bits_def)
qed

lemma analog_channels:
  "digitalPinToAnalogChannel pin < 0 \<or> 0 \<le> digitalPinToAnalogChannel pin \<and> digitalPinToAnalogChannel pin < 8
     \<or> 10 \<le> digitalPinToAnalogChannel pin \<and> digitalPinToAnalogChannel pin < 20"
proof (cases "pin < 40")
  case True
  have "list_all (\<lambda>m. mux_adc m < 0 \<or> 0 \<le> mux_adc m \<and> mux_adc m < 8 \<or> 10 \<le> mux_adc m \<and> mux_adc m < 20)
      esp32_gpioMux"
    by (simp add: esp32_gpioMux_def)
  moreover have "length esp32_gpioMux = 40"
    by (simp add: esp32_gpioMux_def)
  ultimately show ?thesis
    using True by (simp add: digitalPinToAnalogChannel_def list_all_length)
qed (simp add: digitalPinToAnalogChannel_def)

text \<open>Different channels have different two-bit fields.\<close>

lemma pair_disjoint:
  assumes "0 \<le> c" and "0 \<le> d" and "c \<noteq> d"
  shows "bf_disjoint (nat (c * 2), 2) (nat (d * 2), 2)"
proof -
  have "nat c < nat d \<or> nat d < nat c"
    using assms by auto
  then show ?thesis
    using assms by (auto simp: bf_disjoint_def nat_mult_distrib)
qed

section \<open>Properties\<close>


text \<open>A converter whose conversions end at once, with the value 0x2BC.\<close>

definition adc_ex :: adc_soc where
  "adc_ex = adc_boot \<lparr>soc_regs = (\<lambda>_. 0)(SENS_SAR_MEAS_START1_REG := 0x102BC), soc_trace = []\<rparr>"

lemma adc_ex_read:
  "adcEnd id 36 (analogSetWidth 10 adc_ex) = Some (0x2BC, analogSetWidth 10 adc_ex)"
  and adc_ex_vars: "analogWidth (analogSetWidth 10 adc_ex) = 1"
    "analogReturnedWidth (analogSetWidth 10 adc_ex) = 10"
  and adc_ex_data: "get_peri_reg_bits2 SENS_SAR_MEAS_START1_REG 0xFFFF 0 (analogSetWidth 10 adc_ex) = 0x2BC"
proof -
  have reg: "rd SENS_SAR_MEAS_START1_REG (analogSetWidth 10 adc_ex) = 0x102BC"
    by (simp add: analogSetWidth_def Let_def set_peri_reg_bits_def adc_regs adc_ex_def rd_def
        adc_boot_def soc.defs wr_def)
  show vars: "analogWidth (analogSetWidth 10 adc_ex) = 1"
    "analogReturnedWidth (analogSetWidth 10 adc_ex) = 10"
    by (simp_all add: analogSetWidth_vars)
  show data: "get_peri_reg_bits2 SENS_SAR_MEAS_START1_REG 0xFFFF 0 (analogSetWidth 10 adc_ex) = 0x2BC"
    by (simp add: get_peri_reg_bits2_def reg)
  have "await id (\<lambda>s. get_peri_reg_mask SENS_SAR_MEAS_START1_REG (BIT 16) s \<noteq> 0)
      (analogSetWidth 10 adc_ex) = Some (id (analogSetWidth 10 adc_ex))"
    by (rule await_now) (simp add: get_peri_reg_mask_def reg BIT_def)
  then show "adcEnd id 36 (analogSetWidth 10 adc_ex) = Some (0x2BC, analogSetWidth 10 adc_ex)"
    by (simp add: adcEnd_def Let_def digitalPinToAnalogChannel_def esp32_gpioMux_def vars data
        adc_scale_def)
qed


text \<open>
  Setting the attenuation of a pin of the initialised converter changes the attenuation of that
  pin's channel, to the value given, and of no other channel; a pin without a channel, or a value
  above 3, changes nothing.
\<close>

theorem analogSetPinAttenuation_channel:
  assumes "analog_initialized s"
    and "0 \<le> ch \<and> ch < 8 \<or> 10 \<le> ch \<and> ch < 20"
  shows "\<exists>t. analogSetPinAttenuation env pin a s = Some t \<and>
    channel_attenuation ch t =
      (if ch = digitalPinToAnalogChannel pin \<and> a \<le> 3 then a else channel_attenuation ch s)"
proof -
  define c where "c = digitalPinToAnalogChannel pin"
  have m: "(3 :: u32) = mask 2"
    by (simp add: mask_eq_exp_minus_1)
  show ?thesis
  proof (cases "c < 0 \<or> 3 < a")
    case True
    with assms(2) show ?thesis
      by (auto simp: analogSetPinAttenuation_def Let_def c_def [symmetric] not_le)
  next
    case False
    have a: "take_bit 2 a = a"
      proof -
      have "unat a \<le> 3" using False by (simp add: word_less_nat_alt)
      then have "unat a = 0 \<or> unat a = 1 \<or> unat a = 2 \<or> unat a = 3" by arith
      then show ?thesis by (auto simp: word_unat_eq_iff unsigned_take_bit_eq)
    qed
    have c: "0 \<le> c \<and> c < 8 \<or> 10 \<le> c \<and> c < 20"
      using analog_channels [of pin] False by (auto simp: c_def)
    define t where "t = (if 7 < c then wr SENS_SAR_ATTEN2_REG (bf_put (nat ((c - 10) * 2), 2) a (rd SENS_SAR_ATTEN2_REG s)) s
        else wr SENS_SAR_ATTEN1_REG (bf_put (nat (c * 2), 2) a (rd SENS_SAR_ATTEN1_REG s)) s)"
    have "analogSetPinAttenuation env pin a s = Some t"
      using False assms(1)
      by (simp add: analogSetPinAttenuation_def Let_def c_def [symmetric] analogInit_def t_def m
          set_bits_bf_put del: mask_numeral)
    moreover note dj = pair_disjoint [of c ch] pair_disjoint [of "c - 10" "ch - 10", simplified]
    moreover have "channel_attenuation ch t = (if ch = c then a else channel_attenuation ch s)"
      using assms(2) c a False dj
      by (auto simp: channel_attenuation_def t_def adc_regs bf_get_put_same intro!: bf_get_put_other dj)
    ultimately show ?thesis
      using False by (auto simp: c_def)
  qed
qed

theorem analogSetPinAttenuation_channel_witness:
  "channel_attenuation 6 (the (analogSetPinAttenuation id 34 2 (adc_ex\<lparr>analog_initialized := True\<rparr>))) = 2"
  using analogSetPinAttenuation_channel [of "adc_ex\<lparr>analog_initialized := True\<rparr>" 6 id 34 2]
  by (auto simp: digitalPinToAnalogChannel_def esp32_gpioMux_def)

text \<open>
  A resolution outside 9 to 12 bits that is asked for before the first read is lost: the
  initialisation done by that read puts the returned width back to the converter's own width.
\<close>

theorem first_read_loses_resolution:
  assumes "keeps_adc env" and "\<not> analog_initialized s"
    and "analogInit env (analogReadResolution b s) = Some t" and "1 \<le> b" and "b \<le> 16"
  shows "analogReturnedWidth t = (if b < 9 then 9 else if 12 < b then 12 else b)"
proof -
  have b: "\<not> (b = 0 \<or> 16 < b)"
    using assms(4,5) by (auto simp: not_less)
  have "\<not> analog_initialized (analogReadResolution b s)"
    using assms(2) b by (simp add: analogReadResolution_def analogSetWidth_def Let_def)
  with analogInit_vars [OF assms(1,3)] have "analogReturnedWidth t =
      analogReturnedWidth (analogSetWidth (analogWidth (analogReadResolution b s) + 9) (analogReadResolution b s))"
    by simp
  also have "analogWidth (analogReadResolution b s) + 9 = (if b < 9 then 9 else if 12 < b then 12 else b)"
    using b width_clamp(4) [of b] by (simp add: analogReadResolution_def analogSetWidth_vars)
  also have "analogReturnedWidth (analogSetWidth (if b < 9 then 9 else if 12 < b then 12 else b)
      (analogReadResolution b s)) = (if b < 9 then 9 else if 12 < b then 12 else b)"
    by (auto simp: analogSetWidth_vars)
  finally show ?thesis .
qed

definition adc_idle_ex :: "adc_soc \<Rightarrow> adc_soc" where
  "adc_idle_ex s = s\<lparr>soc_regs := (soc_regs s)(SENS_SAR_SLAVE_ADDR1_REG := 0)\<rparr>"

lemma analogInit_returns:
  assumes "\<And>u. get_peri_reg_bits2 SENS_SAR_SLAVE_ADDR1_REG 7 22 (env u) = 0"
  shows "\<exists>t. analogInit env s = Some t"
proof -
  have "await env (\<lambda>s. get_peri_reg_bits2 SENS_SAR_SLAVE_ADDR1_REG 7 22 s = 0) u = Some (env u)" for u
    using assms by (rule await_now)
  then show ?thesis
    unfolding analogInit_def Let_def by (cases "analog_initialized s") (simp_all only: if_True if_False option.map simp_thms option.inject)
qed

theorem first_read_loses_resolution_witness:
  "\<exists>t. analogInit adc_idle_ex (analogReadResolution 16 adc_ex) = Some t \<and> analogReturnedWidth t = 12"
proof -
  have "get_peri_reg_bits2 SENS_SAR_SLAVE_ADDR1_REG 7 22 (adc_idle_ex u) = 0" for u
    by (simp add: get_peri_reg_bits2_def adc_idle_ex_def rd_def)
  then obtain t where "analogInit adc_idle_ex (analogReadResolution 16 adc_ex) = Some t"
    using analogInit_returns [of adc_idle_ex "analogReadResolution 16 adc_ex"] by blast
  moreover have "keeps_adc adc_idle_ex"
    by (simp add: keeps_adc_def adc_idle_ex_def)
  moreover have "\<not> analog_initialized adc_ex"
    by (simp add: adc_ex_def adc_boot_def soc.defs)
  ultimately show ?thesis
    using first_read_loses_resolution [of adc_idle_ex adc_ex 16 t] by simp
qed

end
