(* ===== verification/Touch.thy ===== *)
theory Touch
  imports Adc
begin

text \<open>
  \<^verbatim>\<open>esp32-hal-touch.c\<close>: the ten capacitive touch pads. \<open>env\<close> is the hardware step before each
  reading of the done bit; \<open>ih\<close> is the handle \<^verbatim>\<open>esp_intr_alloc\<close> returns.
\<close>

record touch_soc = soc +
  touchSleepCycles :: u16
  touchMeasureCycles :: u16
  touchInterruptHandlers :: "ptr list"
  touch_intr_handle :: ptr
  touch_initialized :: bool

definition touch_boot :: "soc \<Rightarrow> touch_soc" where
  "touch_boot s = soc.extend s
     \<lparr>touchSleepCycles = 0x1000, touchMeasureCycles = 0x1000,
      touchInterruptHandlers = replicate 10 NULL, touch_intr_handle = NULL, touch_initialized = False\<rparr>"

definition SENS_SAR_TOUCH_THRES1 :: u32 where "SENS_SAR_TOUCH_THRES1 = 0x3ff4885c"
definition SENS_SAR_TOUCH_OUT1 :: u32 where "SENS_SAR_TOUCH_OUT1 = 0x3ff48870"
definition SENS_SAR_TOUCH_CTRL2_REG :: reg where "SENS_SAR_TOUCH_CTRL2_REG = Mem 0x3ff48884"
definition RTC_CNTL_STATE0_REG :: reg where "RTC_CNTL_STATE0_REG = Mem 0x3ff48018"
definition RTC_CNTL_INT_ENA_REG :: reg where "RTC_CNTL_INT_ENA_REG = Mem 0x3ff4803c"
definition RTC_CNTL_INT_ST_REG :: reg where "RTC_CNTL_INT_ST_REG = Mem 0x3ff48044"
definition RTC_CNTL_INT_CLR_REG :: reg where "RTC_CNTL_INT_CLR_REG = Mem 0x3ff48048"
definition RTC_IO_TOUCH_CFG_REG :: reg where "RTC_IO_TOUCH_CFG_REG = Mem 0x3ff48490"
definition RTC_IO_TOUCH_PAD0 :: u32 where "RTC_IO_TOUCH_PAD0 = 0x3ff48494"
definition RTC_IO_TOUCH_XPD_BIAS :: u32 where "RTC_IO_TOUCH_XPD_BIAS = BIT 31"
definition RTC_IO_TOUCH_XPD_BIAS_S :: nat where "RTC_IO_TOUCH_XPD_BIAS_S = 31"
definition SENS_TOUCH_MEAS_EN_CLR :: u32 where "SENS_TOUCH_MEAS_EN_CLR = BIT 30"
definition SENS_TOUCH_MEAS_DONE :: u32 where "SENS_TOUCH_MEAS_DONE = BIT 10"
definition SENS_TOUCH_START :: u32 where "SENS_TOUCH_START = BIT 12 OR BIT 13"

lemmas touch_regs =
  SENS_SAR_TOUCH_CTRL2_REG_def RTC_CNTL_STATE0_REG_def RTC_CNTL_INT_ENA_REG_def
  RTC_CNTL_INT_ST_REG_def RTC_CNTL_INT_CLR_REG_def RTC_IO_TOUCH_CFG_REG_def

definition touch_pad_bit :: "nat \<Rightarrow> touch_soc \<Rightarrow> touch_soc" where
  "touch_pad_bit i s =
     (if touchInterruptHandlers s ! i \<noteq> NULL then ext (CallFn (touchInterruptHandlers s ! i)) s else s)"

definition touchISR :: "touch_soc \<Rightarrow> touch_soc" where
  "touchISR s =
     (let pad_intr = rd SENS_SAR_TOUCH_CTRL2_REG s AND 0x3ff;
          rtc_intr = rd RTC_CNTL_INT_ST_REG s;
          s = wr RTC_CNTL_INT_CLR_REG rtc_intr s;
          s = set_peri_reg_mask SENS_SAR_TOUCH_CTRL2_REG SENS_TOUCH_MEAS_EN_CLR s
      in if rtc_intr AND BIT 6 \<noteq> 0
         then fold (\<lambda>i s. if drop_bit i pad_intr AND 0x01 \<noteq> 0 then touch_pad_bit i s else s) [0..<10] s
         else s)"

definition touchSetCycles :: "u16 \<Rightarrow> u16 \<Rightarrow> touch_soc \<Rightarrow> touch_soc" where
  "touchSetCycles meas slp s =
     exec
       [set_peri_reg_bits SENS_SAR_TOUCH_CTRL2_REG 0xFFFF (ucast slp) 14,
        set_peri_reg_bits SENS_SAR_TOUCH_CTRL1_REG 0xFFFF (ucast meas) 0]
       (s\<lparr>touchSleepCycles := slp, touchMeasureCycles := meas\<rparr>)"

text \<open>The first store is \<^verbatim>\<open>SET_PERI_REG_BITS(reg, BIT(31), 1, 31)\<close>, mask and shift as the code has them.\<close>

definition touchInit :: "ptr \<Rightarrow> touch_soc \<Rightarrow> touch_soc" where
  "touchInit ih s =
     (if touch_initialized s then s
      else
        let s = s\<lparr>touch_initialized := True\<rparr>;
            s = set_peri_reg_bits RTC_IO_TOUCH_CFG_REG RTC_IO_TOUCH_XPD_BIAS 1 RTC_IO_TOUCH_XPD_BIAS_S s;
            s = set_peri_reg_mask SENS_SAR_TOUCH_CTRL2_REG SENS_TOUCH_MEAS_EN_CLR s;
            s = wr SENS_SAR_TOUCH_ENABLE_REG 0 s;
            s = set_peri_reg_mask RTC_CNTL_STATE0_REG (BIT 23) s;
            s = touchSetCycles (touchMeasureCycles s) (touchSleepCycles s) s
        in (ext (IntrAlloc 46) s)\<lparr>touch_intr_handle := ih\<rparr>)"

definition touch_tio :: "int \<Rightarrow> reg" where
  "touch_tio p = Mem (RTC_IO_TOUCH_PAD0 + of_int (p * 4))"

definition touch_pad_on :: "u32 \<Rightarrow> u32" where
  "touch_pad_on v =
     (v AND NOT (push_bit 23 0x7)) OR push_bit 23 7 OR BIT 21 OR BIT 22 OR BIT 20"

definition touchRead ::
  "(nat \<Rightarrow> rtc_gpio_desc_t) \<Rightarrow> ptr \<Rightarrow> (touch_soc \<Rightarrow> touch_soc) \<Rightarrow> nat \<Rightarrow> touch_soc
     \<Rightarrow> (u16 \<times> touch_soc) option" where
  "touchRead desc ih env pin s =
     (let p = digitalPinToTouchChannel pin in
      if p < 0 then Some (0, s)
      else
        let s = pinMode desc pin ANALOG s;
            s = touchInit ih s;
            v0 = rd SENS_SAR_TOUCH_ENABLE_REG s;
            s = wr SENS_SAR_TOUCH_ENABLE_REG
                  ((v0 AND NOT (BIT (nat p + SENS_TOUCH_PAD_OUTEN2_S) OR BIT (nat p + SENS_TOUCH_PAD_OUTEN1_S)))
                   OR BIT (nat p + SENS_TOUCH_PAD_WORKEN_S)) s;
            s = set_peri_reg_mask SENS_SAR_TOUCH_ENABLE_REG (BIT (nat p + SENS_TOUCH_PAD_WORKEN_S)) s;
            s = wr (touch_tio p) (touch_pad_on (rd (touch_tio p) s)) s;
            s = set_peri_reg_mask SENS_SAR_TOUCH_CTRL2_REG SENS_TOUCH_START s;
            s = set_peri_reg_bits SENS_SAR_TOUCH_CTRL1_REG 0xFF 10 16 s
        in
        case await env (\<lambda>s. get_peri_reg_mask SENS_SAR_TOUCH_CTRL2_REG SENS_TOUCH_MEAS_DONE s \<noteq> 0) s of
          None \<Rightarrow> None
        | Some s \<Rightarrow>
            let touch_value = ucast (drop_bit (if odd p then 0 else 16)
                  (rd (Mem (SENS_SAR_TOUCH_OUT1 + of_int (p div 2 * 4))) s));
                s = clear_peri_reg_mask SENS_SAR_TOUCH_CTRL2_REG SENS_TOUCH_START s;
                s = wr SENS_SAR_TOUCH_ENABLE_REG v0 s
            in Some (touch_value, s))"

definition touchAttachInterrupt ::
  "(nat \<Rightarrow> rtc_gpio_desc_t) \<Rightarrow> ptr \<Rightarrow> nat \<Rightarrow> ptr \<Rightarrow> u16 \<Rightarrow> touch_soc \<Rightarrow> touch_soc" where
  "touchAttachInterrupt desc ih pin userFunc threshold s =
     (let p = digitalPinToTouchChannel pin in
      if p < 0 then s
      else
        let s = pinMode desc pin ANALOG s;
            s = touchInit ih s;
            s = s\<lparr>touchInterruptHandlers := (touchInterruptHandlers s)[nat p := userFunc]\<rparr>;
            s = clear_peri_reg_mask SENS_SAR_TOUCH_CTRL2_REG SENS_TOUCH_START s;
            s = clear_peri_reg_mask SENS_SAR_TOUCH_CTRL1_REG (BIT 24) s;
            s = set_peri_reg_mask SENS_SAR_TOUCH_CTRL1_REG (BIT 25) s;
            s = set_peri_reg_mask RTC_CNTL_INT_ENA_REG (BIT 6) s;
            s = set_peri_reg_bits (Mem (SENS_SAR_TOUCH_THRES1 + of_int (p div 2 * 4))) 0xFFFF
                  (ucast threshold) (if odd p then 0 else 16) s;
            s = wr (touch_tio p) (touch_pad_on (rd (touch_tio p) s)) s
        in set_peri_reg_mask SENS_SAR_TOUCH_ENABLE_REG
             (BIT (nat p + SENS_TOUCH_PAD_WORKEN_S) OR BIT (nat p + SENS_TOUCH_PAD_OUTEN2_S)
              OR BIT (nat p + SENS_TOUCH_PAD_OUTEN1_S)) s)"

section \<open>Lemmas\<close>

lemma touch_handlers_ops [simp]:
  "touchInterruptHandlers (wr r v s) = touchInterruptHandlers s"
  "touchInterruptHandlers (ext c s) = touchInterruptHandlers s"
  "touchInterruptHandlers (set_peri_reg_mask r m s) = touchInterruptHandlers s"
  by (simp_all add: wr_def ext_def set_peri_reg_mask_def)

lemma trace_touch_pad:
  "soc_trace (touch_pad_bit i s) = soc_trace s @
     (if touchInterruptHandlers s ! i \<noteq> NULL then [Ext (CallFn (touchInterruptHandlers s ! i))] else [])"
  "touchInterruptHandlers (touch_pad_bit i s) = touchInterruptHandlers s"
  by (simp_all add: touch_pad_bit_def)

lemma fold_touch_pads:
  "soc_trace (fold (\<lambda>i s. if P i then touch_pad_bit i s else s) is s) = soc_trace s @
     map (\<lambda>i. Ext (CallFn (touchInterruptHandlers s ! i)))
       (filter (\<lambda>i. P i \<and> touchInterruptHandlers s ! i \<noteq> NULL) is)"
  by (induction "is" arbitrary: s) (simp_all add: trace_touch_pad)

lemma rd_touch_upd [simp]:
  "rd r (s\<lparr>touch_initialized := b\<rparr>) = rd r s"
  "rd r (s\<lparr>touch_intr_handle := p\<rparr>) = rd r s"
  "rd r (s\<lparr>touchSleepCycles := c, touchMeasureCycles := d\<rparr>) = rd r s"
  by (simp_all add: rd_def)

lemma rd_set_bits [simp]:
  "rd r (set_peri_reg_bits r' m v k s) =
     (if r = r' then (rd r s AND NOT (push_bit k m)) OR push_bit k (v AND m) else rd r s)"
  by (simp add: set_peri_reg_bits_def)

section \<open>Properties\<close>

text \<open>
  C38: the touch interrupt acknowledges exactly the RTC interrupts it read and, if one of them is the
  touch interrupt, calls the handlers of exactly the touched pads that have one, from pad 0 to pad 9.
\<close>

theorem touchISR_dispatch:
  "soc_trace (touchISR s) = soc_trace s
     @ [Wr RTC_CNTL_INT_CLR_REG (rd RTC_CNTL_INT_ST_REG s),
        Wr SENS_SAR_TOUCH_CTRL2_REG (rd SENS_SAR_TOUCH_CTRL2_REG s OR SENS_TOUCH_MEAS_EN_CLR)]
     @ (if bit (rd RTC_CNTL_INT_ST_REG s) 6
        then map (\<lambda>i. Ext (CallFn (touchInterruptHandlers s ! i)))
          (filter (\<lambda>i. bit (rd SENS_SAR_TOUCH_CTRL2_REG s) i \<and> touchInterruptHandlers s ! i \<noteq> NULL) [0..<10])
        else [])"
proof -
  define r where "r = rd SENS_SAR_TOUCH_CTRL2_REG s"
  define s1 where "s1 = set_peri_reg_mask SENS_SAR_TOUCH_CTRL2_REG SENS_TOUCH_MEAS_EN_CLR
      (wr RTC_CNTL_INT_CLR_REG (rd RTC_CNTL_INT_ST_REG s) s)"
  have b: "drop_bit i (r AND 0x3ff) AND 0x01 \<noteq> 0 \<longleftrightarrow> bit r i" if "i \<in> set [0..<10]" for i
  proof -
    have m: "(0x3ff :: u32) = mask 10" "(0x01 :: u32) = mask 1"
      by (simp_all add: mask_eq_exp_minus_1)
    have "bit (drop_bit i (r AND 0x3ff) AND 0x01) n \<longleftrightarrow> n = 0 \<and> bit r i" for n
      unfolding m using that by (auto simp: bit_simps)
    then show ?thesis
      by (metis bit_0_eq bot_apply bot_bool_def bit_word_eqI)
  qed
  have f: "filter (\<lambda>i. drop_bit i (r AND 0x3ff) AND 0x01 \<noteq> 0 \<and> touchInterruptHandlers s ! i \<noteq> NULL) [0..<10] =
      filter (\<lambda>i. bit r i \<and> touchInterruptHandlers s ! i \<noteq> NULL) [0..<10]"
    by (rule filter_cong) (simp_all only: b)
  have c: "rd RTC_CNTL_INT_ST_REG s AND BIT 6 \<noteq> 0 \<longleftrightarrow> bit (rd RTC_CNTL_INT_ST_REG s) 6"
    by (simp add: and_BIT_eq_0)
  have tr: "soc_trace s1 = soc_trace s @ [Wr RTC_CNTL_INT_CLR_REG (rd RTC_CNTL_INT_ST_REG s),
      Wr SENS_SAR_TOUCH_CTRL2_REG (r OR SENS_TOUCH_MEAS_EN_CLR)]"
    and h: "touchInterruptHandlers s1 = touchInterruptHandlers s"
    by (simp_all add: s1_def set_peri_reg_mask_def r_def touch_regs)
  show ?thesis
    unfolding touchISR_def Let_def r_def [symmetric] s1_def [symmetric] c
    by (cases "bit (rd RTC_CNTL_INT_ST_REG s) 6")
      (simp_all only: if_True if_False fold_touch_pads h f tr append.assoc append_Nil2)
qed

text \<open>
  The code that should power up the bias of the touch sensor stores the register's old value: the
  field's mask, shifted once more by its offset, is 0.
\<close>

theorem touchInit_bias_lost:
  "rd RTC_IO_TOUCH_CFG_REG (touchInit ih s) = rd RTC_IO_TOUCH_CFG_REG s"
proof -
  have "push_bit 31 (BIT 31) = 0" "1 AND BIT 31 = 0"
    by (simp_all add: BIT_def)
  then show ?thesis
    by (simp add: touchInit_def Let_def touchSetCycles_def RTC_IO_TOUCH_XPD_BIAS_def
        RTC_IO_TOUCH_XPD_BIAS_S_def touch_regs adc_regs)
qed

text \<open>
  A touch reading leaves the enable bitmaps of all pads as they were when it began, and switches
  the forced measurement off again.
\<close>

theorem touchRead_restores:
  assumes "touch_initialized s" and "touchRead desc ih env pin s = Some (v, t)"
    and "Mem (desc_reg (desc pin)) \<noteq> SENS_SAR_TOUCH_ENABLE_REG"
  shows "rd SENS_SAR_TOUCH_ENABLE_REG t = rd SENS_SAR_TOUCH_ENABLE_REG s
    \<and> (digitalPinToTouchChannel pin < 0 \<or> rd SENS_SAR_TOUCH_CTRL2_REG t AND SENS_TOUCH_START = 0)"
proof (cases "digitalPinToTouchChannel pin < 0")
  case True
  with assms show ?thesis by (simp add: touchRead_def)
next
  case False
  define s1 where "s1 = pinMode desc pin ANALOG s"
  have i1: "touchInit ih s1 = s1"
    using assms(1) by (simp add: s1_def touchInit_def pinMode_def pinMode_analog_def Let_def wr_def)
  have "pin < 40"
    using False by (auto simp: digitalPinToTouchChannel_def split: if_splits)
  then have mux: "pin_mux_reg pin \<noteq> SENS_SAR_TOUCH_ENABLE_REG"
  proof -
    have "\<forall>m \<in> set esp32_gpioMux. mux_reg m < 0x100"
      by (simp add: esp32_gpioMux_def)
    moreover have "length esp32_gpioMux = 40"
      by (simp add: esp32_gpioMux_def)
    ultimately have "mux_reg (esp32_gpioMux ! pin) < 0x100"
      using \<open>pin < 40\<close> nth_mem by metis
    then show ?thesis
      by (auto simp: pin_mux_reg_def adc_regs DR_REG_IO_MUX_BASE_def word_less_nat_alt
          add.commute [of "0x3ff49000 :: u32"] simp flip: eq_diff_eq)
  qed
  have e1: "rd SENS_SAR_TOUCH_ENABLE_REG s1 = rd SENS_SAR_TOUCH_ENABLE_REG s"
    using mux assms(3)
    by (auto simp: s1_def pinMode_def pinMode_analog_def Let_def RTC_GPIO_ENABLE_W1TC_REG_def adc_regs)
  obtain u where t: "t = wr SENS_SAR_TOUCH_ENABLE_REG (rd SENS_SAR_TOUCH_ENABLE_REG s1)
      (clear_peri_reg_mask SENS_SAR_TOUCH_CTRL2_REG SENS_TOUCH_START u)"
    using assms(2) False i1
    by (auto simp: touchRead_def Let_def s1_def [symmetric] split: option.splits)
  have "(x AND NOT y) AND y = 0" for x y :: u32
    by (rule bit_word_eqI) (auto simp: bit_simps)
  then show ?thesis
    using e1 by (simp add: t touch_regs adc_regs)
qed

definition touch_ex :: touch_soc where
  "touch_ex = (touch_boot \<lparr>soc_regs = \<lambda>_. 0x155, soc_trace = []\<rparr>)\<lparr>touch_initialized := True\<rparr>"

text \<open>A measurement that is done at the first look.\<close>

definition touch_done_ex :: "touch_soc \<Rightarrow> touch_soc" where
  "touch_done_ex s = s\<lparr>soc_regs := (soc_regs s)(SENS_SAR_TOUCH_CTRL2_REG := SENS_TOUCH_MEAS_DONE)\<rparr>"

definition touch_desc_ex :: "nat \<Rightarrow> rtc_gpio_desc_t" where
  "touch_desc_ex _ = \<lparr>desc_reg = 0, desc_mux = 0, desc_func = 0, desc_ie = 0, desc_pullup = 0,
     desc_pulldown = 0, desc_rtc_num = -1\<rparr>"

lemma touchRead_returns:
  assumes "\<And>u. get_peri_reg_mask SENS_SAR_TOUCH_CTRL2_REG SENS_TOUCH_MEAS_DONE (env u) \<noteq> 0"
  shows "\<exists>v t. touchRead desc ih env pin s = Some (v, t)"
proof -
  have "await env (\<lambda>s. get_peri_reg_mask SENS_SAR_TOUCH_CTRL2_REG SENS_TOUCH_MEAS_DONE s \<noteq> 0) u = Some (env u)" for u
    using assms by (rule await_now)
  then show ?thesis
    unfolding touchRead_def Let_def
    by (cases "digitalPinToTouchChannel pin < 0") (simp_all only: if_True if_False option.case option.inject prod.inject, blast+)
qed

theorem touchRead_restores_witness:
  "\<exists>v t. touchRead touch_desc_ex 3 touch_done_ex 4 touch_ex = Some (v, t)
    \<and> rd SENS_SAR_TOUCH_ENABLE_REG t = 0x155 \<and> rd SENS_SAR_TOUCH_CTRL2_REG t AND SENS_TOUCH_START = 0"
proof -
  have "get_peri_reg_mask SENS_SAR_TOUCH_CTRL2_REG SENS_TOUCH_MEAS_DONE (touch_done_ex u) \<noteq> 0" for u
    by (simp add: get_peri_reg_mask_def touch_done_ex_def rd_def SENS_TOUCH_MEAS_DONE_def BIT_def)
  then obtain v t where vt: "touchRead touch_desc_ex 3 touch_done_ex 4 touch_ex = Some (v, t)"
    using touchRead_returns by blast
  have "touch_initialized touch_ex"
    by (simp add: touch_ex_def)
  from touchRead_restores [OF this vt] vt show ?thesis
    by (simp add: touch_desc_ex_def adc_regs digitalPinToTouchChannel_def esp32_gpioMux_def
        touch_ex_def touch_boot_def rd_def soc.defs)
qed

end
