(* ===== verification/SigmaDelta.thy ===== *)
theory SigmaDelta
  imports Gpio
begin

text \<open>
  \<^verbatim>\<open>esp32-hal-sigmadelta.c\<close>: eight sigma-delta channels. A division by zero and a lock taken before it
  is created are the outcome \<open>None\<close>.
\<close>

record sd_soc = soc +
  sd_tHasStarted :: bool

definition sd_channel :: "nat \<Rightarrow> reg" where
  "sd_channel channel = Mem (0x3ff44f00 + of_nat (4 * channel))"

definition sd_cg :: reg where "sd_cg = Mem 0x3ff44f20"

definition sd_duty :: bfield where "sd_duty = (0, 8)"
definition sd_prescale :: bfield where "sd_prescale = (8, 8)"
definition sd_clk_en :: bfield where "sd_clk_en = (31, 1)"
definition GPIO_SD0_OUT_IDX :: nat where "GPIO_SD0_OUT_IDX = 100"

definition sigmaDeltaSetup :: "nat \<Rightarrow> u32 \<Rightarrow> sd_soc \<Rightarrow> (u32 \<times> sd_soc) option" where
  "sigmaDeltaSetup channel freq s =
     (if 7 < channel then Some (0, s)
      else
        let s = s\<lparr>sd_tHasStarted := True\<rparr> in
        if freq * 32 = 0 then None
        else
          let prescale = 10000000 div (freq * 32) - 1;
              prescale = (if 0xFF < prescale then 0xFF else prescale)
          in Some (10000000 div ((prescale + 1) * 32), exec
               [ext (SemTake SdLock),
                setf (sd_channel channel) sd_prescale prescale,
                setf sd_cg sd_clk_en 0,
                setf sd_cg sd_clk_en 1,
                ext (SemGive SdLock)] s))"

definition sigmaDeltaWrite :: "nat \<Rightarrow> u8 \<Rightarrow> sd_soc \<Rightarrow> sd_soc option" where
  "sigmaDeltaWrite channel duty s =
     (if 7 < channel then Some s
      else if \<not> sd_tHasStarted s then None
      else
        let duty = duty - 128
        in Some (exec
             [ext (SemTake SdLock),
              setf (sd_channel channel) sd_duty (ucast duty),
              ext (SemGive SdLock)] s))"

definition sigmaDeltaRead :: "nat \<Rightarrow> sd_soc \<Rightarrow> (u8 \<times> sd_soc) option" where
  "sigmaDeltaRead channel s =
     (if 7 < channel then Some (0, s)
      else if \<not> sd_tHasStarted s then None
      else
        let s = ext (SemTake SdLock) s;
            duty = ucast (getf (sd_channel channel) sd_duty s + 128)
        in Some (duty, ext (SemGive SdLock) s))"

definition sigmaDeltaAttachPin ::
  "(nat \<Rightarrow> rtc_gpio_desc_t) \<Rightarrow> u8 \<Rightarrow> nat \<Rightarrow> 'a soc_scheme \<Rightarrow> 'a soc_scheme" where
  "sigmaDeltaAttachPin desc pin channel s =
     (if 7 < channel then s
      else exec
        [pinMode desc (unat pin) OUTPUT,
         pinMatrixOutAttach pin (of_nat (GPIO_SD0_OUT_IDX + channel)) False False] s)"

definition sigmaDeltaDetachPin :: "u8 \<Rightarrow> 'a soc_scheme \<Rightarrow> 'a soc_scheme" where
  "sigmaDeltaDetachPin pin = pinMatrixOutDetach pin False False"

section \<open>Lemmas\<close>

lemma sd_started_ops [simp]:
  "sd_tHasStarted (wr r v s) = sd_tHasStarted s"
  "sd_tHasStarted (ext c s) = sd_tHasStarted s"
  "sd_tHasStarted (setf r f v s) = sd_tHasStarted s"
  by (simp_all add: wr_def ext_def setf_def)

lemma getf_started [simp]:
  "getf r f (s\<lparr>sd_tHasStarted := b\<rparr>) = getf r f s"
  by (simp add: getf_def rd_def)

lemma sd_channel_inject: "c \<le> 7 \<Longrightarrow> d \<le> 7 \<Longrightarrow> sd_channel c = sd_channel d \<longleftrightarrow> c = d"
proof -
  assume "c \<le> 7" "d \<le> 7"
  then have u: "unat (of_nat (4 * c) :: u32) = 4 * c" "unat (of_nat (4 * d) :: u32) = 4 * d"
    by (simp_all only: unat_of_nat) (simp_all add: take_bit_nat_eq_self)
  have "sd_channel c = sd_channel d \<longleftrightarrow> (of_nat (4 * c) :: u32) = of_nat (4 * d)"
    by (simp only: sd_channel_def reg.inject add_left_cancel)
  also have "\<dots> \<longleftrightarrow> 4 * c = 4 * d"
    using u by metis
  finally show ?thesis by simp
qed

lemma take_bit_8_32: "take_bit 8 (take_bit 32 x + take_bit 32 y) = take_bit 8 (x + y)"
  for x y :: int
proof -
  have "take_bit 8 (take_bit 32 x + take_bit 32 y) =
      take_bit 8 (take_bit 8 (take_bit 32 x) + take_bit 8 (take_bit 32 y))"
    by (simp only: take_bit_add)
  also have "\<dots> = take_bit 8 (take_bit 8 x + take_bit 8 y)"
    by simp
  finally show ?thesis
    by (simp only: take_bit_add)
qed

lemma byte_round: "ucast (take_bit 8 (ucast (d - 128 :: u8)) + 128 :: u32) = (d :: u8)"
proof -
  have "take_bit 8 (ucast (d - 128 :: u8)) = (ucast (d - 128) :: u32)"
    by (rule bit_word_eqI) (auto simp: bit_simps dest: bit_imp_le_length)
  moreover have down: "(ucast (x + y :: u32) :: u8) = ucast x + ucast y" for x y
    by transfer (simp add: take_bit_8_32)
  have "(ucast (ucast (d - 128 :: u8) + 128 :: u32) :: u8) = (d - 128) + 128"
  proof -
    have "(ucast (ucast (d - 128 :: u8) :: u32) :: u8) = d - 128"
      by (rule bit_word_eqI) (auto simp: bit_simps dest: bit_imp_le_length)
    then show ?thesis
      unfolding down by simp
  qed
  ultimately show ?thesis by simp
qed

section \<open>Properties\<close>

text \<open>
  The duty written to a channel is the duty read from it, no other channel's duty changes, and
  the mutex is given back.
\<close>

theorem sigmaDelta_duty_roundtrip:
  assumes "sigmaDeltaWrite channel d s = Some t" and "channel \<le> 7"
  shows "(\<exists>u. sigmaDeltaRead channel t = Some (d, u))
    \<and> (\<forall>c \<le> 7. c = channel \<or> map_option fst (sigmaDeltaRead c t) = map_option fst (sigmaDeltaRead c s))
    \<and> held SdLock t = held SdLock s"
  using assms
  by (auto simp: sigmaDeltaWrite_def sigmaDeltaRead_def Let_def getf_steps sd_channel_inject sd_duty_def
      bf_get_put_same byte_round split: if_splits)

theorem sigmaDelta_duty_roundtrip_witness:
  "\<exists>u. sigmaDeltaRead 3 (the (sigmaDeltaWrite 3 200
     \<lparr>soc_regs = \<lambda>_. 0, soc_trace = [], sd_tHasStarted = True\<rparr>)) = Some (200, u)"
proof -
  obtain t where "sigmaDeltaWrite 3 200 \<lparr>soc_regs = \<lambda>_. 0, soc_trace = [], sd_tHasStarted = True\<rparr> = Some t"
    by (simp add: sigmaDeltaWrite_def)
  from sigmaDelta_duty_roundtrip [OF this] this show ?thesis by simp
qed

text \<open>
  For a frequency in the documented range, \<open>sigmaDeltaSetup\<close> returns the smallest frequency the
  8-bit prescaler can give that is not below the one asked for.
\<close>

theorem sigmaDelta_frequency:
  assumes "1220 \<le> freq" and "freq \<le> 312500" and "channel \<le> 7"
  shows "\<exists>f t. sigmaDeltaSetup channel freq s = Some (f, t) \<and> freq \<le> f
    \<and> (\<forall>p \<le> (255 :: nat). unat freq \<le> 10000000 div ((p + 1) * 32) \<longrightarrow> unat f \<le> 10000000 div ((p + 1) * 32))"
proof -
  define n where "n = unat freq"
  have n: "1220 \<le> n" "n \<le> 312500"
    using assms(1,2) by (simp_all add: n_def word_le_nat_alt)
  have mult: "unat (freq * 32) = n * 32"
    using n by (subst unat_mult_lem [THEN iffD1]) (simp_all add: n_def)
  define k where "k = 10000000 div (n * 32)"
  have k: "1 \<le> k" "k \<le> 256"
  proof -
    have "10000000 div (n * 32) \<le> 10000000 div (1220 * 32)"
      using n by (intro div_le_mono2) auto
    then show "k \<le> 256" by (simp add: k_def)
    have "10000000 div (312500 * 32) \<le> 10000000 div (n * 32)"
      using n by (intro div_le_mono2) auto
    then show "1 \<le> k" by (simp add: k_def)
  qed
  have q: "unat (10000000 div (freq * 32)) = k"
    by (simp add: unat_div mult k_def)
  define p where "p = 10000000 div (freq * 32) - 1"
  have p: "unat p = k - 1"
    unfolding p_def using q k by (subst unat_sub) (simp_all add: word_le_nat_alt)
  have p8: "\<not> 0xFF < p"
    using p k by (simp add: word_less_nat_alt)
  have p1: "unat ((p + 1) * 32) = k * 32"
  proof -
    have "unat (p + 1) = k"
      using p k by (subst unat_add_lem [THEN iffD1]) simp_all
    then show ?thesis
      using k by (subst unat_mult_lem [THEN iffD1]) simp_all
  qed
  define f where "f = 10000000 div ((p + 1) * 32)"
  have f: "unat f = 10000000 div (k * 32)"
    by (simp only: f_def unat_div p1) simp
  have le: "n \<le> 10000000 div (j * 32) \<longleftrightarrow> j \<le> k" if "0 < j" for j
  proof -
    have "n \<le> 10000000 div (j * 32) \<longleftrightarrow> n * (j * 32) \<le> 10000000"
      using that by (subst less_eq_div_iff_mult_less_eq) simp_all
    moreover have "j \<le> k \<longleftrightarrow> j * (n * 32) \<le> 10000000"
      unfolding k_def using n by (subst less_eq_div_iff_mult_less_eq) simp_all
    moreover have "n * (j * 32) = j * (n * 32)"
      by simp
    ultimately show ?thesis
      by (simp only:)
  qed
  have ne: "freq * 32 \<noteq> 0"
    using mult n by (metis mult_is_0 not_numeral_le_zero unat_0 zero_neq_numeral)
  have "\<exists>t. sigmaDeltaSetup channel freq s = Some (f, t)"
    using assms(3) ne p8 by (simp add: sigmaDeltaSetup_def Let_def p_def f_def)
  moreover have "freq \<le> f"
    using le [of k] k f by (simp add: word_le_nat_alt n_def)
  moreover have "unat f \<le> 10000000 div ((j + 1) * 32)" if "unat freq \<le> 10000000 div ((j + 1) * 32)" for j
  proof -
    have "j + 1 \<le> k"
      using le [of "j + 1"] that by (simp add: n_def)
    then show ?thesis
      unfolding f by (intro div_le_mono2) auto
  qed
  ultimately show ?thesis by blast
qed

theorem sigmaDelta_frequency_witness:
  "\<exists>f t. sigmaDeltaSetup 0 40000 \<lparr>soc_regs = \<lambda>_. 0, soc_trace = [], sd_tHasStarted = False\<rparr> = Some (f, t)
    \<and> 40000 \<le> f"
  using sigmaDelta_frequency [of 40000 0 "\<lparr>soc_regs = \<lambda>_. 0, soc_trace = [], sd_tHasStarted = False\<rparr>"]
  by fastforce

end
