(* ===== verification/CMem.thy ===== *)
theory CMem
  imports HalPrelude
begin

text \<open>
  C memory as the drivers see it that move buffers: an address maps to a byte, a 32-bit word lies at
  four consecutive addresses with its low byte first (the processor is little-endian), and copying
  is by address, so buffers may overlap as they may in C.
\<close>

type_synonym mem = "nat \<Rightarrow> u8"

section \<open>The bytes of a word\<close>

definition word_byte :: "u32 \<Rightarrow> nat \<Rightarrow> u8" where
  "word_byte w k = ucast (drop_bit (8 * k) w)"

definition bytes_word :: "u8 \<Rightarrow> u8 \<Rightarrow> u8 \<Rightarrow> u8 \<Rightarrow> u32" where
  "bytes_word b0 b1 b2 b3 =
     ucast b0 OR push_bit 8 (ucast b1) OR push_bit 16 (ucast b2) OR push_bit 24 (ucast b3)"

lemma bit_word_byte [bits]: "bit (word_byte w k) n \<longleftrightarrow> n < 8 \<and> bit w (8 * k + n)"
  by (auto simp: word_byte_def bit_simps)

lemma bit_bytes_word [bits]:
  "bit (bytes_word b0 b1 b2 b3) n \<longleftrightarrow>
     (if n < 8 then bit b0 n else if n < 16 then bit b1 (n - 8)
      else if n < 24 then bit b2 (n - 16) else n < 32 \<and> bit b3 (n - 24))"
proof -
  have low: "k < 8" if "bit b k" for b :: u8 and k
    using bit_imp_le_length [OF that] by simp
  have byte: "bit (push_bit s (ucast b) :: u32) n \<longleftrightarrow> n < 32 \<and> s \<le> n \<and> bit b (n - s)" for b :: u8 and s
    using low [of b "n - s"] by (auto simp: bit_push_bit_iff bit_unsigned_iff)
  have byte0: "bit (ucast b :: u32) n \<longleftrightarrow> n < 32 \<and> bit b n" for b :: u8
    using byte [of 0 b] by simp
  consider "n < 8" | "8 \<le> n" "n < 16" | "16 \<le> n" "n < 24" | "24 \<le> n"
    by linarith
  then show ?thesis
    by cases (use low in \<open>fastforce simp: bytes_word_def bit_or_iff byte byte0\<close>)+
qed

lemma word_byte_bytes_word [simp]:
  "word_byte (bytes_word b0 b1 b2 b3) 0 = b0"
  "word_byte (bytes_word b0 b1 b2 b3) (Suc 0) = b1"
  "word_byte (bytes_word b0 b1 b2 b3) 2 = b2"
  "word_byte (bytes_word b0 b1 b2 b3) 3 = b3"
  by (rule bit_word_eqI; simp add: bits)+

lemma bytes_word_word_byte [simp]:
  "bytes_word (word_byte w 0) (word_byte w (Suc 0)) (word_byte w 2) (word_byte w 3) = w"
  by (rule bit_word_eqI) (auto simp: bits)

lemma less_4_cases: "k < 4 \<Longrightarrow> k = 0 \<or> k = 1 \<or> k = 2 \<or> k = (3 :: nat)"
  by auto

section \<open>Memory access\<close>

definition load32 :: "mem \<Rightarrow> nat \<Rightarrow> u32" where
  "load32 m a = bytes_word (m a) (m (a + 1)) (m (a + 2)) (m (a + 3))"

definition store32 :: "nat \<Rightarrow> u32 \<Rightarrow> mem \<Rightarrow> mem" where
  "store32 a w m = m(a := word_byte w 0, a + 1 := word_byte w 1, a + 2 := word_byte w 2,
                     a + 3 := word_byte w 3)"

text \<open>\<open>upd_range a n f m\<close>: the \<open>n\<close> bytes from \<open>a\<close> on become \<open>f 0, f 1, \<dots>\<close>.\<close>

definition upd_range :: "nat \<Rightarrow> nat \<Rightarrow> (nat \<Rightarrow> u8) \<Rightarrow> mem \<Rightarrow> mem" where
  "upd_range a n f m = (\<lambda>p. if a \<le> p \<and> p < a + n then f (p - a) else m p)"

definition load_words :: "mem \<Rightarrow> nat \<Rightarrow> nat \<Rightarrow> u32 list" where
  "load_words m a n = map (\<lambda>i. load32 m (a + 4 * i)) [0..<n]"

lemma store32_eq: "store32 a w m = upd_range a 4 (word_byte w) m"
proof
  fix p
  have "p = a \<or> p = a + 1 \<or> p = a + 2 \<or> p = a + 3 \<or> \<not> (a \<le> p \<and> p < a + 4)"
    by linarith
  then show "store32 a w m p = upd_range a 4 (word_byte w) m p"
    by (auto simp: store32_def upd_range_def)
qed

lemma word_byte_load32: "k < 4 \<Longrightarrow> word_byte (load32 m a) k = m (a + k)"
  by (drule less_4_cases) (auto simp: load32_def)

lemma load32_cong: "(\<And>k. k < 4 \<Longrightarrow> m (a + k) = m' (a + k)) \<Longrightarrow> load32 m a = load32 m' a"
proof -
  assume eq: "\<And>k. k < 4 \<Longrightarrow> m (a + k) = m' (a + k)"
  show ?thesis
    using eq [of 0] eq [of 1] eq [of 2] eq [of 3] by (simp add: load32_def)
qed

lemma upd_range_0 [simp]: "upd_range a 0 f m = m"
  by (rule ext) (auto simp: upd_range_def)

lemma upd_range_append:
  "upd_range (a + n) k (\<lambda>i. f (n + i)) (upd_range a n f m) = upd_range a (n + k) f m"
  by (auto simp: upd_range_def fun_eq_iff)

text \<open>Storing words one after the other is updating the range of bytes they cover.\<close>

lemma fold_store32:
  "fold (\<lambda>i. store32 (a + 4 * i) (w i)) [0..<n] m
     = upd_range a (4 * n) (\<lambda>p. word_byte (w (p div 4)) (p mod 4)) m"
proof (induction n)
  case (Suc n)
  let ?f = "\<lambda>p. word_byte (w (p div 4)) (p mod 4)"
  have "fold (\<lambda>i. store32 (a + 4 * i) (w i)) [0..<Suc n] m
      = store32 (a + 4 * n) (w n) (upd_range a (4 * n) ?f m)"
    by (simp add: Suc)
  also have "\<dots> = upd_range (a + 4 * n) 4 (\<lambda>i. ?f (4 * n + i)) (upd_range a (4 * n) ?f m)"
    unfolding store32_eq by (auto simp: upd_range_def fun_eq_iff)
  also have "\<dots> = upd_range a (4 * n + 4) ?f m"
    by (rule upd_range_append)
  finally show ?case
    by (simp only: mult_Suc_right add.commute)
qed simp

end
