(* ===== verification/Mutex.thy ===== *)
theory Mutex
  imports Soc
begin

text \<open>
  The mutex discipline all bus drivers share. A driver's \<open>X_MUTEX_LOCK()\<close> and \<open>X_MUTEX_UNLOCK()\<close>
  bracket the statements of an operation; the mutex they name is created when the bus is started, and
  taking or giving one that was never created is an assertion failure of FreeRTOS (the outcome
  \<open>None\<close>). The locale states what a driver's pair of macros promises, and proves once that a
  bracketed operation gives back what it took; each driver interprets it on its own macros.
\<close>

definition guarded :: "('s \<Rightarrow> 's option) \<Rightarrow> ('s \<Rightarrow> 's option) \<Rightarrow> ('s \<Rightarrow> 's option) list \<Rightarrow> 's \<Rightarrow> 's option"
  where
  "guarded lock unlock body = run ([lock] @ body @ [unlock])"

locale mutex_macros =
  fixes made :: "nat \<Rightarrow> 's \<Rightarrow> bool"
    and lock :: "nat \<Rightarrow> 's \<Rightarrow> 's option"
    and unlock :: "nat \<Rightarrow> 's \<Rightarrow> 's option"
    and depth :: "nat \<Rightarrow> 's \<Rightarrow> int"
  assumes lock_returns: "lock n s \<noteq> None \<longleftrightarrow> made n s"
    and unlock_returns: "unlock n s \<noteq> None \<longleftrightarrow> made n s"
    and lock_depth: "lock n s = Some t \<Longrightarrow> depth m t = depth m s + of_bool (m = n)"
    and unlock_depth: "unlock n s = Some t \<Longrightarrow> depth m t = depth m s - of_bool (m = n)"
    and lock_made: "lock n s = Some t \<Longrightarrow> made m t = made m s"
    and unlock_made: "unlock n s = Some t \<Longrightarrow> made m t = made m s"
begin

text \<open>A statement that neither creates, takes nor gives mutexes.\<close>

definition inert :: "('s \<Rightarrow> 's option) \<Rightarrow> bool" where
  "inert f \<longleftrightarrow> (\<forall>s t n. f s = Some t \<longrightarrow> made n t = made n s \<and> depth n t = depth n s)"

lemma inert_stmt: "(\<And>s n. made n (f s) = made n s) \<Longrightarrow> (\<And>s n. depth n (f s) = depth n s)
    \<Longrightarrow> inert (stmt f)"
  by (simp add: inert_def)

lemma run_inert:
  assumes "run body s = Some t" and "\<forall>f\<in>set body. inert f"
  shows "made n t = made n s \<and> depth n t = depth n s"
proof -
  let ?P = "\<lambda>u. made n u = made n s \<and> depth n u = depth n s"
  show ?thesis
  proof (rule run_inv [OF assms(1), where P = ?P])
    fix f u v
    assume "f \<in> set body" and "f u = Some v" and "?P u"
    with assms(2) have "inert f" by blast
    with \<open>f u = Some v\<close> \<open>?P u\<close> show "?P v"
      by (simp add: inert_def)
  qed simp
qed

lemma guarded_Some:
  "guarded (lock n) (unlock n) body s = Some t \<longleftrightarrow>
     (\<exists>u v. lock n s = Some u \<and> run body u = Some v \<and> unlock n v = Some t)"
  by (auto simp: guarded_def run_append split: option.splits)

lemma guarded_unmade: "\<not> made n s \<Longrightarrow> guarded (lock n) (unlock n) body s = None"
  using lock_returns [of n s] by (simp add: guarded_def)

theorem guarded_balanced:
  assumes "guarded (lock n) (unlock n) body s = Some t" and "\<forall>f\<in>set body. inert f"
  shows "made m t = made m s \<and> depth m t = depth m s"
proof -
  from assms(1) obtain u v where *: "lock n s = Some u" "run body u = Some v" "unlock n v = Some t"
    by (auto simp: guarded_Some)
  from run_inert [OF *(2) assms(2)] have "made m v = made m u" "depth m v = depth m u"
    by auto
  with * show ?thesis
    using lock_depth unlock_depth lock_made unlock_made by fastforce
qed

lemma guarded_returns:
  assumes "made n s" and "\<forall>f\<in>set body. inert f" and "\<And>u. lock n s = Some u \<Longrightarrow> run body u \<noteq> None"
  shows "guarded (lock n) (unlock n) body s \<noteq> None"
proof -
  from assms(1) lock_returns obtain u where u: "lock n s = Some u" by blast
  with assms(3) obtain v where v: "run body u = Some v" by blast
  have "made n v"
    using run_inert [OF v assms(2), of n] lock_made [OF u, of n] assms(1) by blast
  with unlock_returns obtain t where "unlock n v = Some t" by blast
  with u v show ?thesis
    by (auto simp: guarded_Some simp del: not_None_eq)
qed

end

end
