(* ===== verification/Spi.thy ===== *)
theory Spi
  imports Gpio CMem Mutex
begin

text \<open>
  The bus control of \<^verbatim>\<open>esp32-hal-spi.c\<close>: attaching pins, chip select, clock divider, data mode, bit
  order, starting and stopping a bus, and the transactions that keep the bus's mutex between calls.
  A handle is \<^verbatim>\<open>NULL\<close> or one of the four entries of \<^verbatim>\<open>_spi_bus_array\<close>; the entry's \<open>lock\<close> is NULL
  until \<^verbatim>\<open>spiStartBus\<close> creates it. Taking or giving a NULL mutex fails an assertion of FreeRTOS:
  the outcome \<open>None\<close>.
\<close>

section \<open>State and registers\<close>

text \<open>\<open>spi_lock s n\<close>: the mutex of bus \<open>n\<close> exists. \<open>spi_mem\<close> is the memory the buffers lie in.\<close>

record spi_soc = soc +
  spi_lock :: "nat \<Rightarrow> bool"
  spi_mem :: mem

type_synonym spi_t = "nat option"

definition spi_boot :: "mem \<Rightarrow> soc \<Rightarrow> spi_soc" where
  "spi_boot m s = soc.extend s \<lparr>spi_lock = (\<lambda>_. False), spi_mem = m\<rparr>"

definition HSPI :: nat where "HSPI = 2"
definition VSPI :: nat where "VSPI = 3"
definition SPI_MODE0 :: u8 where "SPI_MODE0 = 0"
definition SPI_MODE1 :: u8 where "SPI_MODE1 = 1"
definition SPI_MODE2 :: u8 where "SPI_MODE2 = 2"
definition SPI_MODE3 :: u8 where "SPI_MODE3 = 3"
definition SPI_CS_MASK_ALL :: u8 where "SPI_CS_MASK_ALL = 0x7"
definition SPI_LSBFIRST :: u8 where "SPI_LSBFIRST = 0"
definition SPI_MSBFIRST :: u8 where "SPI_MSBFIRST = 1"

lemmas spi_consts =
  HSPI_def VSPI_def SPI_MODE0_def SPI_MODE1_def SPI_MODE2_def SPI_MODE3_def SPI_CS_MASK_ALL_def
  SPI_LSBFIRST_def SPI_MSBFIRST_def

definition spi_usr :: bfield where "spi_usr = (18, 1)"
definition rd_bit_order :: bfield where "rd_bit_order = (25, 1)"
definition wr_bit_order :: bfield where "wr_bit_order = (26, 1)"
definition doutdin :: bfield where "doutdin = (0, 1)"
definition cs_hold :: bfield where "cs_hold = (4, 1)"
definition cs_setup :: bfield where "cs_setup = (5, 1)"
definition ck_out_edge :: bfield where "ck_out_edge = (7, 1)"
definition usr_mosi :: bfield where "usr_mosi = (27, 1)"
definition usr_miso :: bfield where "usr_miso = (28, 1)"
definition usr_mosi_dbitlen :: bfield where "usr_mosi_dbitlen = (0, 24)"
definition usr_miso_dbitlen :: bfield where "usr_miso_dbitlen = (0, 24)"
definition ck_idle_edge :: bfield where "ck_idle_edge = (29, 1)"
definition cs_keep_active :: bfield where "cs_keep_active = (30, 1)"
definition trans_done :: bfield where "trans_done = (4, 1)"
definition slave_mode :: bfield where "slave_mode = (30, 1)"

lemmas spi_fields =
  spi_usr_def rd_bit_order_def wr_bit_order_def doutdin_def cs_hold_def cs_setup_def
  ck_out_edge_def usr_mosi_def usr_miso_def usr_mosi_dbitlen_def usr_miso_dbitlen_def
  ck_idle_edge_def cs_keep_active_def trans_done_def slave_mode_def

definition DPORT_SPI_CLK_EN :: u32 where "DPORT_SPI_CLK_EN = BIT 6"
definition DPORT_SPI_CLK_EN_1 :: u32 where "DPORT_SPI_CLK_EN_1 = BIT 1"
definition DPORT_SPI_CLK_EN_2 :: u32 where "DPORT_SPI_CLK_EN_2 = BIT 16"
definition DPORT_SPI_RST :: u32 where "DPORT_SPI_RST = BIT 6"
definition DPORT_SPI_RST_1 :: u32 where "DPORT_SPI_RST_1 = BIT 1"
definition DPORT_SPI_RST_2 :: u32 where "DPORT_SPI_RST_2 = BIT 16"

text \<open>The signal numbers of \<^verbatim>\<open>gpio_sig_map.h\<close> the macros select.\<close>

definition SPI_CLK_IDX :: "nat \<Rightarrow> u8" where
  "SPI_CLK_IDX p =
     (if p = 0 then 0 else if p = 1 then 0 else if p = 2 then 8 else if p = 3 then 63 else 0)"

definition SPI_MISO_IDX :: "nat \<Rightarrow> u8" where
  "SPI_MISO_IDX p =
     (if p = 0 then 1 else if p = 1 then 1 else if p = 2 then 9 else if p = 3 then 64 else 0)"

definition SPI_MOSI_IDX :: "nat \<Rightarrow> u8" where
  "SPI_MOSI_IDX p =
     (if p = 0 then 2 else if p = 1 then 2 else if p = 2 then 10 else if p = 3 then 65 else 0)"

definition SPI_SPI_SS_IDX :: "nat \<Rightarrow> u8" where
  "SPI_SPI_SS_IDX n = (if n = 0 then 5 else if n = 1 then 6 else if n = 2 then 7 else 5)"

definition SPI_HSPI_SS_IDX :: "nat \<Rightarrow> u8" where
  "SPI_HSPI_SS_IDX n = (if n = 0 then 11 else if n = 1 then 61 else if n = 2 then 62 else 11)"

definition SPI_VSPI_SS_IDX :: "nat \<Rightarrow> u8" where
  "SPI_VSPI_SS_IDX n = (if n = 0 then 68 else if n = 1 then 69 else if n = 2 then 70 else 68)"

definition SPI_SS_IDX :: "nat \<Rightarrow> nat \<Rightarrow> u8" where
  "SPI_SS_IDX p n =
     (if p = 0 then SPI_SPI_SS_IDX n else if p = 1 then SPI_SPI_SS_IDX n
      else if p = 2 then SPI_HSPI_SS_IDX n else if p = 3 then SPI_VSPI_SS_IDX n else 0)"

section \<open>The mutex\<close>

definition spi_take :: "nat \<Rightarrow> spi_soc \<Rightarrow> spi_soc option" where
  "spi_take n s = (if spi_lock s n then Some (ext (SemTake (SpiLock n)) s) else None)"

definition spi_give :: "nat \<Rightarrow> spi_soc \<Rightarrow> spi_soc option" where
  "spi_give n s = (if spi_lock s n then Some (ext (SemGive (SpiLock n)) s) else None)"

text \<open>\<open>on_bus spi f\<close>: nothing for a NULL handle, else \<open>f\<close> on the handle's bus.\<close>

definition on_bus :: "spi_t \<Rightarrow> (nat \<Rightarrow> spi_soc \<Rightarrow> spi_soc option) \<Rightarrow> spi_soc \<Rightarrow> spi_soc option"
  where
  "on_bus spi f s = (case spi of None \<Rightarrow> Some s | Some n \<Rightarrow> f n s)"

definition locked :: "(nat \<Rightarrow> (spi_soc \<Rightarrow> spi_soc) list) \<Rightarrow> nat \<Rightarrow> spi_soc \<Rightarrow> spi_soc option" where
  "locked body n = run ([spi_take n] @ map stmt (body n) @ [spi_give n])"

section \<open>Pins\<close>

text \<open>The pin used when the caller passes a negative one.\<close>

definition spi_pin :: "nat \<Rightarrow> int \<Rightarrow> int \<Rightarrow> int \<Rightarrow> int \<Rightarrow> int" where
  "spi_pin n hspi vspi fspi pin =
     (if pin < 0 then (if n = HSPI then hspi else if n = VSPI then vspi else fspi) else pin)"

definition spiAttachSCK :: "(nat \<Rightarrow> rtc_gpio_desc_t) \<Rightarrow> spi_t \<Rightarrow> int \<Rightarrow> spi_soc \<Rightarrow> spi_soc option" where
  "spiAttachSCK desc spi sck = on_bus spi (\<lambda>n.
     let sck = spi_pin n 14 18 6 sck in
     run [stmt (pinMode desc (nat sck) OUTPUT),
          stmt (pinMatrixOutAttach (of_int sck) (SPI_CLK_IDX n) False False)])"

definition spiAttachMISO :: "(nat \<Rightarrow> rtc_gpio_desc_t) \<Rightarrow> spi_t \<Rightarrow> int \<Rightarrow> spi_soc \<Rightarrow> spi_soc option" where
  "spiAttachMISO desc spi miso = on_bus spi (\<lambda>n.
     let miso = spi_pin n 12 19 7 miso in
     locked (\<lambda>n.
       [pinMode desc (nat miso) INPUT,
        pinMatrixInAttach (of_int miso) (SPI_MISO_IDX n) False]) n)"

definition spiAttachMOSI :: "(nat \<Rightarrow> rtc_gpio_desc_t) \<Rightarrow> spi_t \<Rightarrow> int \<Rightarrow> spi_soc \<Rightarrow> spi_soc option" where
  "spiAttachMOSI desc spi mosi = on_bus spi (\<lambda>n.
     let mosi = spi_pin n 13 23 8 mosi in
     run [stmt (pinMode desc (nat mosi) OUTPUT),
          stmt (pinMatrixOutAttach (of_int mosi) (SPI_MOSI_IDX n) False False)])"

definition spiDetachSCK :: "(nat \<Rightarrow> rtc_gpio_desc_t) \<Rightarrow> spi_t \<Rightarrow> int \<Rightarrow> spi_soc \<Rightarrow> spi_soc option" where
  "spiDetachSCK desc spi sck = on_bus spi (\<lambda>n.
     let sck = spi_pin n 14 18 6 sck in
     run [stmt (pinMatrixOutDetach (of_int sck) False False),
          stmt (pinMode desc (nat sck) INPUT)])"

definition spiDetachMISO :: "(nat \<Rightarrow> rtc_gpio_desc_t) \<Rightarrow> spi_t \<Rightarrow> int \<Rightarrow> spi_soc \<Rightarrow> spi_soc option" where
  "spiDetachMISO desc spi miso = on_bus spi (\<lambda>n.
     let miso = spi_pin n 12 19 7 miso in
     run [stmt (pinMatrixInDetach (SPI_MISO_IDX n) False False),
          stmt (pinMode desc (nat miso) INPUT)])"

definition spiDetachMOSI :: "(nat \<Rightarrow> rtc_gpio_desc_t) \<Rightarrow> spi_t \<Rightarrow> int \<Rightarrow> spi_soc \<Rightarrow> spi_soc option" where
  "spiDetachMOSI desc spi mosi = on_bus spi (\<lambda>n.
     let mosi = spi_pin n 13 23 8 mosi in
     run [stmt (pinMatrixOutDetach (of_int mosi) False False),
          stmt (pinMode desc (nat mosi) INPUT)])"

section \<open>Chip select\<close>

definition spiEnableSSPins :: "spi_t \<Rightarrow> u8 \<Rightarrow> spi_soc \<Rightarrow> spi_soc option" where
  "spiEnableSSPins spi cs_mask = on_bus spi (locked (\<lambda>n.
     [clear_peri_reg_mask (Spi n spin) (ucast (cs_mask AND SPI_CS_MASK_ALL))]))"

definition spiDisableSSPins :: "spi_t \<Rightarrow> u8 \<Rightarrow> spi_soc \<Rightarrow> spi_soc option" where
  "spiDisableSSPins spi cs_mask = on_bus spi (locked (\<lambda>n.
     [set_peri_reg_mask (Spi n spin) (ucast (cs_mask AND SPI_CS_MASK_ALL))]))"

definition spiAttachSS ::
  "(nat \<Rightarrow> rtc_gpio_desc_t) \<Rightarrow> spi_t \<Rightarrow> nat \<Rightarrow> int \<Rightarrow> spi_soc \<Rightarrow> spi_soc option" where
  "spiAttachSS desc spi cs_num ss = on_bus spi (\<lambda>n s.
     if 2 < cs_num then Some s
     else
       let cs_num = (if ss < 0 then 0 else cs_num); ss = spi_pin n 15 5 11 ss in
       run [stmt (pinMode desc (nat ss) OUTPUT),
            stmt (pinMatrixOutAttach (of_int ss) (SPI_SS_IDX n cs_num) False False),
            spiEnableSSPins (Some n) (push_bit cs_num 1)] s)"

definition spiDetachSS :: "(nat \<Rightarrow> rtc_gpio_desc_t) \<Rightarrow> spi_t \<Rightarrow> int \<Rightarrow> spi_soc \<Rightarrow> spi_soc option" where
  "spiDetachSS desc spi ss = on_bus spi (\<lambda>n.
     let ss = spi_pin n 15 5 11 ss in
     run [stmt (pinMatrixOutDetach (of_int ss) False False),
          stmt (pinMode desc (nat ss) INPUT)])"

definition spiSSEnable :: "spi_t \<Rightarrow> spi_soc \<Rightarrow> spi_soc option" where
  "spiSSEnable spi = on_bus spi (locked (\<lambda>n.
     [setf (Spi n suser) cs_setup 1, setf (Spi n suser) cs_hold 1]))"

definition spiSSDisable :: "spi_t \<Rightarrow> spi_soc \<Rightarrow> spi_soc option" where
  "spiSSDisable spi = on_bus spi (locked (\<lambda>n.
     [setf (Spi n suser) cs_setup 0, setf (Spi n suser) cs_hold 0]))"

definition spiSSSet :: "spi_t \<Rightarrow> spi_soc \<Rightarrow> spi_soc option" where
  "spiSSSet spi = on_bus spi (locked (\<lambda>n. [setf (Spi n spin) cs_keep_active 1]))"

definition spiSSClear :: "spi_t \<Rightarrow> spi_soc \<Rightarrow> spi_soc option" where
  "spiSSClear spi = on_bus spi (locked (\<lambda>n. [setf (Spi n spin) cs_keep_active 0]))"

section \<open>Clock, mode and bit order\<close>

definition spiGetClockDiv :: "spi_t \<Rightarrow> spi_soc \<Rightarrow> u32" where
  "spiGetClockDiv spi s = (case spi of None \<Rightarrow> 0 | Some n \<Rightarrow> rd (Spi n sclock) s)"

definition spiSetClockDiv :: "spi_t \<Rightarrow> u32 \<Rightarrow> spi_soc \<Rightarrow> spi_soc option" where
  "spiSetClockDiv spi clockDiv = on_bus spi (locked (\<lambda>n. [wr (Spi n sclock) clockDiv]))"

definition spiGetDataMode :: "spi_t \<Rightarrow> spi_soc \<Rightarrow> u8" where
  "spiGetDataMode spi s =
     (case spi of
        None \<Rightarrow> 0
      | Some n \<Rightarrow>
          let idleEdge = getf (Spi n spin) ck_idle_edge s \<noteq> 0;
              outEdge = getf (Spi n suser) ck_out_edge s \<noteq> 0
          in if idleEdge then (if outEdge then SPI_MODE2 else SPI_MODE3)
             else if outEdge then SPI_MODE1 else SPI_MODE0)"

text \<open>The \<^verbatim>\<open>switch\<close> over the data mode and the two branches of the bit order.\<close>

definition mode_edges :: "u8 \<Rightarrow> nat \<Rightarrow> (spi_soc \<Rightarrow> spi_soc) list" where
  "mode_edges dataMode n =
     (if dataMode = SPI_MODE1 then
        [setf (Spi n spin) ck_idle_edge 0, setf (Spi n suser) ck_out_edge 1]
      else if dataMode = SPI_MODE2 then
        [setf (Spi n spin) ck_idle_edge 1, setf (Spi n suser) ck_out_edge 1]
      else if dataMode = SPI_MODE3 then
        [setf (Spi n spin) ck_idle_edge 1, setf (Spi n suser) ck_out_edge 0]
      else
        [setf (Spi n spin) ck_idle_edge 0, setf (Spi n suser) ck_out_edge 0])"

definition bit_order_stores :: "u8 \<Rightarrow> nat \<Rightarrow> (spi_soc \<Rightarrow> spi_soc) list" where
  "bit_order_stores bitOrder n =
     (if SPI_MSBFIRST = bitOrder then
        [setf (Spi n sctrl) wr_bit_order 0, setf (Spi n sctrl) rd_bit_order 0]
      else if SPI_LSBFIRST = bitOrder then
        [setf (Spi n sctrl) wr_bit_order 1, setf (Spi n sctrl) rd_bit_order 1]
      else [])"

definition spiSetDataMode :: "spi_t \<Rightarrow> u8 \<Rightarrow> spi_soc \<Rightarrow> spi_soc option" where
  "spiSetDataMode spi dataMode = on_bus spi (locked (mode_edges dataMode))"

definition spiGetBitOrder :: "spi_t \<Rightarrow> spi_soc \<Rightarrow> u8" where
  "spiGetBitOrder spi s =
     (case spi of
        None \<Rightarrow> 0
      | Some n \<Rightarrow>
          if getf (Spi n sctrl) wr_bit_order s OR getf (Spi n sctrl) rd_bit_order s = 0 then 1 else 0)"

definition spiSetBitOrder :: "spi_t \<Rightarrow> u8 \<Rightarrow> spi_soc \<Rightarrow> spi_soc option" where
  "spiSetBitOrder spi bitOrder = on_bus spi (locked (bit_order_stores bitOrder))"

section \<open>The bus\<close>

definition stop_stores :: "nat \<Rightarrow> (spi_soc \<Rightarrow> spi_soc) list" where
  "stop_stores n =
     [setf (Spi n sslave) trans_done 0,
      setf (Spi n sslave) slave_mode 0,
      wr (Spi n spin) 0,
      wr (Spi n suser) 0,
      wr (Spi n suser1) 0,
      wr (Spi n sctrl) 0,
      wr (Spi n sctrl1) 0,
      wr (Spi n sctrl2) 0,
      wr (Spi n sclock) 0]"

definition spiStopBus :: "spi_t \<Rightarrow> spi_soc \<Rightarrow> spi_soc option" where
  "spiStopBus spi = on_bus spi (locked stop_stores)"

definition spi_power :: "nat \<Rightarrow> spi_soc \<Rightarrow> spi_soc" where
  "spi_power spi_num =
     (if spi_num = HSPI then
        exec [set_peri_reg_mask DPORT_PERIP_CLK_EN_REG DPORT_SPI_CLK_EN,
              clear_peri_reg_mask DPORT_PERIP_RST_EN_REG DPORT_SPI_RST]
      else if spi_num = VSPI then
        exec [set_peri_reg_mask DPORT_PERIP_CLK_EN_REG DPORT_SPI_CLK_EN_2,
              clear_peri_reg_mask DPORT_PERIP_RST_EN_REG DPORT_SPI_RST_2]
      else
        exec [set_peri_reg_mask DPORT_PERIP_CLK_EN_REG DPORT_SPI_CLK_EN_1,
              clear_peri_reg_mask DPORT_PERIP_RST_EN_REG DPORT_SPI_RST_1])"

definition start_stores :: "nat \<Rightarrow> (spi_soc \<Rightarrow> spi_soc) list" where
  "start_stores n =
     [setf (Spi n suser) usr_mosi 1,
      setf (Spi n suser) usr_miso 1,
      setf (Spi n suser) doutdin 1]
     @ map (\<lambda>i. wr (Spi n (data_buf i)) 0) [0..<16]"

text \<open>\<open>mutex_ok\<close>: \<^verbatim>\<open>xSemaphoreCreateMutex\<close> found memory for a mutex.\<close>

definition spiStartBus ::
  "bool \<Rightarrow> nat \<Rightarrow> u32 \<Rightarrow> u8 \<Rightarrow> u8 \<Rightarrow> spi_soc \<Rightarrow> (spi_t \<times> spi_soc) option" where
  "spiStartBus mutex_ok spi_num clockDiv dataMode bitOrder s =
     (if 3 < spi_num then Some (None, s)
      else if \<not> spi_lock s spi_num \<and> \<not> mutex_ok then Some (None, s)
      else
        let s = s\<lparr>spi_lock := (spi_lock s)(spi_num := True)\<rparr>; spi = Some spi_num in
        case run
          [stmt (spi_power spi_num),
           spiStopBus spi,
           spiSetDataMode spi dataMode,
           spiSetBitOrder spi bitOrder,
           spiSetClockDiv spi clockDiv,
            locked start_stores spi_num] s of
          None \<Rightarrow> None
        | Some t \<Rightarrow> Some (spi, t))"

definition spiTransaction :: "spi_t \<Rightarrow> u32 \<Rightarrow> u8 \<Rightarrow> u8 \<Rightarrow> spi_soc \<Rightarrow> spi_soc option" where
  "spiTransaction spi clockDiv dataMode bitOrder = on_bus spi (\<lambda>n.
     run ([spi_take n, stmt (wr (Spi n sclock) clockDiv)]
          @ map stmt (mode_edges dataMode n) @ map stmt (bit_order_stores bitOrder n)))"

definition spiSimpleTransaction :: "spi_t \<Rightarrow> spi_soc \<Rightarrow> spi_soc option" where
  "spiSimpleTransaction spi = on_bus spi spi_take"

definition spiEndTransaction :: "spi_t \<Rightarrow> spi_soc \<Rightarrow> spi_soc option" where
  "spiEndTransaction spi = on_bus spi spi_give"

section \<open>The mutex and the buffers are left alone by register accesses\<close>

named_theorems keeps_spi

lemma spi_vars_of_more:
  "soc.more t = soc.more (s :: spi_soc) \<Longrightarrow> spi_lock t = spi_lock s \<and> spi_mem t = spi_mem s"
  by (cases s; cases t) simp

lemma spi_vars_ops [simp]:
  "spi_lock (wr r v s) = spi_lock s" "spi_mem (wr r v s) = spi_mem s"
  "spi_lock (ext c s) = spi_lock s" "spi_mem (ext c s) = spi_mem s"
  "spi_lock (setf r f v s) = spi_lock s" "spi_mem (setf r f v s) = spi_mem s"
  "spi_lock (set_peri_reg_mask r v s) = spi_lock s" "spi_mem (set_peri_reg_mask r v s) = spi_mem s"
  "spi_lock (clear_peri_reg_mask r v s) = spi_lock s"
  "spi_mem (clear_peri_reg_mask r v s) = spi_mem s"
  by (simp_all add: wr_def ext_def setf_def set_peri_reg_mask_def clear_peri_reg_mask_def)

lemma held_spi_lock [simp]: "held l (s\<lparr>spi_lock := f\<rparr>) = held l s"
  by (simp add: held_def)

lemma spi_vars_exec:
  assumes "\<And>f s. f \<in> set fs \<Longrightarrow> spi_lock (f s) = spi_lock s"
  shows "spi_lock (exec fs s) = spi_lock s"
  using assms by (induction fs arbitrary: s) simp_all

lemma run_Cons_Some: "f s = Some t \<Longrightarrow> run (f # fs) s = run fs t"
  by simp

lemma locked_eq:
  assumes "\<And>f s. f \<in> set (body n) \<Longrightarrow> spi_lock (f s) = spi_lock s"
  shows "locked body n s =
     (if spi_lock s n
      then Some (ext (SemGive (SpiLock n)) (exec (body n) (ext (SemTake (SpiLock n)) s)))
      else None)"
  using assms
  by (simp add: locked_def run_append run_map_stmt spi_take_def spi_give_def spi_vars_exec)

interpretation spi_mutex: mutex_macros "\<lambda>n s. spi_lock s n" spi_take spi_give
    "\<lambda>n s. held (SpiLock n) s"
  by unfold_locales (auto simp: spi_take_def spi_give_def split: if_splits)

lemma locked_guarded: "locked body n = guarded (spi_take n) (spi_give n) (map stmt (body n))"
  by (simp add: locked_def guarded_def)

lemma locked_balanced:
  assumes "locked body n s = Some t"
    and "\<And>f s. f \<in> set (body n) \<Longrightarrow> spi_lock (f s) = spi_lock s"
    and "\<And>f s l. f \<in> set (body n) \<Longrightarrow> held l (f s) = held l s"
  shows "held (SpiLock m) t = held (SpiLock m) s"
  using spi_mutex.guarded_balanced [OF assms(1) [unfolded locked_guarded]] assms(2,3)
  by (fastforce simp: spi_mutex.inert_def)

lemma mode_edges_lock: "f \<in> set (mode_edges m n) \<Longrightarrow> spi_lock (f s) = spi_lock s"
  by (auto simp: mode_edges_def split: if_splits)

lemma bit_order_lock: "f \<in> set (bit_order_stores m n) \<Longrightarrow> spi_lock (f s) = spi_lock s"
  by (auto simp: bit_order_stores_def split: if_splits)

lemma spi_power_vars [simp]: "spi_lock (spi_power n s) = spi_lock s"
  "spi_mem (spi_power n s) = spi_mem s" "held l (spi_power n s) = held l s"
  by (simp_all add: spi_power_def)

section \<open>What the settings read back\<close>

lemma mode_edges_getf:
  "getf (Spi n spin) ck_idle_edge (exec (mode_edges m n) s) = of_flag (m = 2 \<or> m = 3)"
  "getf (Spi n suser) ck_out_edge (exec (mode_edges m n) s) = of_flag (m = 1 \<or> m = 2)"
  by (auto simp: mode_edges_def spi_consts getf_steps bf_get_put_same spi_fields take_bit_Suc)

lemma mode_edges_rd:
  "r \<noteq> Spi n spin \<Longrightarrow> r \<noteq> Spi n suser \<Longrightarrow> rd r (exec (mode_edges m n) s) = rd r s"
  by (auto simp: mode_edges_def)

lemma mode_edges_held [simp]: "held l (exec (mode_edges m n) s) = held l s"
  by (simp add: mode_edges_def)

lemma bit_order_getf:
  "getf (Spi n sctrl) wr_bit_order (exec (bit_order_stores b n) s) =
     (if b \<le> 1 then of_flag (b = 0) else getf (Spi n sctrl) wr_bit_order s)"
  "getf (Spi n sctrl) rd_bit_order (exec (bit_order_stores b n) s) =
     (if b \<le> 1 then of_flag (b = 0) else getf (Spi n sctrl) rd_bit_order s)"
proof -
  have "b \<le> 1 \<longleftrightarrow> b = 0 \<or> b = 1"
    by (auto simp: word_le_nat_alt word_unat_eq_iff le_Suc_eq)
  then show
    "getf (Spi n sctrl) wr_bit_order (exec (bit_order_stores b n) s) =
       (if b \<le> 1 then of_flag (b = 0) else getf (Spi n sctrl) wr_bit_order s)"
    "getf (Spi n sctrl) rd_bit_order (exec (bit_order_stores b n) s) =
       (if b \<le> 1 then of_flag (b = 0) else getf (Spi n sctrl) rd_bit_order s)"
    by (auto simp: bit_order_stores_def spi_consts getf_steps bf_get_put_same bf_get_put_other
        bf_disjoint_def spi_fields take_bit_Suc)
qed

lemma bit_order_rd: "r \<noteq> Spi n sctrl \<Longrightarrow> rd r (exec (bit_order_stores b n) s) = rd r s"
  by (auto simp: bit_order_stores_def)

lemma bit_order_held [simp]: "held l (exec (bit_order_stores m n) s) = held l s"
  by (simp add: bit_order_stores_def)

lemma spiGetDataMode_eq:
  assumes "getf (Spi n spin) ck_idle_edge s = of_flag (m = 2 \<or> m = 3)"
    and "getf (Spi n suser) ck_out_edge s = of_flag (m = 1 \<or> m = 2)"
  shows "spiGetDataMode (Some n) s = (if m \<le> 3 then m else 0)"
proof -
  have "m \<le> 3 \<longleftrightarrow> m = 0 \<or> m = 1 \<or> m = 2 \<or> m = 3"
    by (simp add: word_le_nat_alt word_unat_eq_iff) arith
  with assms show ?thesis
    by (auto simp: spiGetDataMode_def spi_consts)
qed

lemma spiGetBitOrder_eq:
  "spiGetBitOrder (Some n) (exec (bit_order_stores b n) s) =
     (if b \<le> 1 then b else spiGetBitOrder (Some n) s)"
proof -
  have "b \<le> 1 \<longleftrightarrow> b = 0 \<or> b = 1"
    by (auto simp: word_le_nat_alt word_unat_eq_iff le_Suc_eq)
  then show ?thesis
    by (auto simp: spiGetBitOrder_def bit_order_getf)
qed

lemma spiGetBitOrder_cong:
  "rd (Spi n sctrl) t = rd (Spi n sctrl) s \<Longrightarrow> spiGetBitOrder (Some n) t = spiGetBitOrder (Some n) s"
  by (simp add: spiGetBitOrder_def getf_def)

lemma spiTransaction_eq:
  assumes "spi_lock s n"
  shows "spiTransaction (Some n) clk m b s =
    Some (exec (bit_order_stores b n) (exec (mode_edges m n)
      (wr (Spi n sclock) clk (ext (SemTake (SpiLock n)) s))))"
  using assms
  by (simp add: spiTransaction_def on_bus_def spi_take_def run_append run_map_stmt)

lemma getf_wr: "getf r f (wr r' v s) = (if r = r' then bf_get f v else getf r f s)"
  by (simp add: getf_def)

lemma getf_bit_order: "r \<noteq> Spi n sctrl \<Longrightarrow> getf r f (exec (bit_order_stores b n) s) = getf r f s"
  by (simp add: getf_def bit_order_rd)

lemma stop_stores_lock: "f \<in> set (stop_stores n) \<Longrightarrow> spi_lock (f s) = spi_lock s"
  by (auto simp: stop_stores_def)

lemma stop_stores_held [simp]: "held l (exec (stop_stores n) s) = held l s"
  by (simp add: stop_stores_def)

lemma stop_stores_rd: "rd (Spi n sctrl) (exec (stop_stores n) s) = 0"
  by (simp add: stop_stores_def)

lemma start_stores_lock: "f \<in> set (start_stores n) \<Longrightarrow> spi_lock (f s) = spi_lock s"
  by (auto simp: start_stores_def)

lemma exec_held:
  assumes "\<And>f s. f \<in> set fs \<Longrightarrow> held l (f s) = held l s"
  shows "held l (exec fs s) = held l s"
  using assms by (induction fs arbitrary: s) simp_all

lemma start_stores_held [simp]: "held l (exec (start_stores n) s) = held l s"
  by (rule exec_held) (auto simp: start_stores_def)

lemma rd_data_buf_clear:
  "rd r (exec (map (\<lambda>i. wr (Spi n (data_buf i)) 0) is) s) =
     (if r \<in> (\<lambda>i. Spi n (data_buf i)) ` set is then 0 else rd r s)"
  by (induction "is" arbitrary: s) auto

lemma start_stores_rd:
  "r \<noteq> Spi n suser \<Longrightarrow> (\<And>i. r \<noteq> Spi n (data_buf i))
     \<Longrightarrow> rd r (exec (start_stores n) s) = rd r s"
  by (auto simp: start_stores_def exec_append rd_data_buf_clear)

lemma start_stores_state:
  "i < 16 \<Longrightarrow> rd (Spi n (data_buf i)) (exec (start_stores n) s) = 0"
  "getf (Spi n suser) usr_mosi (exec (start_stores n) s) = 1"
  "getf (Spi n suser) usr_miso (exec (start_stores n) s) = 1"
  "getf (Spi n suser) doutdin (exec (start_stores n) s) = 1"
  by (auto simp: start_stores_def exec_append rd_data_buf_clear getf_def bf_get_put_same
      bf_get_put_other bf_disjoint_def spi_fields take_bit_Suc)

lemma getf_start:
  "getf (Spi n spin) f (exec (start_stores n) s) = getf (Spi n spin) f s"
  "getf (Spi n suser) ck_out_edge (exec (start_stores n) s) = getf (Spi n suser) ck_out_edge s"
  by (auto simp: start_stores_def exec_append rd_data_buf_clear getf_def
      bf_get_put_other bf_disjoint_def spi_fields image_iff)

section \<open>Properties\<close>

text \<open>
  C40: opening a transaction on a started bus sets exactly what it was asked for: the clock divider,
  the data mode (0 for a mode above 3) and the bit order read back as given, an unknown bit order
  changes nothing, only the four registers concerned are touched, and the transaction keeps exactly
  its own bus's mutex.
\<close>

theorem spiTransaction_settings:
  assumes "spi_lock s n"
  shows "\<exists>t. spiTransaction (Some n) clk m b s = Some t
    \<and> spiGetClockDiv (Some n) t = clk
    \<and> spiGetDataMode (Some n) t = (if m \<le> 3 then m else 0)
    \<and> spiGetBitOrder (Some n) t = (if b \<le> 1 then b else spiGetBitOrder (Some n) s)
    \<and> (\<forall>l. held l t = held l s + of_bool (l = SpiLock n))
    \<and> (\<forall>r. r \<notin> {Spi n sclock, Spi n spin, Spi n suser, Spi n sctrl} \<longrightarrow> rd r t = rd r s)"
proof -
  define u where "u = exec (mode_edges m n) (wr (Spi n sclock) clk (ext (SemTake (SpiLock n)) s))"
  have edges: "getf (Spi n spin) ck_idle_edge u = of_flag (m = 2 \<or> m = 3)"
      "getf (Spi n suser) ck_out_edge u = of_flag (m = 1 \<or> m = 2)"
    by (simp_all add: u_def mode_edges_getf)
  have "spiGetDataMode (Some n) (exec (bit_order_stores b n) u) = (if m \<le> 3 then m else 0)"
    using edges by (intro spiGetDataMode_eq) (simp_all add: getf_def bit_order_rd)
  moreover have "spiGetBitOrder (Some n) u = spiGetBitOrder (Some n) s"
    by (simp add: spiGetBitOrder_def getf_def u_def mode_edges_rd)
  ultimately show ?thesis
    unfolding spiTransaction_eq [OF assms] u_def [symmetric]
    by (simp add: spiGetClockDiv_def spiGetBitOrder_eq bit_order_rd)
      (simp add: u_def mode_edges_rd)
qed

definition spi_ex :: spi_soc where
  "spi_ex = \<lparr>soc_regs = \<lambda>_. 0xFFFFFFFF, soc_trace = [], spi_lock = (\<lambda>n. n = 3), spi_mem = word_of_nat\<rparr>"

theorem spiTransaction_settings_witness:
  "\<exists>t. spiTransaction (Some 3) 0x00101001 2 0 spi_ex = Some t
    \<and> spiGetClockDiv (Some 3) t = 0x00101001 \<and> spiGetDataMode (Some 3) t = 2
    \<and> spiGetBitOrder (Some 3) t = 0 \<and> held (SpiLock 3) t = 1"
  using spiTransaction_settings [of spi_ex 3 "0x00101001" 2 0]
  by (auto simp: spi_ex_def held_def)

text \<open>
  \<open>spiStartBus\<close> refuses exactly the bus numbers above 3 and a bus whose mutex cannot be created,
  touching nothing; otherwise the bus has its mutex, the clock divider, data mode and bit order asked
  for (most significant bit first for an unknown order), full duplex is on, the data buffer is
  cleared, and the mutex is free again.
\<close>

theorem spiStartBus_state:
  "if n \<le> 3 \<and> (spi_lock s n \<or> mutex_ok)
   then \<exists>t. spiStartBus mutex_ok n clk m b s = Some (Some n, t)
     \<and> spi_lock t = (spi_lock s)(n := True)
     \<and> spiGetClockDiv (Some n) t = clk
     \<and> spiGetDataMode (Some n) t = (if m \<le> 3 then m else 0)
     \<and> spiGetBitOrder (Some n) t = (if b \<le> 1 then b else SPI_MSBFIRST)
     \<and> getf (Spi n suser) usr_mosi t = 1 \<and> getf (Spi n suser) usr_miso t = 1
     \<and> getf (Spi n suser) doutdin t = 1
     \<and> map (\<lambda>i. rd (Spi n (data_buf i)) t) [0..<16] = replicate 16 0
     \<and> (\<forall>l. held l t = held l s)
   else spiStartBus mutex_ok n clk m b s = Some (None, s)"
proof (cases "n \<le> 3 \<and> (spi_lock s n \<or> mutex_ok)")
  case True
  let ?take = "ext (SemTake (SpiLock n)) :: spi_soc \<Rightarrow> spi_soc"
  let ?give = "ext (SemGive (SpiLock n)) :: spi_soc \<Rightarrow> spi_soc"
  define s1 where "s1 = spi_power n (s\<lparr>spi_lock := (spi_lock s)(n := True)\<rparr>)"
  define s2 where "s2 = ?give (exec (stop_stores n) (?take s1))"
  define s3 where "s3 = ?give (exec (mode_edges m n) (?take s2))"
  define s4 where "s4 = ?give (exec (bit_order_stores b n) (?take s3))"
  define s5 where "s5 = ?give (wr (Spi n sclock) clk (?take s4))"
  define s6 where "s6 = ?give (exec (start_stores n) (?take s5))"
  have lock: "spi_lock s1 = (spi_lock s)(n := True)" "spi_lock s2 = spi_lock s1"
      "spi_lock s3 = spi_lock s2" "spi_lock s4 = spi_lock s3" "spi_lock s5 = spi_lock s4"
      "spi_lock s6 = spi_lock s5"
    by (simp_all add: s1_def s2_def s3_def s4_def s5_def s6_def spi_vars_exec mode_edges_lock
        bit_order_lock stop_stores_lock start_stores_lock)
  then have n: "spi_lock s1 n" "spi_lock s2 n" "spi_lock s3 n" "spi_lock s4 n" "spi_lock s5 n"
    by (simp_all only: fun_upd_same)
  have "spiStopBus (Some n) s1 = Some s2"
    using n(1) by (simp add: spiStopBus_def on_bus_def locked_eq stop_stores_lock s2_def)
  moreover have "spiSetDataMode (Some n) m s2 = Some s3"
    using n(2) by (simp add: spiSetDataMode_def on_bus_def locked_eq mode_edges_lock s3_def)
  moreover have "spiSetBitOrder (Some n) b s3 = Some s4"
    using n(3) by (simp add: spiSetBitOrder_def on_bus_def locked_eq bit_order_lock s4_def)
  moreover have "spiSetClockDiv (Some n) clk s4 = Some s5"
    using n(4) by (simp add: spiSetClockDiv_def on_bus_def locked_def spi_take_def spi_give_def s5_def)
  moreover have "locked start_stores n s5 = Some s6"
    using n(5) by (simp add: locked_eq start_stores_lock s6_def)
  ultimately have start: "spiStartBus mutex_ok n clk m b s = Some (Some n, s6)"
    using True by (auto simp add: spiStartBus_def s1_def)
  have "getf (Spi n spin) ck_idle_edge s6 = of_flag (m = 2 \<or> m = 3)"
      "getf (Spi n suser) ck_out_edge s6 = of_flag (m = 1 \<or> m = 2)"
    by (simp_all add: s6_def s5_def s4_def s3_def getf_start getf_steps(4) getf_wr mode_edges_getf
        getf_bit_order)
  then have mode: "spiGetDataMode (Some n) s6 = (if m \<le> 3 then m else 0)"
    by (rule spiGetDataMode_eq)
  have "spiGetBitOrder (Some n) s3 = SPI_MSBFIRST"
    by (simp add: spiGetBitOrder_def s3_def s2_def getf_def mode_edges_rd stop_stores_rd
        spi_consts bf_get_def)
  moreover have "spiGetBitOrder (Some n) (?take s3) = spiGetBitOrder (Some n) s3"
    by (rule spiGetBitOrder_cong) simp
  moreover have "spiGetBitOrder (Some n) s6
      = spiGetBitOrder (Some n) (exec (bit_order_stores b n) (?take s3))"
    by (rule spiGetBitOrder_cong) (auto simp: s6_def s5_def s4_def start_stores_rd)
  ultimately have order: "spiGetBitOrder (Some n) s6 = (if b \<le> 1 then b else SPI_MSBFIRST)"
    by (simp add: spiGetBitOrder_eq)
  have clock: "spiGetClockDiv (Some n) s6 = clk"
    by (auto simp: spiGetClockDiv_def s6_def s5_def start_stores_rd)
  have buffer: "map (\<lambda>i. rd (Spi n (data_buf i)) s6) [0..<16] = replicate 16 0"
    by (rule nth_equalityI) (simp_all add: s6_def start_stores_state)
  have duplex: "getf (Spi n suser) usr_mosi s6 = 1" "getf (Spi n suser) usr_miso s6 = 1"
      "getf (Spi n suser) doutdin s6 = 1"
    by (simp_all add: s6_def getf_steps(4) start_stores_state)
  have held: "held l s6 = held l s" for l
    by (simp add: s6_def s5_def s4_def s3_def s2_def s1_def)
  have "spi_lock s6 = (spi_lock s)(n := True)"
    by (simp only: lock)
  with True start mode order clock buffer duplex held show ?thesis
    by simp
qed (auto simp: spiStartBus_def)

end
