(* ===== verification/SpiTransfer.thy ===== *)
theory SpiTransfer
  imports Spi
begin

text \<open>
  The data transfers of \<^verbatim>\<open>esp32-hal-spi.c\<close>. A transfer stores its lengths and its words in the bus's
  registers, sets \<^verbatim>\<open>cmd.usr\<close> and waits for the controller to clear it; \<open>env\<close> is the step the
  controller makes before each reading of that bit, and a controller that never finishes is the
  outcome \<open>None\<close>. Buffers are addresses in \<open>spi_mem\<close>, so a transfer in place or between overlapping
  buffers behaves as it does in C.

  What a peer sees is read off the log of stores: \<open>sent n s\<close> are the bytes the controller of bus \<open>n\<close>
  put on its data line, in order.
\<close>

section \<open>Words\<close>

definition spiTranslate24 :: "u32 \<Rightarrow> u32" where
  "spiTranslate24 data = bytes_word (word_byte data 2) (word_byte data 1) (word_byte data 0) 0"

definition spiTranslate32 :: "u32 \<Rightarrow> u32" where
  "spiTranslate32 data =
     bytes_word (word_byte data 3) (word_byte data 2) (word_byte data 1) (word_byte data 0)"

definition MSB_32_SET :: "u32 \<Rightarrow> u32" where
  "MSB_32_SET v = bytes_word (word_byte v 3) (word_byte v 2) (word_byte v 1) (word_byte v 0)"

definition MSB_24_SET :: "u32 \<Rightarrow> u32" where
  "MSB_24_SET v = bytes_word (word_byte v 2) (word_byte v 1) (word_byte v 0) 0"

definition MSB_16_SET :: "u32 \<Rightarrow> u32" where
  "MSB_16_SET v = drop_bit 8 (v AND 0xFF00) OR push_bit 8 (v AND 0xFF)"

definition MSB_PIX_SET :: "u32 \<Rightarrow> u32" where
  "MSB_PIX_SET v = bytes_word (word_byte v 1) (word_byte v 0) (word_byte v 3) (word_byte v 2)"

definition swap16 :: "u16 \<Rightarrow> u16" where
  "swap16 data = drop_bit 8 data OR push_bit 8 data"

section \<open>One exchange\<close>

definition spi_go :: "(spi_soc \<Rightarrow> spi_soc) \<Rightarrow> nat \<Rightarrow> (spi_soc \<Rightarrow> spi_soc option) list" where
  "spi_go env n =
     [stmt (setf (Spi n scmd) spi_usr 1), await env (\<lambda>s. getf (Spi n scmd) spi_usr s = 0)]"

definition spi_lengths :: "nat \<Rightarrow> u32 \<Rightarrow> u32 \<Rightarrow> (spi_soc \<Rightarrow> spi_soc option) list" where
  "spi_lengths n mosi miso =
     [stmt (setf (Spi n mosi_dlen) usr_mosi_dbitlen mosi),
      stmt (setf (Spi n miso_dlen) usr_miso_dbitlen miso)]"

text \<open>\<^verbatim>\<open>data_buf[i] = data[i]\<close> and \<^verbatim>\<open>data[i] = data_buf[i]\<close> for a buffer of words.\<close>

definition put_word :: "nat \<Rightarrow> nat \<Rightarrow> nat \<Rightarrow> spi_soc \<Rightarrow> spi_soc" where
  "put_word n data i s = wr (Spi n (data_buf i)) (load32 (spi_mem s) (data + 4 * i)) s"

definition get_word :: "nat \<Rightarrow> nat \<Rightarrow> nat \<Rightarrow> spi_soc \<Rightarrow> spi_soc" where
  "get_word n data i s =
     s\<lparr>spi_mem := store32 (data + 4 * i) (rd (Spi n (data_buf i)) s) (spi_mem s)\<rparr>"

text \<open>\<open>reading f g h\<close>: the statements \<open>f\<close>, then the value \<open>g\<close> read, then the statements \<open>h\<close>.\<close>

definition reading ::
  "('s \<Rightarrow> 's option) \<Rightarrow> ('s \<Rightarrow> 's \<Rightarrow> 'v) \<Rightarrow> ('s \<Rightarrow> 's option) \<Rightarrow> 's \<Rightarrow> ('v \<times> 's) option" where
  "reading f g h s =
     (case f s of
        None \<Rightarrow> None
      | Some t \<Rightarrow> (case h t of None \<Rightarrow> None | Some u \<Rightarrow> Some (g t u, u)))"

definition on_bus_value ::
  "'v \<Rightarrow> spi_t \<Rightarrow> (nat \<Rightarrow> spi_soc \<Rightarrow> ('v \<times> spi_soc) option) \<Rightarrow> spi_soc \<Rightarrow> ('v \<times> spi_soc) option" where
  "on_bus_value v spi f s = (case spi of None \<Rightarrow> Some (v, s) | Some n \<Rightarrow> f n s)"

definition spiWaitReady :: "(spi_soc \<Rightarrow> spi_soc) \<Rightarrow> spi_t \<Rightarrow> spi_soc \<Rightarrow> spi_soc option" where
  "spiWaitReady env spi = on_bus spi (\<lambda>n. await env (\<lambda>s. getf (Spi n scmd) spi_usr s = 0))"

definition spiWrite ::
  "(spi_soc \<Rightarrow> spi_soc) \<Rightarrow> spi_t \<Rightarrow> nat \<Rightarrow> u8 \<Rightarrow> spi_soc \<Rightarrow> spi_soc option" where
  "spiWrite env spi data len = on_bus spi (\<lambda>n.
     let len = (if 16 < unat len then 16 else unat len) in
     run ([spi_take n]
       @ spi_lengths n (of_nat len * 32 - 1) 0
       @ map (\<lambda>i. stmt (put_word n data i)) [0..<len]
       @ spi_go env n
       @ [spi_give n]))"

definition spiTransfer ::
  "(spi_soc \<Rightarrow> spi_soc) \<Rightarrow> spi_t \<Rightarrow> nat \<Rightarrow> u8 \<Rightarrow> spi_soc \<Rightarrow> spi_soc option" where
  "spiTransfer env spi data len = on_bus spi (\<lambda>n.
     let len = (if 16 < unat len then 16 else unat len) in
     run ([spi_take n]
       @ spi_lengths n (of_nat len * 32 - 1) (of_nat len * 32 - 1)
       @ map (\<lambda>i. stmt (put_word n data i)) [0..<len]
       @ spi_go env n
       @ map (\<lambda>i. stmt (get_word n data i)) [0..<len]
       @ [spi_give n]))"

section \<open>Single values\<close>

text \<open>One word out, with the lengths given: what all single transfers do between their locks.\<close>

definition spi_word :: "(spi_soc \<Rightarrow> spi_soc) \<Rightarrow> nat \<Rightarrow> u32 \<Rightarrow> u32 \<Rightarrow> u32 \<Rightarrow> (spi_soc \<Rightarrow> spi_soc option) list"
  where
  "spi_word env n mosi miso data =
     spi_lengths n mosi miso @ [stmt (wr (Spi n (data_buf 0)) data)] @ spi_go env n"

definition wr_msb :: "nat \<Rightarrow> spi_soc \<Rightarrow> bool" where
  "wr_msb n s \<longleftrightarrow> getf (Spi n sctrl) wr_bit_order s = 0"

definition rd_msb :: "nat \<Rightarrow> spi_soc \<Rightarrow> bool" where
  "rd_msb n s \<longleftrightarrow> getf (Spi n sctrl) rd_bit_order s = 0"

definition spiWriteByte :: "(spi_soc \<Rightarrow> spi_soc) \<Rightarrow> spi_t \<Rightarrow> u8 \<Rightarrow> spi_soc \<Rightarrow> spi_soc option" where
  "spiWriteByte env spi data = on_bus spi (\<lambda>n.
     run ([spi_take n] @ spi_word env n 7 0 (ucast data) @ [spi_give n]))"

definition spiTransferByte ::
  "(spi_soc \<Rightarrow> spi_soc) \<Rightarrow> spi_t \<Rightarrow> u8 \<Rightarrow> spi_soc \<Rightarrow> (u8 \<times> spi_soc) option" where
  "spiTransferByte env spi data = on_bus_value 0 spi (\<lambda>n.
     reading (run ([spi_take n] @ spi_word env n 7 7 (ucast data)))
       (\<lambda>t _. ucast (rd (Spi n (data_buf 0)) t AND 0xFF))
       (spi_give n))"

definition spiWriteWord :: "(spi_soc \<Rightarrow> spi_soc) \<Rightarrow> spi_t \<Rightarrow> u16 \<Rightarrow> spi_soc \<Rightarrow> spi_soc option" where
  "spiWriteWord env spi data = on_bus spi (\<lambda>n s.
     let data = (if wr_msb n s then swap16 data else data) in
     run ([spi_take n] @ spi_word env n 15 0 (ucast data) @ [spi_give n]) s)"

definition spiTransferWord ::
  "(spi_soc \<Rightarrow> spi_soc) \<Rightarrow> spi_t \<Rightarrow> u16 \<Rightarrow> spi_soc \<Rightarrow> (u16 \<times> spi_soc) option" where
  "spiTransferWord env spi data = on_bus_value 0 spi (\<lambda>n s.
     let data = (if wr_msb n s then swap16 data else data) in
     reading (run ([spi_take n] @ spi_word env n 15 15 (ucast data)))
       (\<lambda>t u. let data = ucast (rd (Spi n (data_buf 0)) t)
              in if rd_msb n u then swap16 data else data)
       (spi_give n) s)"

definition spiWriteLong :: "(spi_soc \<Rightarrow> spi_soc) \<Rightarrow> spi_t \<Rightarrow> u32 \<Rightarrow> spi_soc \<Rightarrow> spi_soc option" where
  "spiWriteLong env spi data = on_bus spi (\<lambda>n s.
     let data = (if wr_msb n s then spiTranslate32 data else data) in
     run ([spi_take n] @ spi_word env n 31 0 data @ [spi_give n]) s)"

definition spiTransferLong ::
  "(spi_soc \<Rightarrow> spi_soc) \<Rightarrow> spi_t \<Rightarrow> u32 \<Rightarrow> spi_soc \<Rightarrow> (u32 \<times> spi_soc) option" where
  "spiTransferLong env spi data = on_bus_value 0 spi (\<lambda>n s.
     let data = (if wr_msb n s then spiTranslate32 data else data) in
     reading (run ([spi_take n] @ spi_word env n 31 31 data))
       (\<lambda>t u. let data = rd (Spi n (data_buf 0)) t
              in if rd_msb n u then spiTranslate32 data else data)
       (spi_give n) s)"

section \<open>Buffers of bytes\<close>

text \<open>The local buffer of \<^verbatim>\<open>__spiTransferBytes\<close> after \<^verbatim>\<open>memcpy\<close> or \<^verbatim>\<open>memset\<close>.\<close>

definition bytesBuf :: "mem \<Rightarrow> nat \<Rightarrow> nat \<Rightarrow> mem" where
  "bytesBuf m data bytes k =
     (if k < bytes then (if data \<noteq> NULL then m (data + k) else 0xFF) else 0)"

definition copy_out :: "nat \<Rightarrow> nat \<Rightarrow> nat \<Rightarrow> spi_soc \<Rightarrow> spi_soc" where
  "copy_out n out bytes s =
     (if out = NULL then s
      else s\<lparr>spi_mem := upd_range out bytes
        (\<lambda>k. word_byte (rd (Spi n (data_buf (k div 4))) s) (k mod 4)) (spi_mem s)\<rparr>)"

definition spi_chunk ::
  "(spi_soc \<Rightarrow> spi_soc) \<Rightarrow> spi_t \<Rightarrow> nat \<Rightarrow> nat \<Rightarrow> nat \<Rightarrow> spi_soc \<Rightarrow> spi_soc option" where
  "spi_chunk env spi data out bytes = on_bus spi (\<lambda>n s.
     let bytes = (if 64 < bytes then 64 else bytes);
         words = (bytes + 3) div 4;
         buf = bytesBuf (spi_mem s) data bytes
     in run (spi_lengths n (of_nat bytes * 8 - 1) (of_nat bytes * 8 - 1)
          @ map (\<lambda>i. stmt (wr (Spi n (data_buf i)) (load32 buf (4 * i)))) [0..<words]
          @ spi_go env n
          @ [stmt (copy_out n out bytes)]) s)"

text \<open>\<^verbatim>\<open>p += k\<close> for a pointer that may be NULL, under the test the code makes.\<close>

definition advance :: "nat \<Rightarrow> nat \<Rightarrow> nat" where
  "advance k p = (if p \<noteq> NULL then p + k else p)"

fun spi_bytes_loop ::
  "(spi_soc \<Rightarrow> spi_soc) \<Rightarrow> spi_t \<Rightarrow> nat \<Rightarrow> nat \<Rightarrow> nat \<Rightarrow> spi_soc \<Rightarrow> spi_soc option" where
  "spi_bytes_loop env spi data out size' s =
     (if size' = 0 then Some s
      else if 64 < size' then
        case spi_chunk env spi data out 64 s of
          None \<Rightarrow> None
        | Some t \<Rightarrow> spi_bytes_loop env spi (advance 64 data) (advance 64 out) (size' - 64) t
      else spi_chunk env spi data out size' s)"

declare spi_bytes_loop.simps [simp del]

definition spiTransferBytes ::
  "(spi_soc \<Rightarrow> spi_soc) \<Rightarrow> spi_t \<Rightarrow> nat \<Rightarrow> nat \<Rightarrow> nat \<Rightarrow> spi_soc \<Rightarrow> spi_soc option" where
  "spiTransferBytes env spi data out size' = on_bus spi (\<lambda>n.
     run [spi_take n, spi_bytes_loop env spi data out size', spi_give n])"

section \<open>Bits\<close>

definition msb_set :: "nat \<Rightarrow> u32 \<Rightarrow> u32" where
  "msb_set bytes v =
     (if bytes = 2 then MSB_16_SET v else if bytes = 3 then MSB_24_SET v else MSB_32_SET v)"

definition put_out :: "nat \<Rightarrow> nat \<Rightarrow> nat \<Rightarrow> spi_soc \<Rightarrow> spi_soc" where
  "put_out n out bytes s =
     (let data = rd (Spi n (data_buf 0)) s in
      if out = NULL then s
      else
        let s = s\<lparr>spi_mem := store32 out data (spi_mem s)\<rparr> in
        if rd_msb n s then s\<lparr>spi_mem := store32 out (msb_set bytes data) (spi_mem s)\<rparr> else s)"

definition spiTransferBitsNL ::
  "(spi_soc \<Rightarrow> spi_soc) \<Rightarrow> spi_t \<Rightarrow> u32 \<Rightarrow> nat \<Rightarrow> u8 \<Rightarrow> spi_soc \<Rightarrow> spi_soc option" where
  "spiTransferBitsNL env spi data out bits' = on_bus spi (\<lambda>n s.
     let bits = (if 32 < unat bits' then 32 else unat bits');
         bytes = (bits + 7) div 8;
         data = data AND mask bits;
         data = (if wr_msb n s then msb_set bytes data else data)
     in run (spi_word env n (of_nat bits - 1) (of_nat bits - 1) data @ [stmt (put_out n out bytes)]) s)"

definition spiTransferBits ::
  "(spi_soc \<Rightarrow> spi_soc) \<Rightarrow> spi_t \<Rightarrow> u32 \<Rightarrow> nat \<Rightarrow> u8 \<Rightarrow> spi_soc \<Rightarrow> spi_soc option" where
  "spiTransferBits env spi data out bits' = on_bus spi (\<lambda>n.
     run [spi_take n, spiTransferBitsNL env spi data out bits', spi_give n])"

section \<open>Transfers under a mutex the caller holds\<close>

definition spiWriteByteNL :: "(spi_soc \<Rightarrow> spi_soc) \<Rightarrow> spi_t \<Rightarrow> u8 \<Rightarrow> spi_soc \<Rightarrow> spi_soc option" where
  "spiWriteByteNL env spi data = on_bus spi (\<lambda>n. run (spi_word env n 7 0 (ucast data)))"

definition spiTransferByteNL ::
  "(spi_soc \<Rightarrow> spi_soc) \<Rightarrow> spi_t \<Rightarrow> u8 \<Rightarrow> spi_soc \<Rightarrow> (u8 \<times> spi_soc) option" where
  "spiTransferByteNL env spi data = on_bus_value 0 spi (\<lambda>n.
     reading (run (spi_word env n 7 7 (ucast data)))
       (\<lambda>t _. ucast (rd (Spi n (data_buf 0)) t AND 0xFF)) (run []))"

definition spiWriteShortNL :: "(spi_soc \<Rightarrow> spi_soc) \<Rightarrow> spi_t \<Rightarrow> u16 \<Rightarrow> spi_soc \<Rightarrow> spi_soc option" where
  "spiWriteShortNL env spi data = on_bus spi (\<lambda>n s.
     let data = (if wr_msb n s then ucast (MSB_16_SET (ucast data)) else data) in
     run (spi_word env n 15 0 (ucast data)) s)"

definition spiTransferShortNL ::
  "(spi_soc \<Rightarrow> spi_soc) \<Rightarrow> spi_t \<Rightarrow> u16 \<Rightarrow> spi_soc \<Rightarrow> (u16 \<times> spi_soc) option" where
  "spiTransferShortNL env spi data = on_bus_value 0 spi (\<lambda>n s.
     let data = (if wr_msb n s then ucast (MSB_16_SET (ucast data)) else data) in
     reading (run (spi_word env n 15 15 (ucast data)))
       (\<lambda>t _. let data = ucast (rd (Spi n (data_buf 0)) t AND 0xFFFF)
              in if rd_msb n t then ucast (MSB_16_SET (ucast data)) else data)
       (run []) s)"

definition spiWriteLongNL :: "(spi_soc \<Rightarrow> spi_soc) \<Rightarrow> spi_t \<Rightarrow> u32 \<Rightarrow> spi_soc \<Rightarrow> spi_soc option" where
  "spiWriteLongNL env spi data = on_bus spi (\<lambda>n s.
     let data = (if wr_msb n s then MSB_32_SET data else data) in
     run (spi_word env n 31 0 data) s)"

definition spiTransferLongNL ::
  "(spi_soc \<Rightarrow> spi_soc) \<Rightarrow> spi_t \<Rightarrow> u32 \<Rightarrow> spi_soc \<Rightarrow> (u32 \<times> spi_soc) option" where
  "spiTransferLongNL env spi data = on_bus_value 0 spi (\<lambda>n s.
     let data = (if wr_msb n s then MSB_32_SET data else data) in
     reading (run (spi_word env n 31 31 data))
       (\<lambda>t _. let data = rd (Spi n (data_buf 0)) t
              in if rd_msb n t then MSB_32_SET data else data)
       (run []) s)"

text \<open>\<^verbatim>\<open>len >> 2\<close>, plus one if bytes remain.\<close>

definition longs_of :: "nat \<Rightarrow> nat" where
  "longs_of len = (if len mod 4 \<noteq> 0 then len div 4 + 1 else len div 4)"

fun spi_write_loop ::
  "(spi_soc \<Rightarrow> spi_soc) \<Rightarrow> nat \<Rightarrow> nat \<Rightarrow> nat \<Rightarrow> nat \<Rightarrow> spi_soc \<Rightarrow> spi_soc option" where
  "spi_write_loop env n data longs len s =
     (if len = 0 then Some s
      else
        let c_len = (if 64 < len then 64 else len);
            c_longs = (if 16 < longs then 16 else longs)
        in case run (spi_lengths n (of_nat c_len * 8 - 1) 0
                @ map (\<lambda>i. stmt (put_word n data i)) [0..<c_longs]
                @ spi_go env n) s of
             None \<Rightarrow> None
           | Some t \<Rightarrow>
               spi_write_loop env n (data + 4 * c_longs) (longs - c_longs) (len - c_len) t)"

declare spi_write_loop.simps [simp del]

text \<open>There is no NULL test here: a NULL handle is dereferenced in the first iteration.\<close>

definition spiWriteNL ::
  "(spi_soc \<Rightarrow> spi_soc) \<Rightarrow> spi_t \<Rightarrow> nat \<Rightarrow> nat \<Rightarrow> spi_soc \<Rightarrow> spi_soc option" where
  "spiWriteNL env spi data_in len s =
     (case spi of
        None \<Rightarrow> if len = 0 then Some s else None
      | Some n \<Rightarrow> spi_write_loop env n data_in (longs_of len) len s)"

fun spi_transfer_loop ::
  "(spi_soc \<Rightarrow> spi_soc) \<Rightarrow> nat \<Rightarrow> nat \<Rightarrow> nat \<Rightarrow> nat \<Rightarrow> nat \<Rightarrow> spi_soc \<Rightarrow> spi_soc option" where
  "spi_transfer_loop env n data result longs len s =
     (if len = 0 then Some s
      else
        let c_len = (if 64 < len then 64 else len);
            c_longs = (if 16 < longs then 16 else longs)
        in case run (spi_lengths n (of_nat c_len * 8 - 1) (of_nat c_len * 8 - 1)
                @ (if data \<noteq> NULL
                   then map (\<lambda>i. stmt (put_word n data i)) [0..<c_longs]
                   else map (\<lambda>i. stmt (wr (Spi n (data_buf i)) 0xFFFFFFFF)) [0..<c_longs])
                @ spi_go env n
                @ (if result \<noteq> NULL
                   then map (\<lambda>i. stmt (get_word n result i)) [0..<c_longs] else [])) s of
             None \<Rightarrow> None
           | Some t \<Rightarrow>
               spi_transfer_loop env n (advance (4 * c_longs) data) (advance (4 * c_longs) result)
                 (longs - c_longs) (len - c_len) t)"

declare spi_transfer_loop.simps [simp del]

definition spiTransferBytesNL ::
  "(spi_soc \<Rightarrow> spi_soc) \<Rightarrow> spi_t \<Rightarrow> nat \<Rightarrow> nat \<Rightarrow> nat \<Rightarrow> spi_soc \<Rightarrow> spi_soc option" where
  "spiTransferBytesNL env spi data_in data_out len = on_bus spi (\<lambda>n.
     spi_transfer_loop env n data_in data_out (longs_of len) len)"

definition pix_word :: "bool \<Rightarrow> nat \<Rightarrow> bool \<Rightarrow> u32 \<Rightarrow> u32" where
  "pix_word msb l_bytes final v =
     (if msb then
        if l_bytes \<noteq> 0 \<and> final then (if l_bytes = 2 then MSB_16_SET v else v AND 0xFF)
        else MSB_PIX_SET v
      else v)"

fun spi_pixel_loop ::
  "(spi_soc \<Rightarrow> spi_soc) \<Rightarrow> nat \<Rightarrow> bool \<Rightarrow> nat \<Rightarrow> nat \<Rightarrow> nat \<Rightarrow> spi_soc \<Rightarrow> spi_soc option" where
  "spi_pixel_loop env n msb data longs len s =
     (if len = 0 then Some s
      else
        let c_len = (if 64 < len then 64 else len);
            c_longs = (if 16 < longs then 16 else longs);
            l_bytes = c_len mod 4
        in case run (spi_lengths n (of_nat c_len * 8 - 1) 0
                @ map (\<lambda>i s. Some (wr (Spi n (data_buf i))
                      (pix_word msb l_bytes (i = c_longs - 1) (load32 (spi_mem s) (data + 4 * i))) s))
                    [0..<c_longs]
                @ spi_go env n) s of
             None \<Rightarrow> None
           | Some t \<Rightarrow>
               spi_pixel_loop env n msb (data + 4 * c_longs) (longs - c_longs) (len - c_len) t)"

declare spi_pixel_loop.simps [simp del]

definition spiWritePixelsNL ::
  "(spi_soc \<Rightarrow> spi_soc) \<Rightarrow> spi_t \<Rightarrow> nat \<Rightarrow> nat \<Rightarrow> spi_soc \<Rightarrow> spi_soc option" where
  "spiWritePixelsNL env spi data_in len s =
     (case spi of
        None \<Rightarrow> None
      | Some n \<Rightarrow> spi_pixel_loop env n (wr_msb n s) data_in (longs_of len) len s)"

section \<open>What goes over the wire\<close>

text \<open>
  The controller's view of the stores of bus \<open>n\<close>: the length register, the data buffer, and the bytes
  sent so far. A store that sets \<^verbatim>\<open>cmd.usr\<close> sends as many whole bytes as the length register holds
  bits, from the buffer's first word on, the low byte of a word first.
\<close>

type_synonym wire = "u32 \<times> (nat \<Rightarrow> u32) \<times> u8 list"

definition wire_bytes :: "(nat \<Rightarrow> u32) \<Rightarrow> nat \<Rightarrow> u8 list" where
  "wire_bytes b k = map (\<lambda>i. word_byte (b (i div 4)) (i mod 4)) [0..<k]"

fun wire_store :: "spi_reg \<Rightarrow> u32 \<Rightarrow> wire \<Rightarrow> wire" where
  "wire_store mosi_dlen v (l, b, out) = (v, b, out)"
| "wire_store (data_buf i) v (l, b, out) = (l, b(i := v), out)"
| "wire_store scmd v (l, b, out) =
     (l, b, if bflag spi_usr v
            then out @ wire_bytes b ((unat (bf_get usr_mosi_dbitlen l) + 1) div 8) else out)"
| "wire_store _ v w = w"

fun wire_step :: "nat \<Rightarrow> event \<Rightarrow> wire \<Rightarrow> wire" where
  "wire_step n (Wr (Spi m r) v) w = (if m = n then wire_store r v w else w)"
| "wire_step n _ w = w"

definition wire_of :: "nat \<Rightarrow> 'a soc_scheme \<Rightarrow> wire" where
  "wire_of n s = fold (wire_step n) (soc_trace s) (0, \<lambda>_. 0, [])"

definition sent :: "nat \<Rightarrow> 'a soc_scheme \<Rightarrow> u8 list" where
  "sent n s = snd (snd (wire_of n s))"

lemma wire_of_wr [simp]: "wire_of n (wr r v s) = wire_step n (Wr r v) (wire_of n s)"
  by (simp add: wire_of_def)

lemma wire_of_ext [simp]: "wire_of n (ext c s) = wire_of n s"
  by (simp add: wire_of_def)

lemma wire_of_trace: "soc_trace t = soc_trace s \<Longrightarrow> wire_of n t = wire_of n s"
  by (simp add: wire_of_def)

lemma held_trace: "soc_trace t = soc_trace s \<Longrightarrow> held l t = held l s"
  by (simp add: held_def)

lemma sent_ext [simp]: "sent n (ext c s) = sent n s"
  by (simp add: sent_def)

section \<open>The controller\<close>

text \<open>
  What the documentation of the controller promises: it finishes every exchange, and while it works
  it makes no store of the processor's, keeps to its data buffer and command register, and leaves
  memory and mutexes alone.
\<close>

definition spi_hw :: "(spi_soc \<Rightarrow> spi_soc) \<Rightarrow> nat \<Rightarrow> bool" where
  "spi_hw env n \<longleftrightarrow>
     (\<forall>s. soc_trace (env s) = soc_trace s \<and> spi_lock (env s) = spi_lock s
        \<and> spi_mem (env s) = spi_mem s \<and> rd (Spi n sctrl) (env s) = rd (Spi n sctrl) s)
     \<and> (\<forall>s. \<exists>k. getf (Spi n scmd) spi_usr ((env ^^ Suc k) s) = 0)"

text \<open>A controller whose data lines are tied together: it reads back what it sends.\<close>

definition spi_loopback :: "(spi_soc \<Rightarrow> spi_soc) \<Rightarrow> nat \<Rightarrow> bool" where
  "spi_loopback env n \<longleftrightarrow>
     (\<forall>s i. rd (Spi n (data_buf i)) (env s) = rd (Spi n (data_buf i)) s)"

definition quiet :: "nat \<Rightarrow> spi_soc \<Rightarrow> spi_soc \<Rightarrow> bool" where
  "quiet n s t \<longleftrightarrow> spi_lock t = spi_lock s \<and> rd (Spi n sctrl) t = rd (Spi n sctrl) s
     \<and> (\<forall>l. held l t = held l s)"

lemma quiet_refl [simp]: "quiet n s s"
  by (simp add: quiet_def)

lemma quiet_trans: "quiet n s t \<Longrightarrow> quiet n t u \<Longrightarrow> quiet n s u"
  by (simp add: quiet_def)

lemma await_hw:
  assumes "spi_hw env n"
  shows "\<exists>t. await env (\<lambda>s. getf (Spi n scmd) spi_usr s = 0) s = Some t
    \<and> soc_trace t = soc_trace s \<and> spi_mem t = spi_mem s \<and> quiet n s t
    \<and> (spi_loopback env n \<longrightarrow> (\<forall>i. rd (Spi n (data_buf i)) t = rd (Spi n (data_buf i)) s))"
proof -
  have step: "soc_trace (env u) = soc_trace u" "spi_lock (env u) = spi_lock u"
      "spi_mem (env u) = spi_mem u" "rd (Spi n sctrl) (env u) = rd (Spi n sctrl) u" for u
    using assms by (simp_all add: spi_hw_def)
  have "\<exists>k. getf (Spi n scmd) spi_usr ((env ^^ Suc k) s) = 0"
    using assms unfolding spi_hw_def by blast
  then obtain t where t: "await env (\<lambda>s. getf (Spi n scmd) spi_usr s = 0) s = Some t"
    using await_ex [of "\<lambda>s. getf (Spi n scmd) spi_usr s = 0" env s] by blast
  have "soc_trace t = soc_trace s \<and> spi_mem t = spi_mem s \<and> spi_lock t = spi_lock s
      \<and> rd (Spi n sctrl) t = rd (Spi n sctrl) s"
    by (rule await_Some_inv [OF t]) (simp_all add: step)
  moreover have "\<forall>i. rd (Spi n (data_buf i)) t = rd (Spi n (data_buf i)) s" if "spi_loopback env n"
    by (rule await_Some_inv [OF t]) (use that in \<open>simp_all add: spi_loopback_def\<close>)
  ultimately show ?thesis
    using t unfolding quiet_def held_def by auto
qed

lemma stores_wire:
  "wire_of n (exec (map (\<lambda>i. wr (Spi n (data_buf i)) (w i)) [0..<k]) s) =
     (fst (wire_of n s), \<lambda>i. if i < k then w i else fst (snd (wire_of n s)) i, sent n s)"
proof (induction k)
  case 0
  show ?case by (simp add: sent_def)
next
  case (Suc k)
  then show ?case
    by (auto simp: exec_append fun_eq_iff less_Suc_eq)
qed

lemma stores_vars:
  "spi_lock (exec (map (\<lambda>i. wr (Spi n (data_buf i)) (w i)) [0..<k]) s) = spi_lock s"
  "spi_mem (exec (map (\<lambda>i. wr (Spi n (data_buf i)) (w i)) [0..<k]) s) = spi_mem s"
  "held l (exec (map (\<lambda>i. wr (Spi n (data_buf i)) (w i)) [0..<k]) s) = held l s"
  "rd (Spi n sctrl) (exec (map (\<lambda>i. wr (Spi n (data_buf i)) (w i)) [0..<k]) s) = rd (Spi n sctrl) s"
  "i < k \<Longrightarrow> rd (Spi n (data_buf i)) (exec (map (\<lambda>i. wr (Spi n (data_buf i)) (w i)) [0..<k]) s) = w i"
  by (induction k) (auto simp: exec_append less_Suc_eq)

lemma put_words:
  "exec (map (put_word n data) [0..<k]) s =
     exec (map (\<lambda>i. wr (Spi n (data_buf i)) (load32 (spi_mem s) (data + 4 * i))) [0..<k]) s"
  by (induction k) (simp_all add: exec_append put_word_def stores_vars)

lemma word_less_nat_bound: "m < 2 ^ 32 \<Longrightarrow> unat (of_nat m :: u32) = m"
  by (simp add: unsigned_of_nat take_bit_nat_eq_self)

lemma run_stmts: "run (map (\<lambda>i. stmt (f i)) xs) s = Some (exec (map f xs) s)"
  by (induction xs arbitrary: s) simp_all

text \<open>The length registers hold the number of bits less one.\<close>

lemma dbitlen_bytes:
  assumes "0 < k" and "k \<le> 64"
  shows "(unat (bf_get usr_mosi_dbitlen (bf_put usr_mosi_dbitlen (of_nat k * 8 - 1) x)) + 1) div 8 = k"
proof -
  have "of_nat k * 8 - (1 :: u32) = of_nat (k * 8 - 1)"
    using assms by (simp add: of_nat_diff)
  moreover have "unat (of_nat (k * 8 - 1) :: u32) = k * 8 - 1"
    by (rule word_less_nat_bound) (use assms in simp)
  moreover have "take_bit 24 (k * 8 - 1) = k * 8 - 1"
    by (rule take_bit_nat_eq_self) (use assms in simp)
  ultimately have "unat (take_bit 24 (of_nat k * 8 - 1 :: u32)) = k * 8 - 1"
    by (simp only: unsigned_take_bit_eq)
  then show ?thesis
    using assms by (simp add: bf_get_put_same usr_mosi_dbitlen_def)
qed

lemma bflag_usr: "bflag spi_usr (bf_put spi_usr 1 x)"
  by (simp add: bflag_def bf_get_put_same spi_usr_def take_bit_Suc)

text \<open>One exchange: lengths, words, go. The words may be followed by statements that read them.\<close>

lemma spi_exchange:
  assumes "spi_hw env n" and "0 < bytes" and "bytes \<le> 64" and "bytes \<le> 4 * k"
  shows "\<exists>t. run (spi_lengths n (of_nat bytes * 8 - 1) miso
        @ map (\<lambda>i. stmt (wr (Spi n (data_buf i)) (w i))) [0..<k] @ spi_go env n @ rest) s = run rest t
    \<and> sent n t = sent n s @ wire_bytes w bytes \<and> spi_mem t = spi_mem s \<and> quiet n s t
    \<and> (spi_loopback env n \<longrightarrow> (\<forall>i\<in>{..<k}. rd (Spi n (data_buf i)) t = w i))"
proof -
  let ?stores = "map (\<lambda>i. wr (Spi n (data_buf i)) (w i)) [0..<k]"
  define s1 where "s1 = setf (Spi n miso_dlen) usr_miso_dbitlen miso
      (setf (Spi n mosi_dlen) usr_mosi_dbitlen (of_nat bytes * 8 - 1) s)"
  define s2 where "s2 = exec ?stores s1"
  define s3 where "s3 = setf (Spi n scmd) spi_usr 1 s2"
  obtain t where t: "await env (\<lambda>s. getf (Spi n scmd) spi_usr s = 0) s3 = Some t"
    and frame: "soc_trace t = soc_trace s3" "spi_mem t = spi_mem s3" "quiet n s3 t"
    and loop: "spi_loopback env n \<Longrightarrow> rd (Spi n (data_buf i)) t = rd (Spi n (data_buf i)) s3" for i
    using await_hw [OF assms(1), of s3] by blast
  have "run (spi_lengths n (of_nat bytes * 8 - 1) miso
        @ map (\<lambda>i. stmt (wr (Spi n (data_buf i)) (w i))) [0..<k] @ spi_go env n @ rest) s = run rest t"
    using t by (simp only: spi_lengths_def spi_go_def append_Cons append_Nil run.simps stmt_apply
        option.case run_append run_stmts s1_def [symmetric] s2_def [symmetric] s3_def [symmetric])
  moreover have "wire_of n t = wire_of n s3"
    using frame(1) by (rule wire_of_trace)
  moreover have "wire_of n s3 = wire_step n (Wr (Spi n scmd) (bf_put spi_usr 1 (rd (Spi n scmd) s2)))
      (wire_of n s2)"
    by (simp add: s3_def setf_def)
  moreover have "wire_of n s2 = (bf_put usr_mosi_dbitlen (of_nat bytes * 8 - 1) (rd (Spi n mosi_dlen) s),
      \<lambda>i. if i < k then w i else fst (snd (wire_of n s1)) i, sent n s)"
    unfolding s2_def stores_wire by (cases "wire_of n s") (simp add: s1_def setf_def sent_def)
  moreover have "wire_bytes (\<lambda>i. if i < k then w i else f i) bytes = wire_bytes w bytes" for f
    using assms(4) by (auto simp: wire_bytes_def)
  ultimately have "sent n t = sent n s @ wire_bytes w bytes"
    using dbitlen_bytes [OF assms(2,3)] by (simp add: sent_def bflag_usr)
  moreover have "spi_mem t = spi_mem s" "quiet n s t"
    using frame(2,3) by (simp_all add: s3_def s2_def s1_def stores_vars quiet_def)
  moreover have "rd (Spi n (data_buf i)) t = w i" if "spi_loopback env n" "i < k" for i
    using loop [OF that(1)] that(2) by (simp add: s3_def s2_def stores_vars)
  ultimately show ?thesis
    using \<open>run _ s = run rest t\<close> by auto
qed

lemma wire_bytes_words:
  "wire_bytes (\<lambda>i. load32 m (a + 4 * i)) k = map (\<lambda>i. m (a + i)) [0..<k]"
  by (simp add: wire_bytes_def word_byte_load32 add.assoc)

section \<open>Transfers of byte buffers\<close>

text \<open>The bytes a transfer sends: the caller's buffer, or 0xFF for a NULL one.\<close>

definition source :: "mem \<Rightarrow> nat \<Rightarrow> nat \<Rightarrow> u8" where
  "source m data k = (if data \<noteq> NULL then m (data + k) else 0xFF)"

definition outside :: "nat \<Rightarrow> nat \<Rightarrow> nat \<Rightarrow> bool" where
  "outside out size' p \<longleftrightarrow> out = NULL \<or> p < out \<or> out + size' \<le> p"

lemma quiet_mem [simp]: "quiet n s (t\<lparr>spi_mem := m\<rparr>) = quiet n s t"
  by (simp add: quiet_def held_def rd_def)

lemma sent_mem [simp]: "sent n (t\<lparr>spi_mem := m\<rparr>) = sent n t"
  by (simp add: sent_def wire_of_def)

lemma spi_chunk_ok:
  assumes "spi_hw env n" and "0 < bytes" and "bytes \<le> 64"
  shows "\<exists>t. spi_chunk env (Some n) data out bytes s = Some t
    \<and> sent n t = sent n s @ map (source (spi_mem s) data) [0..<bytes] \<and> quiet n s t
    \<and> (\<forall>p. outside out bytes p \<longrightarrow> spi_mem t p = spi_mem s p)
    \<and> (spi_loopback env n \<longrightarrow> out \<noteq> NULL
        \<longrightarrow> (\<forall>k\<in>{..<bytes}. spi_mem t (out + k) = source (spi_mem s) data k))"
proof -
  let ?buf = "bytesBuf (spi_mem s) data bytes"
  let ?k = "(bytes + 3) div 4"
  have k: "bytes \<le> 4 * ?k"
    by linarith
  from spi_exchange [OF assms k, where w = "\<lambda>i. load32 ?buf (4 * i)" and s = s
      and rest = "[stmt (copy_out n out bytes)]" and miso = "of_nat bytes * 8 - 1"]
  obtain t where t: "spi_chunk env (Some n) data out bytes s = Some (copy_out n out bytes t)"
    and st: "sent n t = sent n s @ wire_bytes (\<lambda>i. load32 ?buf (0 + 4 * i)) bytes"
      "spi_mem t = spi_mem s" "quiet n s t"
    and loop: "spi_loopback env n \<Longrightarrow> i < ?k \<Longrightarrow> rd (Spi n (data_buf i)) t = load32 ?buf (4 * i)" for i
    using assms(3) by (auto simp: spi_chunk_def on_bus_def)
  have "map ?buf [0..<bytes] = map (source (spi_mem s) data) [0..<bytes]"
    by (simp add: bytesBuf_def source_def)
  then have "sent n t = sent n s @ map (source (spi_mem s) data) [0..<bytes]"
    using st(1) wire_bytes_words [of ?buf 0 bytes] by simp
  moreover have "spi_mem (copy_out n out bytes t) (out + j) = source (spi_mem s) data j"
    if "spi_loopback env n" "out \<noteq> NULL" "j < bytes" for j
  proof -
    have "j div 4 < ?k"
      using that(3) by (simp add: less_mult_imp_div_less)
    then have "rd (Spi n (data_buf (j div 4))) t = load32 ?buf (4 * (j div 4))"
      using loop that(1) by blast
    then show ?thesis
      using that by (simp add: copy_out_def upd_range_def word_byte_load32 bytesBuf_def source_def)
  qed
  moreover have "spi_mem (copy_out n out bytes t) p = spi_mem s p" if "outside out bytes p" for p
    using that st(2) by (auto simp: copy_out_def upd_range_def outside_def)
  ultimately show ?thesis
    using t st(3) by (auto simp: copy_out_def)
qed

lemma upt_split: "m \<le> n \<Longrightarrow> map f [0..<n] = map f [0..<m] @ map (\<lambda>k. f (m + k)) [0..<n - m]"
  by (rule nth_equalityI) (auto simp: nth_append)

lemma spi_bytes_loop_ok:
  assumes "spi_hw env n"
    and "data = NULL \<or> out \<le> data \<or> data + size' \<le> out"
  shows "\<exists>t. spi_bytes_loop env (Some n) data out size' s = Some t
    \<and> sent n t = sent n s @ map (source (spi_mem s) data) [0..<size'] \<and> quiet n s t
    \<and> (\<forall>p. outside out size' p \<longrightarrow> spi_mem t p = spi_mem s p)
    \<and> (spi_loopback env n \<longrightarrow> out \<noteq> NULL
        \<longrightarrow> (\<forall>k\<in>{..<size'}. spi_mem t (out + k) = source (spi_mem s) data k))"
  using assms(2)
proof (induction size' arbitrary: data out s rule: less_induct)
  case (less size')
  consider "size' = 0" | "0 < size'" "size' \<le> 64" | "64 < size'"
    by linarith
  then show ?case
  proof cases
    case 1
    then show ?thesis
      by (simp add: spi_bytes_loop.simps)
  next
    case 2
    then show ?thesis
      using spi_chunk_ok [OF assms(1) 2, of data out s] by (simp add: spi_bytes_loop.simps)
  next
    case 3
    obtain t where t: "spi_chunk env (Some n) data out 64 s = Some t"
      "sent n t = sent n s @ map (source (spi_mem s) data) [0..<64]" "quiet n s t"
      "\<forall>p. outside out 64 p \<longrightarrow> spi_mem t p = spi_mem s p"
      "spi_loopback env n \<longrightarrow> out \<noteq> NULL
        \<longrightarrow> (\<forall>k\<in>{..<64}. spi_mem t (out + k) = source (spi_mem s) data k)"
      using spi_chunk_ok [OF assms(1), of 64 data out s] by auto
    have "size' - 64 < size'"
      using 3 by simp
    moreover have "advance 64 data = NULL \<or> advance 64 out \<le> advance 64 data
        \<or> advance 64 data + (size' - 64) \<le> advance 64 out"
      using less.prems 3 by (auto simp: advance_def)
    ultimately obtain u where
      u: "spi_bytes_loop env (Some n) (advance 64 data) (advance 64 out) (size' - 64) t = Some u"
      "sent n u = sent n t @ map (source (spi_mem t) (advance 64 data)) [0..<size' - 64]" "quiet n t u"
      "\<forall>p. outside (advance 64 out) (size' - 64) p \<longrightarrow> spi_mem u p = spi_mem t p"
      "spi_loopback env n \<longrightarrow> advance 64 out \<noteq> NULL
        \<longrightarrow> (\<forall>k\<in>{..<size' - 64}. spi_mem u (advance 64 out + k) = source (spi_mem t) (advance 64 data) k)"
      using less.IH [of "size' - 64" "advance 64 data" "advance 64 out" t] by blast
    have source: "source (spi_mem t) (advance 64 data) k = source (spi_mem s) data (64 + k)"
      if "k < size' - 64" for k
    proof (cases "data = NULL")
      case False
      then have "outside out 64 (data + (64 + k))"
        using less.prems that by (auto simp: outside_def)
      with t(4) False show ?thesis
        by (simp add: source_def advance_def add.assoc)
    qed (simp add: source_def advance_def)
    have "sent n u = sent n s @ map (source (spi_mem s) data) [0..<size']"
      using t(2) u(2) 3 source upt_split [of 64 size' "source (spi_mem s) data"] by simp
    moreover have "quiet n s u"
      using t(3) u(3) by (rule quiet_trans)
    moreover have "spi_mem u p = spi_mem s p" if "outside out size' p" for p
    proof -
      have "outside out 64 p" "outside (advance 64 out) (size' - 64) p"
        using that 3 by (auto simp: outside_def advance_def)
      with t(4) u(4) show ?thesis
        by simp
    qed
    moreover have "spi_mem u (out + k) = source (spi_mem s) data k"
      if "spi_loopback env n" "out \<noteq> NULL" "k < size'" for k
    proof (cases "k < 64")
      case True
      then have "outside (advance 64 out) (size' - 64) (out + k)"
        using that(2) by (simp add: outside_def advance_def)
      with t(5) u(4) that True show ?thesis
        by simp
    next
      case False
      define j where "j = k - 64"
      have j: "k = 64 + j" "j < size' - 64"
        using False that(3) by (simp_all add: j_def)
      moreover have "advance 64 out \<noteq> NULL"
        using that(2) by (simp add: advance_def)
      ultimately have "spi_mem u (advance 64 out + j) = source (spi_mem s) data (64 + j)"
        using u(5) that(1) source by simp
      with that(2) j show ?thesis
        by (simp add: advance_def add.assoc)
    qed
    ultimately show ?thesis
      using t(1) u(1) 3 by (auto simp: spi_bytes_loop.simps [of _ _ _ _ size'])
  qed
qed

text \<open>The same for the transfers that move whole words.\<close>

lemma get_words:
  "exec (map (get_word n a) [0..<k]) s =
     s\<lparr>spi_mem := upd_range a (4 * k)
       (\<lambda>p. word_byte (rd (Spi n (data_buf (p div 4))) s) (p mod 4)) (spi_mem s)\<rparr>"
proof -
  have "exec (map (get_word n a) [0..<k]) s =
     s\<lparr>spi_mem := fold (\<lambda>i. store32 (a + 4 * i) (rd (Spi n (data_buf i)) s)) [0..<k] (spi_mem s)\<rparr>"
    by (induction k) (simp_all add: exec_append get_word_def rd_def)
  then show ?thesis
    by (simp add: fold_store32)
qed

lemma longs_of_step:
  "64 < len \<Longrightarrow> longs_of len = 16 + longs_of (len - 64)" "len \<le> 64 \<Longrightarrow> longs_of len \<le> 16"
  "len \<le> 4 * longs_of len"
proof -
  show "longs_of len = 16 + longs_of (len - 64)" if "64 < len"
  proof -
    from that obtain k where "len = 64 + k"
      by (metis less_imp_add_positive)
    moreover have "(64 + k) mod 4 = k mod 4" "(64 + k) div 4 = 16 + k div 4" for k :: nat
      by presburger+
    ultimately show ?thesis
      by (simp add: longs_of_def)
  qed
  show "longs_of len \<le> 16" if "len \<le> 64"
    using that unfolding longs_of_def by presburger
  show "len \<le> 4 * longs_of len"
    unfolding longs_of_def by auto
qed

lemma chunk_lens:
  assumes "0 < len"
  defines "c \<equiv> (if 64 < len then 64 else len)"
    and "k \<equiv> (if 16 < longs_of len then 16 else longs_of len)"
  shows "0 < c" "c \<le> 64" "c \<le> 4 * k" "len - c < len" "longs_of len - k = longs_of (len - c)"
    "len \<noteq> c \<Longrightarrow> 4 * k = c" "c \<le> len" "k \<le> longs_of len" "4 * k < c + 4" "even len \<Longrightarrow> even c"
proof -
  have "(64 < len \<and> c = 64 \<and> k = 16) \<or> (len \<le> 64 \<and> c = len \<and> k = longs_of len)"
  proof (cases "64 < len")
    case True
    then have "0 < longs_of (len - 64)"
      using longs_of_step(3) [of "len - 64"] by (cases "longs_of (len - 64)") simp_all
    with True show ?thesis
      using longs_of_step(1) [of len] by (simp add: c_def k_def)
  next
    case False
    then show ?thesis
      using longs_of_step(2) [of len] by (simp add: c_def k_def)
  qed
  moreover have "4 * longs_of len < len + 4"
    unfolding longs_of_def by presburger
  ultimately show "0 < c" "c \<le> 64" "c \<le> 4 * k" "len - c < len" "longs_of len - k = longs_of (len - c)"
    "len \<noteq> c \<Longrightarrow> 4 * k = c" "c \<le> len" "k \<le> longs_of len" "4 * k < c + 4" "even len \<Longrightarrow> even c"
    using assms(1) longs_of_step(1,3) [of len] by (auto simp: longs_of_def [of 0])
qed

text \<open>One iteration of the word transfers: \<open>longs\<close> words of which \<open>len\<close> bytes are sent.\<close>

lemma spi_words_ok:
  assumes "spi_hw env n" and "0 < len" and "len \<le> 64" and "len \<le> 4 * k"
  shows "\<exists>t. run (spi_lengths n (of_nat len * 8 - 1) miso
        @ map (\<lambda>i. stmt (put_word n data i)) [0..<k] @ spi_go env n @ rest) s = run rest t
    \<and> sent n t = sent n s @ map (\<lambda>i. spi_mem s (data + i)) [0..<len]
    \<and> spi_mem t = spi_mem s \<and> quiet n s t
    \<and> (spi_loopback env n \<longrightarrow>
        (\<forall>i\<in>{..<k}. rd (Spi n (data_buf i)) t = load32 (spi_mem s) (data + 4 * i)))"
proof -
  define w where "w i = load32 (spi_mem s) (data + 4 * i)" for i
  have "run (spi_lengths n (of_nat len * 8 - 1) miso
        @ map (\<lambda>i. stmt (put_word n data i)) [0..<k] @ spi_go env n @ rest) s
    = run (spi_lengths n (of_nat len * 8 - 1) miso
        @ map (\<lambda>i. stmt (wr (Spi n (data_buf i)) (w i))) [0..<k] @ spi_go env n @ rest) s"
    by (simp add: spi_lengths_def run_append [of "map _ _"] run_stmts put_words w_def)
  then show ?thesis
    using spi_exchange [OF assms, of miso w rest s] wire_bytes_words [of "spi_mem s" data len]
    by (simp add: w_def [abs_def])
qed

lemma spi_write_loop_ok:
  assumes "spi_hw env n"
  shows "\<exists>t. spi_write_loop env n data (longs_of len) len s = Some t
    \<and> sent n t = sent n s @ map (\<lambda>i. spi_mem s (data + i)) [0..<len]
    \<and> spi_mem t = spi_mem s \<and> quiet n s t"
proof (induction len arbitrary: data s rule: less_induct)
  case (less len)
  show ?case
  proof (cases "len = 0")
    case True
    then show ?thesis
      by (simp add: spi_write_loop.simps)
  next
    case False
    define c where "c = (if 64 < len then 64 else len)"
    define k where "k = (if 16 < longs_of len then 16 else longs_of len)"
    have "0 < len"
      using False by simp
    note c = chunk_lens [OF this, folded c_def k_def]
    obtain t where t: "run (spi_lengths n (of_nat c * 8 - 1) 0
        @ map (\<lambda>i. stmt (put_word n data i)) [0..<k] @ spi_go env n) s = Some t"
      "sent n t = sent n s @ map (\<lambda>i. spi_mem s (data + i)) [0..<c]" "spi_mem t = spi_mem s" "quiet n s t"
      using spi_words_ok [OF assms c(1-3), of 0 data "[]" s] by auto
    obtain u where u: "spi_write_loop env n (data + 4 * k) (longs_of (len - c)) (len - c) t = Some u"
      "sent n u = sent n t @ map (\<lambda>i. spi_mem t (data + 4 * k + i)) [0..<len - c]"
      "spi_mem u = spi_mem t" "quiet n t u"
      using less.IH [OF c(4), of "data + 4 * k" t] by blast
    have "sent n u = sent n s @ map (\<lambda>i. spi_mem s (data + i)) [0..<len]"
      using t(2,3) u(2) c(6,7) upt_split [of c len "\<lambda>i. spi_mem s (data + i)"]
      by (cases "len = c") (simp_all add: add.assoc)
    moreover have "spi_write_loop env n data (longs_of len) len s = Some u"
      using False t(1) u(1) c(5)
      by (simp add: spi_write_loop.simps [of _ _ _ _ len] c_def [symmetric] k_def [symmetric] Let_def)
    ultimately show ?thesis
      using t(3,4) u(3,4) by (auto intro: quiet_trans)
  qed
qed

lemma spi_transfer_loop_ok:
  assumes "spi_hw env n" and "spi_loopback env n" and "data \<noteq> NULL" and "result \<noteq> NULL"
    and "result \<le> data \<or> data + 4 * longs_of len \<le> result"
  shows "\<exists>t. spi_transfer_loop env n data result (longs_of len) len s = Some t
    \<and> sent n t = sent n s @ map (\<lambda>i. spi_mem s (data + i)) [0..<len] \<and> quiet n s t
    \<and> spi_mem t = upd_range result (4 * longs_of len) (\<lambda>k. spi_mem s (data + k)) (spi_mem s)"
  using assms(3-)
proof (induction len arbitrary: data result s rule: less_induct)
  case (less len)
  show ?case
  proof (cases "len = 0")
    case True
    then show ?thesis
      by (simp add: spi_transfer_loop.simps longs_of_def)
  next
    case False
    define c where "c = (if 64 < len then 64 else len)"
    define k where "k = (if 16 < longs_of len then 16 else longs_of len)"
    have "0 < len"
      using False by simp
    note c = chunk_lens [OF this, folded c_def k_def]
    let ?get = "map (\<lambda>i. stmt (get_word n result i)) [0..<k]"
    let ?m = "upd_range result (4 * k) (\<lambda>j. spi_mem s (data + j)) (spi_mem s)"
    obtain t0 where t0: "run (spi_lengths n (of_nat c * 8 - 1) (of_nat c * 8 - 1)
        @ map (\<lambda>i. stmt (put_word n data i)) [0..<k] @ spi_go env n @ ?get) s = run ?get t0"
      "sent n t0 = sent n s @ map (\<lambda>i. spi_mem s (data + i)) [0..<c]" "spi_mem t0 = spi_mem s"
      "quiet n s t0"
      "\<forall>i\<in>{..<k}. rd (Spi n (data_buf i)) t0 = load32 (spi_mem s) (data + 4 * i)"
      using spi_words_ok [OF assms(1) c(1-3), of "of_nat c * 8 - 1" data ?get s] assms(2) by auto
    define t where "t = exec (map (get_word n result) [0..<k]) t0"
    have t: "run ?get t0 = Some t" "sent n t = sent n t0" "quiet n s t" "spi_mem t = ?m"
    proof -
      show "spi_mem t = ?m"
        using t0(3,5)
        by (auto simp: t_def get_words upd_range_def fun_eq_iff less_mult_imp_div_less
            word_byte_load32 add.assoc)
    qed (use t0(4) in \<open>simp_all add: t_def run_stmts get_words\<close>)
    have away: "spi_mem t (data + 4 * k + j) = spi_mem s (data + 4 * k + j)"
      if "j < 4 * longs_of (len - c)" for j
      using less.prems(3) that c(5,8) by (auto simp: t(4) upd_range_def)
    have longs: "longs_of len = k + longs_of (len - c)"
      using c(5,8) by linarith
    then have "result + 4 * k \<le> data + 4 * k \<or> data + 4 * k + 4 * longs_of (len - c) \<le> result + 4 * k"
      using less.prems(3) by auto
    then obtain u where u:
      "spi_transfer_loop env n (data + 4 * k) (result + 4 * k) (longs_of (len - c)) (len - c) t = Some u"
      "sent n u = sent n t @ map (\<lambda>i. spi_mem t (data + 4 * k + i)) [0..<len - c]" "quiet n t u"
      "spi_mem u = upd_range (result + 4 * k) (4 * longs_of (len - c))
         (\<lambda>j. spi_mem t (data + 4 * k + j)) (spi_mem t)"
      using less.IH [OF c(4), of "data + 4 * k" "result + 4 * k" t] less.prems(1,2) by auto
    have "map (\<lambda>i. spi_mem t (data + 4 * k + i)) [0..<len - c]
        = map (\<lambda>i. spi_mem s (data + 4 * k + i)) [0..<len - c]"
      using longs_of_step(3) [of "len - c"] by (auto simp: away)
    then have "sent n u = sent n s @ map (\<lambda>i. spi_mem s (data + i)) [0..<len]"
      using t(2) t0(2) u(2) c(6,7) upt_split [of c len "\<lambda>i. spi_mem s (data + i)"]
      by (cases "len = c") (simp_all add: add.assoc)
    moreover have "spi_mem u = upd_range result (4 * longs_of len) (\<lambda>j. spi_mem s (data + j)) (spi_mem s)"
      using less.prems(3) away c(5,8) unfolding u(4)
      by (auto simp: t(4) upd_range_def fun_eq_iff add.assoc)
    moreover have "spi_transfer_loop env n data result (longs_of len) len s = Some u"
      using False t0(1) t(1) u(1) c(5) less.prems(1,2)
      by (simp add: spi_transfer_loop.simps [of _ _ _ _ _ len] c_def [symmetric] k_def [symmetric]
          Let_def advance_def)
    ultimately show ?thesis
      using t(3) u(3) by (auto intro: quiet_trans)
  qed
qed

text \<open>A single value of one, two or four bytes.\<close>

lemma spi_word_ok:
  assumes "spi_hw env n" and "bytes \<in> {1, 2, 4}"
  shows "\<exists>t. run (spi_word env n (of_nat bytes * 8 - 1) miso v) s = Some t
    \<and> sent n t = sent n s @ map (word_byte v) [0..<bytes] \<and> spi_mem t = spi_mem s \<and> quiet n s t
    \<and> (spi_loopback env n \<longrightarrow> rd (Spi n (data_buf 0)) t = v)"
proof -
  have bytes: "0 < bytes" "bytes \<le> 64" "bytes \<le> 4 * 1"
    using assms(2) by auto
  have "wire_bytes (\<lambda>_. v) bytes = map (word_byte v) [0..<bytes]"
    using assms(2) by (auto simp: wire_bytes_def)
  then show ?thesis
    using spi_exchange [OF assms(1) bytes, of miso "\<lambda>_. v" "[]" s]
    by (auto simp: spi_word_def)
qed

lemma spi_word_locked:
  assumes "spi_hw env n" and "bytes \<in> {1, 2, 4}" and "spi_lock s n"
  shows "\<exists>t. run ([spi_take n] @ spi_word env n (of_nat bytes * 8 - 1) miso v) s = Some t
    \<and> sent n t = sent n s @ map (word_byte v) [0..<bytes] \<and> spi_lock t n
    \<and> rd (Spi n sctrl) t = rd (Spi n sctrl) s
    \<and> (\<forall>l. held l t = held l s + of_bool (l = SpiLock n))
    \<and> (spi_loopback env n \<longrightarrow> rd (Spi n (data_buf 0)) t = v)"
  using spi_word_ok [OF assms(1,2), of miso v "ext (SemTake (SpiLock n)) s"] assms(3)
  by (auto simp: spi_take_def quiet_def)

lemma translate32_involution: "spiTranslate32 (spiTranslate32 v) = v"
  by (simp add: spiTranslate32_def)

lemma upt_4: "[0..<4] = [0, 1, 2, 3 :: nat]"
  by (simp add: upt_rec)

lemma translate32_bytes:
  "map (word_byte (spiTranslate32 v)) [0..<4] = rev (map (word_byte v) [0..<4])"
  by (simp add: spiTranslate32_def upt_4)

text \<open>Pixels: within each half word the bytes change places.\<close>

definition pair_swap :: "nat \<Rightarrow> nat" where
  "pair_swap i = (if even i then i + 1 else i - 1)"

lemma MSB_16_SET_bytes: "word_byte (MSB_16_SET v) 0 = word_byte v 1"
  "word_byte (MSB_16_SET v) 1 = word_byte v 0"
proof -
  have mask: "(0xFF00 :: u32) = push_bit 8 (mask 8)" "(0xFF :: u32) = mask 8"
    by (simp_all add: mask_eq_exp_minus_1)
  show "word_byte (MSB_16_SET v) 0 = word_byte v 1" "word_byte (MSB_16_SET v) 1 = word_byte v 0"
    unfolding MSB_16_SET_def mask
    by (rule bit_word_eqI; auto simp: bits bit_simps)+
qed

lemma pix_word_bytes:
  assumes "even c" and "c \<le> 4 * k" and "4 * k < c + 4" and "i < c"
  shows "word_byte (pix_word True (c mod 4) (i div 4 = k - 1) (load32 m (a + 4 * (i div 4)))) (i mod 4)
    = m (a + pair_swap i)"
proof -
  define q r where "q = i div 4" and "r = i mod 4"
  have i: "i = 4 * q + r" "r < 4"
    by (simp_all add: q_def r_def)
  have l: "c mod 4 = 0 \<or> c mod 4 = 2"
    using assms(1) by presburger
  have whole: "word_byte (MSB_PIX_SET (load32 m (a + 4 * q))) r = m (a + pair_swap i)"
    using less_4_cases [OF i(2)]
    by (auto simp: MSB_PIX_SET_def i(1) pair_swap_def word_byte_load32)
      (simp add: eval_nat_numeral)
  have half: "word_byte (MSB_16_SET (load32 m (a + 4 * q))) r = m (a + pair_swap i)" if "r < 2"
    using that by (auto simp: less_2_cases_iff MSB_16_SET_bytes [unfolded One_nat_def] i(1)
        pair_swap_def word_byte_load32)
  show ?thesis
  proof (cases "c mod 4 = 2 \<and> q = k - 1")
    case True
    then have "4 * q + 2 = c"
      using assms by presburger
    with assms(4) i(1) have "r < 2"
      by simp
    with half True show ?thesis
      by (simp add: pix_word_def q_def r_def)
  next
    case False
    with whole l show ?thesis
      by (auto simp: pix_word_def q_def r_def)
  qed
qed

lemma pix_stores:
  "run (map (\<lambda>i s. Some (wr (Spi n (data_buf i)) (f i (load32 (spi_mem s) (data + 4 * i))) s))
      [0..<k] @ fs) s
   = run (map (\<lambda>i. stmt (wr (Spi n (data_buf i)) (f i (load32 (spi_mem s) (data + 4 * i))))) [0..<k] @ fs) s"
proof -
  have "run (map (\<lambda>i s. Some (wr (Spi n (data_buf i)) (f i (load32 (spi_mem s) (data + 4 * i))) s)) xs @ fs) s
   = run (map (\<lambda>i. stmt (wr (Spi n (data_buf i)) (f i (load32 m (data + 4 * i))))) xs @ fs) s"
    if "spi_mem s = m" for xs m
    using that by (induction xs arbitrary: s) simp_all
  then show ?thesis
    by simp
qed

lemma spi_pixel_loop_ok:
  assumes "spi_hw env n" and "even len"
  shows "\<exists>t. spi_pixel_loop env n True data (longs_of len) len s = Some t
    \<and> sent n t = sent n s @ map (\<lambda>i. spi_mem s (data + pair_swap i)) [0..<len]
    \<and> spi_mem t = spi_mem s \<and> quiet n s t"
  using assms(2)
proof (induction len arbitrary: data s rule: less_induct)
  case (less len)
  show ?case
  proof (cases "len = 0")
    case True
    then show ?thesis
      by (simp add: spi_pixel_loop.simps)
  next
    case False
    define c where "c = (if 64 < len then 64 else len)"
    define k where "k = (if 16 < longs_of len then 16 else longs_of len)"
    have "0 < len"
      using False by simp
    note c = chunk_lens [OF this, folded c_def k_def]
    have even: "even c" "even (len - c)"
      using c(10) less.prems by simp_all
    let ?w = "\<lambda>i. pix_word True (c mod 4) (i = k - 1) (load32 (spi_mem s) (data + 4 * i))"
    have "wire_bytes ?w c = map (\<lambda>i. spi_mem s (data + pair_swap i)) [0..<c]"
      unfolding wire_bytes_def using pix_word_bytes [OF even(1) c(3,9)] by (intro map_cong) auto
    then obtain t where t: "run (spi_lengths n (of_nat c * 8 - 1) 0
        @ map (\<lambda>i. stmt (wr (Spi n (data_buf i)) (?w i))) [0..<k] @ spi_go env n) s = Some t"
      "sent n t = sent n s @ map (\<lambda>i. spi_mem s (data + pair_swap i)) [0..<c]" "spi_mem t = spi_mem s"
      "quiet n s t"
      using spi_exchange [OF assms(1) c(1-3), of 0 ?w "[]" s] by auto
    have "run (spi_lengths n (of_nat c * 8 - 1) 0
        @ map (\<lambda>i s. Some (wr (Spi n (data_buf i))
            (pix_word True (c mod 4) (i = k - 1) (load32 (spi_mem s) (data + 4 * i))) s)) [0..<k]
        @ spi_go env n) s = Some t"
      using t(1) by (simp add: spi_lengths_def
          pix_stores [where f = "\<lambda>i. pix_word True (c mod 4) (i = k - 1)"] del: One_nat_def)
    moreover obtain u where u:
      "spi_pixel_loop env n True (data + 4 * k) (longs_of (len - c)) (len - c) t = Some u"
      "sent n u = sent n t @ map (\<lambda>i. spi_mem t (data + 4 * k + pair_swap i)) [0..<len - c]"
      "spi_mem u = spi_mem t" "quiet n t u"
      using less.IH [OF c(4) even(2), of "data + 4 * k" t] by blast
    ultimately have "spi_pixel_loop env n True data (longs_of len) len s = Some u"
      using False c(5)
      by (simp add: spi_pixel_loop.simps [of _ _ _ _ _ len] c_def [symmetric] k_def [symmetric] Let_def)
    moreover have "pair_swap (c + i) = c + pair_swap i" for i
      using even(1) by (auto simp: pair_swap_def elim: oddE)
    then have "sent n u = sent n s @ map (\<lambda>i. spi_mem s (data + pair_swap i)) [0..<len]"
      using t(2,3) u(2) c(6,7) upt_split [of c len "\<lambda>i. spi_mem s (data + pair_swap i)"]
      by (cases "len = c") (simp_all add: add.assoc)
    ultimately show ?thesis
      using t(3,4) u(3,4) by (auto intro: quiet_trans)
  qed
qed

section \<open>Properties\<close>


text \<open>
  With the data lines tied together, \<open>spiTransferBytes\<close> returns what it sends: the output buffer
  holds the input bytes, also when both are the same buffer.
\<close>

theorem spiTransferBytes_loopback:
  assumes "spi_hw env n" and "spi_loopback env n" and "spi_lock s n" and "out \<noteq> NULL"
    and "data = NULL \<or> out \<le> data \<or> data + size' \<le> out"
  shows "\<exists>t. spiTransferBytes env (Some n) data out size' s = Some t
    \<and> map (\<lambda>k. spi_mem t (out + k)) [0..<size'] = map (source (spi_mem s) data) [0..<size']"
proof -
  let ?s = "ext (SemTake (SpiLock n)) s"
  obtain t where "spi_bytes_loop env (Some n) data out size' ?s = Some t" "quiet n ?s t"
    "\<forall>k\<in>{..<size'}. spi_mem t (out + k) = source (spi_mem ?s) data k"
    using spi_bytes_loop_ok [OF assms(1,5), of ?s] assms(2,4) by blast
  then show ?thesis
    using assms(3)
    by (auto simp: spiTransferBytes_def on_bus_def spi_take_def spi_give_def quiet_def)
qed

text \<open>
  C39: \<open>spiTransferBytesNL\<close> moves whole words: with the data lines tied together it writes the input
  back not over \<open>len\<close> bytes of the output buffer but over the next multiple of four, up to three bytes
  past its end, with the bytes that lie behind the input.
\<close>

theorem spiTransferBytesNL_overrun:
  assumes "spi_hw env n" and "spi_loopback env n" and "data \<noteq> NULL" and "out \<noteq> NULL"
    and "out \<le> data \<or> data + 4 * longs_of len \<le> out"
  shows "\<exists>t. spiTransferBytesNL env (Some n) data out len s = Some t
    \<and> sent n t = sent n s @ map (\<lambda>i. spi_mem s (data + i)) [0..<len]
    \<and> spi_mem t = upd_range out (4 * ((len + 3) div 4)) (\<lambda>k. spi_mem s (data + k)) (spi_mem s)"
proof -
  have "longs_of len = (len + 3) div 4"
    unfolding longs_of_def by presburger
  then show ?thesis
    using spi_transfer_loop_ok [OF assms, of s] by (auto simp: spiTransferBytesNL_def on_bus_def)
qed

text \<open>
  A 32-bit value travels in the byte order that belongs to the bit order: most significant byte
  first when the bus sends the most significant bit first, else least significant byte first; with
  the data lines tied together \<open>spiTransferLong\<close> returns the value it sent, and the mutex is free again.
\<close>

theorem spiTransferLong_wire:
  assumes "spi_hw env n" and "spi_loopback env n" and "spi_lock s n" and "rd_msb n s = wr_msb n s"
  shows "\<exists>t. spiTransferLong env (Some n) v s = Some (v, t)
    \<and> sent n t = sent n s
        @ (if wr_msb n s then rev (map (word_byte v) [0..<4]) else map (word_byte v) [0..<4])
    \<and> (\<forall>l. held l t = held l s)"
proof -
  define w where "w = (if wr_msb n s then spiTranslate32 v else v)"
  obtain t where t: "run ([spi_take n] @ spi_word env n 31 31 w) s = Some t"
    "sent n t = sent n s @ map (word_byte w) [0..<4]" "spi_lock t n"
    "rd (Spi n sctrl) t = rd (Spi n sctrl) s"
    "\<forall>l. held l t = held l s + of_bool (l = SpiLock n)" "rd (Spi n (data_buf 0)) t = w"
    using spi_word_locked [OF assms(1) _ assms(3), of 4 31 w] assms(2) by auto
  have give: "spi_give n t = Some (ext (SemGive (SpiLock n)) t)"
    using t(3) by (simp add: spi_give_def)
  have "rd_msb n (ext (SemGive (SpiLock n)) t) = wr_msb n s"
    using assms(4) t(4) by (simp add: rd_msb_def getf_def)
  moreover have "(if wr_msb n s then spiTranslate32 w else w) = v"
    by (simp add: w_def translate32_involution)
  ultimately have "spiTransferLong env (Some n) v s = Some (v, ext (SemGive (SpiLock n)) t)"
    unfolding spiTransferLong_def on_bus_value_def option.case Let_def w_def [symmetric] reading_def
      t(1) give by (simp only: option.case t(6))
  then show ?thesis
    using t(2,5) by (auto simp: w_def translate32_bytes)
qed

text \<open>
  On a bus that sends the most significant bit first, \<open>spiTransferBits\<close> of eight bits sends the
  byte 0 whatever its argument: the byte is moved to the top of the word, and the bottom is sent.
\<close>

theorem spiTransferBits_loses_byte:
  assumes "spi_hw env n" and "spi_lock s n" and "wr_msb n s"
  shows "\<exists>t. spiTransferBits env (Some n) v NULL 8 s = Some t \<and> sent n t = sent n s @ [0]"
proof -
  let ?s = "ext (SemTake (SpiLock n)) s"
  let ?w = "MSB_32_SET (v AND mask 8)"
  have "word_byte (v AND mask 8) 3 = 0"
    by (rule bit_word_eqI) (simp add: bits bit_simps)
  then have zero: "word_byte ?w 0 = 0"
    by (simp add: MSB_32_SET_def)
  obtain t where "run (spi_word env n 7 7 ?w) ?s = Some t" "sent n t = sent n s @ [0]" "quiet n ?s t"
    using spi_word_ok [OF assms(1), of 1 7 ?w ?s] zero by auto
  then show ?thesis
    using assms(2,3)
    by (auto simp: spiTransferBits_def spiTransferBitsNL_def on_bus_def spi_take_def spi_give_def
        run_append msb_set_def put_out_def Let_def quiet_def wr_msb_def getf_def)
qed

text \<open>
  \<open>spiWritePixelsNL\<close> on a bus that sends the most significant bit first sends an even number of
  bytes as 16-bit pixels, high byte first: the bytes of each pair change places, across all chunks.
\<close>

theorem spiWritePixelsNL_pairs:
  assumes "spi_hw env n" and "wr_msb n s" and "even len"
  shows "\<exists>t. spiWritePixelsNL env (Some n) data len s = Some t
    \<and> sent n t = sent n s @ map (\<lambda>i. spi_mem s (data + pair_swap i)) [0..<len]"
  using spi_pixel_loop_ok [OF assms(1,3), of data s] assms(2)
  by (auto simp: spiWritePixelsNL_def)

section \<open>A concrete controller\<close>

text \<open>It ends every exchange at once and leaves the data buffer as it is: its lines are tied together.\<close>

definition spi_env_ex :: "nat \<Rightarrow> spi_soc \<Rightarrow> spi_soc" where
  "spi_env_ex n s = s\<lparr>soc_regs := (soc_regs s)(Spi n scmd := 0)\<rparr>"

lemma spi_env_ex_hw: "spi_hw (spi_env_ex n) n"
proof -
  have "getf (Spi n scmd) spi_usr ((spi_env_ex n ^^ Suc 0) s) = 0" for s
    by (simp add: spi_env_ex_def getf_def rd_def bf_get_def)
  then show ?thesis
    unfolding spi_hw_def by (auto simp: spi_env_ex_def rd_def intro: exI [of _ 0])
qed

lemma spi_env_ex_loopback: "spi_loopback (spi_env_ex n) n"
  by (simp add: spi_loopback_def spi_env_ex_def rd_def)

lemma sent_ex: "sent n spi_ex = []" "spi_lock spi_ex 3" "spi_mem spi_ex = word_of_nat"
  by (simp_all add: spi_ex_def sent_def wire_of_def)


theorem spiTransferBytes_loopback_witness:
  "\<exists>t. spiTransferBytes (spi_env_ex 3) (Some 3) 16 8 3 spi_ex = Some t \<and> spi_mem t 10 = 18"
  using spiTransferBytes_loopback [OF spi_env_ex_hw spi_env_ex_loopback sent_ex(2), of 8 16 3]
  by (auto simp: sent_ex source_def upt_rec)

theorem spiTransferBytesNL_overrun_witness:
  "\<exists>t. spiTransferBytesNL (spi_env_ex 3) (Some 3) 64 32 5 spi_ex = Some t
     \<and> sent 3 t = [64, 65, 66, 67, 68] \<and> spi_mem t 39 = 71"
  using spiTransferBytesNL_overrun [OF spi_env_ex_hw spi_env_ex_loopback, of 64 32 5 3 spi_ex]
  by (auto simp: sent_ex upt_rec longs_of_def upd_range_def)

lemma spi_ex_lsb: "\<not> wr_msb n spi_ex" "\<not> rd_msb n spi_ex"
proof -
  have ones: "rd r spi_ex = 0xFFFFFFFF" for r
    by (simp add: spi_ex_def rd_def)
  show "\<not> wr_msb n spi_ex" "\<not> rd_msb n spi_ex"
    unfolding wr_msb_def rd_msb_def getf_def ones wr_bit_order_def rd_bit_order_def bf_get_def
    by code_simp+
qed

theorem spiTransferLong_wire_witness:
  "\<exists>t. spiTransferLong (spi_env_ex 3) (Some 3) 0x11223344 spi_ex = Some (0x11223344, t)
     \<and> sent 3 t = [0x44, 0x33, 0x22, 0x11]"
proof -
  have "map (word_byte 0x11223344) [0..<4] = [0x44, 0x33, 0x22, 0x11]"
    by code_simp
  then show ?thesis
    using spiTransferLong_wire [OF spi_env_ex_hw spi_env_ex_loopback sent_ex(2), of "0x11223344"]
    by (auto simp: spi_ex_lsb sent_ex)
qed

text \<open>The same bus, with the most significant bit first.\<close>

definition spi_msb_ex :: spi_soc where
  "spi_msb_ex = setf (Spi 3 sctrl) wr_bit_order 0 spi_ex"

lemma msb_ex: "wr_msb 3 spi_msb_ex" "sent 3 spi_msb_ex = []" "spi_lock spi_msb_ex 3"
  "spi_mem spi_msb_ex = word_of_nat"
proof -
  show "wr_msb 3 spi_msb_ex"
    by (simp add: spi_msb_ex_def wr_msb_def getf_setf_same wr_bit_order_def)
  show "sent 3 spi_msb_ex = []"
    using sent_ex(1) [of 3] by (cases "wire_of 3 spi_ex") (simp add: spi_msb_ex_def sent_def setf_def)
qed (simp_all add: spi_msb_ex_def sent_ex)

theorem spiTransferBits_loses_byte_witness:
  "\<exists>t. spiTransferBits (spi_env_ex 3) (Some 3) 0xAB NULL 8 spi_msb_ex = Some t \<and> sent 3 t = [0]"
  using spiTransferBits_loses_byte [OF spi_env_ex_hw msb_ex(3,1), of "0xAB"] by (simp add: msb_ex)

theorem spiWritePixelsNL_pairs_witness:
  "\<exists>t. spiWritePixelsNL (spi_env_ex 3) (Some 3) 4 2 spi_msb_ex = Some t \<and> sent 3 t = [5, 4]"
  using spiWritePixelsNL_pairs [OF spi_env_ex_hw msb_ex(1), of 2 4]
  by (simp add: msb_ex upt_rec pair_swap_def)

end
