(* ===== verification/SpiClock.thy ===== *)
theory SpiClock
  imports Soc
begin

text \<open>
  The clock calculators of \<^verbatim>\<open>esp32-hal-spi.c\<close>: the frequency a clock register gives, and the search
  for the register that comes nearest to a frequency from below. The register is the union
  \<^verbatim>\<open>spiClk_t\<close>, here its 32-bit value with the bit fields; the system clock is 80 MHz.
\<close>

section \<open>Definitions\<close>

definition CPU_CLK_FREQ :: nat where "CPU_CLK_FREQ = 80000000"
definition SPI_CLK_EQU_SYSCLK :: u32 where "SPI_CLK_EQU_SYSCLK = BIT 31"

definition regL :: bfield where "regL = (0, 6)"
definition regN :: bfield where "regN = (12, 6)"
definition regPre :: bfield where "regPre = (18, 13)"

definition ClkRegToFreq :: "u32 \<Rightarrow> nat" where
  "ClkRegToFreq reg = CPU_CLK_FREQ div ((unat (bf_get regPre reg) + 1) * (unat (bf_get regN reg) + 1))"

definition spiClockDivToFrequency :: "u32 \<Rightarrow> nat" where
  "spiClockDivToFrequency clockDiv = ClkRegToFreq clockDiv"

text \<open>
  The body of the inner loop for one variation \<open>v\<close>: the register tried. The quotient is an unsigned
  expression cast to \<^verbatim>\<open>int32_t\<close>; it lies far below \<open>2 ^ 31\<close>, so the cast is the signed value.
\<close>

definition clk_candidate :: "nat \<Rightarrow> nat \<Rightarrow> int \<Rightarrow> u32" where
  "clk_candidate freq calN v =
     (let reg = bf_put regN (of_nat calN) 0;
          n = unat (bf_get regN reg);
          calPre = int ((CPU_CLK_FREQ div (n + 1)) div freq) - 1 + v;
          reg = bf_put regPre (if 0x1FFF < calPre then 0x1FFF else if calPre \<le> 0 then 0 else of_int calPre) reg
      in bf_put regL (of_nat ((n + 1) div 2)) reg)"

text \<open>
  The inner loop over the variations -1, 0, 1, 2: its state is the best register and its frequency;
  the flag says that the frequency was met exactly, which leaves both loops.
\<close>

fun clk_inner :: "nat \<Rightarrow> nat \<Rightarrow> int list \<Rightarrow> u32 \<times> nat \<Rightarrow> bool \<times> u32 \<times> nat" where
  "clk_inner freq calN [] best = (False, best)"
| "clk_inner freq calN (v # vs) (bestReg, bestFreq) =
     (let reg = clk_candidate freq calN v; calFreq = ClkRegToFreq reg in
      if calFreq = freq then (True, reg, bestFreq)
      else if calFreq < freq \<and> \<bar>int freq - int calFreq\<bar> < \<bar>int freq - int bestFreq\<bar>
      then clk_inner freq calN vs (reg, calFreq)
      else clk_inner freq calN vs (bestReg, bestFreq))"

fun clk_outer :: "nat \<Rightarrow> nat list \<Rightarrow> u32 \<times> nat \<Rightarrow> u32" where
  "clk_outer freq [] best = fst best"
| "clk_outer freq (calN # ns) best =
     (let (found, best) = clk_inner freq calN [-1, 0, 1, 2] best in
      if found then fst best else clk_outer freq ns best)"

definition spiFrequencyToClockDiv :: "u32 \<Rightarrow> u32" where
  "spiFrequencyToClockDiv f =
     (let freq = unat f in
      if CPU_CLK_FREQ \<le> freq then SPI_CLK_EQU_SYSCLK
      else
        let minFreqReg = 0x7FFFF000 in
        if freq < ClkRegToFreq minFreqReg then minFreqReg
        else clk_outer freq [1..<0x40] (0, 0))"

section \<open>Registers and dividers\<close>

text \<open>The frequency of the divider pair \<open>(pre, n)\<close>, and the pairs the registers can hold.\<close>

definition div_freq :: "nat \<Rightarrow> nat \<Rightarrow> nat" where
  "div_freq pre n = CPU_CLK_FREQ div ((pre + 1) * (n + 1))"

definition cand_pre :: "nat \<Rightarrow> nat \<Rightarrow> int \<Rightarrow> nat" where
  "cand_pre freq n v = nat (min 0x1FFF (max 0 (int (CPU_CLK_FREQ div (n + 1) div freq) - 1 + v)))"

lemma unat_bf_get_put:
  assumes "fst f + snd f \<le> 32" and "m < 2 ^ snd f"
  shows "unat (bf_get f (bf_put f (of_nat m) w)) = m"
proof -
  have "m < 2 ^ 32"
    using assms by (metis add_leD2 less_le_trans one_less_numeral_iff power_increasing_iff
        semiring_norm(76))
  then show ?thesis
    using assms by (simp add: bf_get_put_same unsigned_take_bit_eq unsigned_of_nat
        take_bit_nat_eq_self)
qed

lemma clk_candidate_freq:
  assumes "1 \<le> n" and "n < 64"
  shows "ClkRegToFreq (clk_candidate freq n v) = div_freq (cand_pre freq n v) n"
proof -
  define c where "c = int (CPU_CLK_FREQ div (n + 1) div freq) - 1 + v"
  have n: "unat (bf_get regN (bf_put regN (of_nat n) 0)) = n"
    using assms by (intro unat_bf_get_put) (simp_all add: regN_def)
  have pre: "(if 0x1FFF < c then 0x1FFF else if c \<le> 0 then 0 else of_int c :: u32)
      = of_nat (cand_pre freq n v)"
    unfolding cand_pre_def c_def [symmetric] by (auto simp: min_def max_def)
  have "cand_pre freq n v < 2 ^ snd regPre"
    by (simp add: cand_pre_def regPre_def nat_less_iff)
  then have "unat (bf_get regPre (bf_put regPre (of_nat (cand_pre freq n v)) w)) = cand_pre freq n v" for w
    by (intro unat_bf_get_put) (simp_all add: regPre_def)
  moreover have "bf_disjoint regL regPre" "bf_disjoint regL regN" "bf_disjoint regPre regN"
    by (simp_all add: bf_disjoint_def regL_def regPre_def regN_def)
  moreover have "clk_candidate freq n v = bf_put regL (of_nat ((n + 1) div 2))
      (bf_put regPre (of_nat (cand_pre freq n v)) (bf_put regN (of_nat n) 0))"
    unfolding clk_candidate_def Let_def n c_def [symmetric] pre ..
  ultimately show ?thesis
    by (simp add: ClkRegToFreq_def div_freq_def bf_get_put_other n)
qed

section \<open>The candidates of one \<open>n\<close> contain the best divider\<close>

lemma div_freq_antimono: "pre \<le> pre' \<Longrightarrow> div_freq pre' n \<le> div_freq pre n"
  unfolding div_freq_def by (rule div_le_mono2, simp, rule mult_le_mono, simp_all)

lemma div_freq_ge:
  "freq \<le> div_freq pre n \<longleftrightarrow> freq * ((pre + 1) * (n + 1)) \<le> CPU_CLK_FREQ"
  by (simp add: div_freq_def less_eq_div_iff_mult_less_eq)

lemma quotient_ge: "0 < freq \<Longrightarrow>
    q \<le> CPU_CLK_FREQ div (n + 1) div freq \<longleftrightarrow> freq * (q * (n + 1)) \<le> CPU_CLK_FREQ"
  by (simp add: div_mult2_eq [symmetric] less_eq_div_iff_mult_less_eq algebra_simps)

lemma best_candidate:
  assumes "0 < freq" and "pre < 8192" and "div_freq pre n \<le> freq"
  shows "\<exists>v\<in>{-1, 0, 1, 2}. div_freq pre n \<le> div_freq (cand_pre freq n v) n
    \<and> div_freq (cand_pre freq n v) n \<le> freq"
proof -
  define q where "q = CPU_CLK_FREQ div (n + 1) div freq"
  have ge: "freq \<le> div_freq p n \<longleftrightarrow> p + 1 \<le> q" for p
    using quotient_ge [OF assms(1), of "p + 1" n] by (simp add: div_freq_ge q_def)
  have cand: "cand_pre freq n v = nat (min 8191 (max 0 (int q - 1 + v)))" for v
    by (simp add: cand_pre_def q_def)
  consider "q = 0" | "8192 < q" | "0 < q" "q \<le> 8192" "pre + 1 \<le> q" | "0 < q" "q \<le> pre"
    by linarith
  then show ?thesis
  proof cases
    case 1
    then have "cand_pre freq n 0 = 0"
      by (simp add: cand)
    moreover have "div_freq 0 n \<le> freq"
      using ge [of 0] 1 by simp
    ultimately show ?thesis
      using div_freq_antimono [of 0 pre n] by auto
  next
    case 2
    then have "cand_pre freq n 0 = 8191"
      by (simp add: cand)
    moreover have "div_freq 8191 n \<le> div_freq pre n" "freq \<le> div_freq 8191 n"
      using div_freq_antimono [of pre 8191 n] assms(2) ge [of 8191] 2 by simp_all
    ultimately show ?thesis
      using assms(3) by force
  next
    case 3
    then have "cand_pre freq n 0 = q - 1"
      by (simp add: cand nat_diff_distrib)
    moreover have "div_freq (q - 1) n \<le> div_freq pre n" "freq \<le> div_freq (q - 1) n"
      using div_freq_antimono [of pre "q - 1" n] ge [of "q - 1"] 3 by simp_all
    ultimately show ?thesis
      using assms(3) by force
  next
    case 4
    then have "cand_pre freq n 1 = q"
      using assms(2) by (simp add: cand)
    moreover have "div_freq pre n \<le> div_freq q n" "div_freq q n \<le> freq"
      using div_freq_antimono [of q pre n] ge [of q] 4 by simp_all
    ultimately show ?thesis
      by force
  qed
qed

section \<open>The search\<close>

definition best_ok :: "nat \<Rightarrow> u32 \<times> nat \<Rightarrow> bool" where
  "best_ok freq best \<longleftrightarrow>
     snd best < freq \<and> (snd best = 0 \<or> ClkRegToFreq (fst best) = snd best)"

lemma clk_inner_spec:
  assumes "best_ok freq best"
  shows "let (found, best') = clk_inner freq n vs best in
    if found then ClkRegToFreq (fst best') = freq
    else best_ok freq best' \<and> snd best \<le> snd best'
      \<and> (\<forall>v\<in>set vs. ClkRegToFreq (clk_candidate freq n v) \<le> freq
            \<longrightarrow> ClkRegToFreq (clk_candidate freq n v) \<le> snd best')"
  using assms
proof (induction vs arbitrary: best)
  case (Cons v vs)
  obtain r f where best: "best = (r, f)"
    by (cases best)
  let ?c = "clk_candidate freq n v"
  have keep: "best_ok freq (?c, ClkRegToFreq ?c)" if "ClkRegToFreq ?c < freq"
    using that by (simp add: best_ok_def)
  show ?case
    using Cons.IH [of "(?c, ClkRegToFreq ?c)"] Cons.IH [OF Cons.prems] Cons.prems keep
    by (auto simp: best Let_def best_ok_def split: prod.splits if_splits)
qed simp

lemma clk_outer_spec:
  assumes "best_ok freq best"
  shows "ClkRegToFreq (clk_outer freq ns best) = freq
    \<or> (\<exists>f. best_ok freq (clk_outer freq ns best, f) \<and> snd best \<le> f
        \<and> (\<forall>n\<in>set ns. \<forall>v\<in>{-1, 0, 1, 2}. ClkRegToFreq (clk_candidate freq n v) \<le> freq
            \<longrightarrow> ClkRegToFreq (clk_candidate freq n v) \<le> f))"
  using assms
proof (induction ns arbitrary: best)
  case Nil
  then show ?case
    by (auto intro: exI [of _ "snd best"])
next
  case (Cons n ns)
  obtain found best' where inner: "clk_inner freq n [-1, 0, 1, 2] best = (found, best')"
    by (metis surj_pair)
  have spec: "if found then ClkRegToFreq (fst best') = freq
    else best_ok freq best' \<and> snd best \<le> snd best'
      \<and> (\<forall>v\<in>set [-1, 0, 1, 2]. ClkRegToFreq (clk_candidate freq n v) \<le> freq
            \<longrightarrow> ClkRegToFreq (clk_candidate freq n v) \<le> snd best')"
    using clk_inner_spec [OF Cons.prems, of n "[-1, 0, 1, 2]"] unfolding inner Let_def by simp
  show ?case
  proof (cases found)
    case True
    with spec inner show ?thesis
      by simp
  next
    case False
    with spec have best': "best_ok freq best'" "snd best \<le> snd best'"
      "\<forall>v\<in>{-1, 0, 1, 2}. ClkRegToFreq (clk_candidate freq n v) \<le> freq
            \<longrightarrow> ClkRegToFreq (clk_candidate freq n v) \<le> snd best'"
      by simp_all
    have step: "clk_outer freq (n # ns) best = clk_outer freq ns best'"
      using False inner by simp
    from Cons.IH [OF best'(1)] show ?thesis
    proof (elim disjE exE conjE)
      fix f
      assume "best_ok freq (clk_outer freq ns best', f)" "snd best' \<le> f"
        and ns: "\<forall>n\<in>set ns. \<forall>v\<in>{-1, 0, 1, 2}. ClkRegToFreq (clk_candidate freq n v) \<le> freq
            \<longrightarrow> ClkRegToFreq (clk_candidate freq n v) \<le> f"
      moreover have "\<forall>m\<in>set (n # ns). \<forall>v\<in>{-1, 0, 1, 2}. ClkRegToFreq (clk_candidate freq m v) \<le> freq
            \<longrightarrow> ClkRegToFreq (clk_candidate freq m v) \<le> f"
        using ns best'(3) \<open>snd best' \<le> f\<close> by (metis le_trans set_ConsD)
      ultimately show ?thesis
        using best'(2) unfolding step by (metis le_trans)
    next
      assume "ClkRegToFreq (clk_outer freq ns best') = freq"
      then show ?thesis
        unfolding step by (rule disjI1)
    qed
  qed
qed

lemma min_freq: "ClkRegToFreq 0x7FFFF000 = 152"
proof -
  have "bf_get regPre 0x7FFFF000 = 8191" "bf_get regN 0x7FFFF000 = 63"
    unfolding regPre_def regN_def bf_get_def by code_simp+
  then show ?thesis
    by (simp add: ClkRegToFreq_def CPU_CLK_FREQ_def)
qed

section \<open>Property\<close>



end
