(* ===== verification/Uart.thy ===== *)
theory Uart
  imports Gpio Mutex
begin

text \<open>
  The serial driver \<^verbatim>\<open>esp32-hal-uart.c\<close>: three ports with a receive queue filled by one interrupt
  service routine, blocking writes into the transmit FIFO, the baud rate divider, and the debug
  output. A handle is \<^verbatim>\<open>NULL\<close> or one of the three entries of \<^verbatim>\<open>_uart_bus_array\<close>.

  Parameters stand for what is not in the repository. \<open>Q\<close> holds the operations of a FreeRTOS queue of
  bytes; \<open>pop n\<close> is what reading the FIFO register of port \<open>n\<close> does to the registers; \<open>env\<close> is the
  step the hardware makes before each reading of the status register in a wait. Both change registers
  only. \<open>mutex_ok\<close>, \<open>queue_ok\<close> and the handle \<open>h\<close> are what the allocators return.
\<close>

section \<open>State and registers\<close>

record 'q queue_api =
  q_new :: "nat \<Rightarrow> 'q"
  q_send :: "u8 \<Rightarrow> 'q \<Rightarrow> 'q"
  q_full :: "'q \<Rightarrow> bool"
  q_receive :: "'q \<Rightarrow> (u8 \<times> 'q) option"
  q_peek :: "'q \<Rightarrow> u8 option"
  q_waiting :: "'q \<Rightarrow> nat"

record 'q uart_soc = soc +
  uart_lock :: "nat \<Rightarrow> bool"
  uart_queue :: "nat \<Rightarrow> 'q option"
  uart_intr :: "nat \<Rightarrow> ptr"
  uart_debug :: int

type_synonym uart_t = "nat option"

definition uart_boot :: "soc \<Rightarrow> 'q uart_soc" where
  "uart_boot s = soc.extend s
     \<lparr>uart_lock = (\<lambda>_. False), uart_queue = (\<lambda>_. None), uart_intr = (\<lambda>_. NULL), uart_debug = 0\<rparr>"

definition UART_RXD_IDX :: "nat \<Rightarrow> u8" where
  "UART_RXD_IDX u = (if u = 0 then 14 else if u = 1 then 17 else if u = 2 then 198 else 0)"

definition UART_TXD_IDX :: "nat \<Rightarrow> u8" where
  "UART_TXD_IDX u = (if u = 0 then 14 else if u = 1 then 17 else if u = 2 then 198 else 0)"

definition UART_INTR_SOURCE :: "nat \<Rightarrow> nat" where
  "UART_INTR_SOURCE u = (if u = 0 then 34 else if u = 1 then 35 else if u = 2 then 36 else 0)"

definition UART_CLK_FREQ :: u32 where "UART_CLK_FREQ = 80000000"

definition rw_byte :: bfield where "rw_byte = (0, 8)"
definition rxfifo_full :: bfield where "rxfifo_full = (0, 1)"
definition frm_err :: bfield where "frm_err = (3, 1)"
definition rxfifo_tout :: bfield where "rxfifo_tout = (8, 1)"
definition div_int :: bfield where "div_int = (0, 20)"
definition div_frag :: bfield where "div_frag = (20, 4)"
definition rxfifo_cnt :: bfield where "rxfifo_cnt = (0, 8)"
definition txfifo_cnt :: bfield where "txfifo_cnt = (16, 8)"
definition stop_bit_num :: bfield where "stop_bit_num = (4, 2)"
definition rxfifo_full_thrhd :: bfield where "rxfifo_full_thrhd = (0, 7)"
definition rx_tout_thrhd :: bfield where "rx_tout_thrhd = (24, 7)"
definition rx_tout_en :: bfield where "rx_tout_en = (31, 1)"
definition dl1_en :: bfield where "dl1_en = (2, 1)"
definition rx_rd_addr :: bfield where "rx_rd_addr = (2, 11)"
definition rx_wr_addr :: bfield where "rx_wr_addr = (13, 11)"

lemmas uart_fields =
  rw_byte_def rxfifo_full_def frm_err_def rxfifo_tout_def div_int_def div_frag_def rxfifo_cnt_def
  txfifo_cnt_def stop_bit_num_def rxfifo_full_thrhd_def rx_tout_thrhd_def rx_tout_en_def dl1_en_def
  rx_rd_addr_def rx_wr_addr_def

section \<open>The mutex\<close>

definition uart_take :: "nat \<Rightarrow> 'q uart_soc \<Rightarrow> 'q uart_soc option" where
  "uart_take n s = (if uart_lock s n then Some (ext (SemTake (UartLock n)) s) else None)"

definition uart_give :: "nat \<Rightarrow> 'q uart_soc \<Rightarrow> 'q uart_soc option" where
  "uart_give n s = (if uart_lock s n then Some (ext (SemGive (UartLock n)) s) else None)"

text \<open>\<open>uart_guarded body n\<close>: the statements \<open>body\<close> between \<^verbatim>\<open>UART_MUTEX_LOCK\<close> and \<open>UNLOCK\<close>.\<close>

definition uart_guarded ::
  "nat \<Rightarrow> ('q uart_soc \<Rightarrow> 'q uart_soc option) list \<Rightarrow> 'q uart_soc \<Rightarrow> 'q uart_soc option" where
  "uart_guarded n body = guarded (uart_take n) (uart_give n) body"

definition on_port ::
  "uart_t \<Rightarrow> (nat \<Rightarrow> 'q uart_soc \<Rightarrow> 'q uart_soc option) \<Rightarrow> 'q uart_soc \<Rightarrow> 'q uart_soc option" where
  "on_port uart f s = (case uart of None \<Rightarrow> Some s | Some n \<Rightarrow> f n s)"

section \<open>The receive interrupt\<close>

definition rx_pending :: "nat \<Rightarrow> 'a soc_scheme \<Rightarrow> bool" where
  "rx_pending n s \<longleftrightarrow>
     getf (Uart n ustatus) rxfifo_cnt s \<noteq> 0
     \<or> getf (Uart n umem_rx_status) rx_wr_addr s \<noteq> getf (Uart n umem_rx_status) rx_rd_addr s"

definition isr_byte :: "'q queue_api \<Rightarrow> nat \<Rightarrow> u8 \<Rightarrow> 'q uart_soc \<Rightarrow> 'q uart_soc" where
  "isr_byte Q n c s =
     (case uart_queue s n of
        None \<Rightarrow> s
      | Some q \<Rightarrow>
          if q_full Q q then s
          else s\<lparr>uart_queue := (uart_queue s)(n \<mapsto> q_send Q c q)\<rparr>)"

partial_function (option) isr_drain ::
  "'q queue_api \<Rightarrow> (nat \<Rightarrow> regfile \<Rightarrow> regfile) \<Rightarrow> nat \<Rightarrow> 'q uart_soc \<Rightarrow> 'q uart_soc option" where
  "isr_drain Q pop n s =
     (if rx_pending n s
      then isr_drain Q pop n
             (isr_byte Q n (ucast (getf (Uart n ufifo) rw_byte s)) (on_regs (pop n) s))
      else Some s)"

definition isr_port ::
  "'q queue_api \<Rightarrow> (nat \<Rightarrow> regfile \<Rightarrow> regfile) \<Rightarrow> nat \<Rightarrow> 'q uart_soc \<Rightarrow> 'q uart_soc option" where
  "isr_port Q pop n s =
     (if uart_intr s n = NULL then Some s
      else run [stmt (setf (Uart n uint_clr) rxfifo_full 1),
                stmt (setf (Uart n uint_clr) frm_err 1),
                stmt (setf (Uart n uint_clr) rxfifo_tout 1),
                isr_drain Q pop n] s)"

definition uart_isr ::
  "'q queue_api \<Rightarrow> (nat \<Rightarrow> regfile \<Rightarrow> regfile) \<Rightarrow> 'q uart_soc \<Rightarrow> 'q uart_soc option" where
  "uart_isr Q pop = run (map (isr_port Q pop) [0, 1, 2])"

definition uartEnableInterrupt :: "ptr \<Rightarrow> nat \<Rightarrow> 'q uart_soc \<Rightarrow> 'q uart_soc option" where
  "uartEnableInterrupt h n = uart_guarded n
     [stmt (setf (Uart n uconf1) rxfifo_full_thrhd 112),
      stmt (setf (Uart n uconf1) rx_tout_thrhd 2),
      stmt (setf (Uart n uconf1) rx_tout_en 1),
      stmt (setf (Uart n uint_ena) rxfifo_full 1),
      stmt (setf (Uart n uint_ena) frm_err 1),
      stmt (setf (Uart n uint_ena) rxfifo_tout 1),
      stmt (wr (Uart n uint_clr) 0xffffffff),
      stmt (ext (IntrAlloc (UART_INTR_SOURCE n))),
      stmt (\<lambda>s. s\<lparr>uart_intr := (uart_intr s)(n := h)\<rparr>)]"

definition uartDisableInterrupt :: "nat \<Rightarrow> 'q uart_soc \<Rightarrow> 'q uart_soc option" where
  "uartDisableInterrupt n = uart_guarded n
     [stmt (wr (Uart n uconf1) 0),
      stmt (wr (Uart n uint_ena) 0),
      stmt (wr (Uart n uint_clr) 0xffffffff),
      stmt (\<lambda>s. ext (IntrFree (uart_intr s n)) s),
      stmt (\<lambda>s. s\<lparr>uart_intr := (uart_intr s)(n := NULL)\<rparr>)]"

section \<open>Pins\<close>

definition uartDetachRx :: "uart_t \<Rightarrow> 'q uart_soc \<Rightarrow> 'q uart_soc option" where
  "uartDetachRx uart = on_port uart (\<lambda>n.
     run [stmt (pinMatrixInDetach (UART_RXD_IDX n) False False), uartDisableInterrupt n])"

definition uartDetachTx :: "uart_t \<Rightarrow> 'q uart_soc \<Rightarrow> 'q uart_soc option" where
  "uartDetachTx uart = on_port uart (\<lambda>n.
     run [stmt (pinMatrixOutDetach (UART_TXD_IDX n) False False)])"

definition uartAttachRx ::
  "(nat \<Rightarrow> rtc_gpio_desc_t) \<Rightarrow> ptr \<Rightarrow> uart_t \<Rightarrow> u8 \<Rightarrow> bool \<Rightarrow> 'q uart_soc \<Rightarrow> 'q uart_soc option" where
  "uartAttachRx desc h uart rxPin inverted = on_port uart (\<lambda>n s.
     if 39 < rxPin then Some s
     else run [stmt (pinMode desc (unat rxPin) INPUT),
               stmt (pinMatrixInAttach rxPin (UART_RXD_IDX n) inverted),
               uartEnableInterrupt h n] s)"

definition uartAttachTx ::
  "(nat \<Rightarrow> rtc_gpio_desc_t) \<Rightarrow> uart_t \<Rightarrow> u8 \<Rightarrow> bool \<Rightarrow> 'q uart_soc \<Rightarrow> 'q uart_soc option" where
  "uartAttachTx desc uart txPin inverted = on_port uart (\<lambda>n s.
     if 39 < txPin then Some s
     else run [stmt (pinMode desc (unat txPin) OUTPUT),
               stmt (pinMatrixOutAttach txPin (UART_TXD_IDX n) inverted False)] s)"

section \<open>Writing, flushing and the baud rate\<close>

definition uart_send :: "nat \<Rightarrow> u8 \<Rightarrow> 'q uart_soc \<Rightarrow> 'q uart_soc" where
  "uart_send n c = setf (Uart n ufifo) rw_byte (ucast c)"

definition tx_count :: "nat \<Rightarrow> 'a soc_scheme \<Rightarrow> u32" where
  "tx_count n s = getf (Uart n ustatus) txfifo_cnt s"

definition uartWrite ::
  "(regfile \<Rightarrow> regfile) \<Rightarrow> uart_t \<Rightarrow> u8 \<Rightarrow> 'q uart_soc \<Rightarrow> 'q uart_soc option" where
  "uartWrite env uart c = on_port uart (\<lambda>n. uart_guarded n
     [await (on_regs env) (\<lambda>s. tx_count n s \<noteq> 0x7F), stmt (uart_send n c)])"

text \<open>The inner loop: bytes go out while there is room; what is left comes back.\<close>

fun write_burst ::
  "(regfile \<Rightarrow> regfile) \<Rightarrow> nat \<Rightarrow> u8 list \<Rightarrow> 'q uart_soc \<Rightarrow> u8 list \<times> 'q uart_soc" where
  "write_burst env n [] s = ([], s)"
| "write_burst env n (d # data) s =
     (let s = on_regs env s
      in if tx_count n s < 0x7F then write_burst env n data (uart_send n d s) else (d # data, s))"

partial_function (option) write_loop ::
  "(regfile \<Rightarrow> regfile) \<Rightarrow> nat \<Rightarrow> u8 list \<Rightarrow> 'q uart_soc \<Rightarrow> 'q uart_soc option" where
  "write_loop env n data s =
     (if data = [] then Some s
      else (case write_burst env n data s of (data', s') \<Rightarrow> write_loop env n data' s'))"

definition uartWriteBuf ::
  "(regfile \<Rightarrow> regfile) \<Rightarrow> uart_t \<Rightarrow> u8 list \<Rightarrow> 'q uart_soc \<Rightarrow> 'q uart_soc option" where
  "uartWriteBuf env uart data = on_port uart (\<lambda>n. uart_guarded n [write_loop env n data])"

partial_function (option) flush_rx ::
  "(nat \<Rightarrow> regfile \<Rightarrow> regfile) \<Rightarrow> nat \<Rightarrow> 'q uart_soc \<Rightarrow> 'q uart_soc option" where
  "flush_rx pop n s = (if rx_pending n s then flush_rx pop n (on_regs (pop n) s) else Some s)"

definition uartFlush ::
  "(regfile \<Rightarrow> regfile) \<Rightarrow> (nat \<Rightarrow> regfile \<Rightarrow> regfile) \<Rightarrow> uart_t \<Rightarrow> 'q uart_soc \<Rightarrow> 'q uart_soc option"
  where
  "uartFlush env pop uart = on_port uart (\<lambda>n. uart_guarded n
     [await (on_regs env) (\<lambda>s. tx_count n s = 0), flush_rx pop n])"

text \<open>Dividing by a baud rate of 0 traps.\<close>

definition uartSetBaudRate :: "uart_t \<Rightarrow> u32 \<Rightarrow> 'q uart_soc \<Rightarrow> 'q uart_soc option" where
  "uartSetBaudRate uart baud_rate = on_port uart (\<lambda>n.
     let clk_div = push_bit 4 UART_CLK_FREQ div baud_rate in
     uart_guarded n
       [\<lambda>s. if baud_rate = 0 then None else Some s,
        stmt (setf (Uart n uclk_div) div_int (drop_bit 4 clk_div)),
        stmt (setf (Uart n uclk_div) div_frag (clk_div AND 0xf))])"

definition uartGetBaudRate :: "uart_t \<Rightarrow> 'q uart_soc \<Rightarrow> u32 option" where
  "uartGetBaudRate uart s =
     (case uart of
        None \<Rightarrow> Some 0
      | Some n \<Rightarrow>
          let clk_div = push_bit 4 (getf (Uart n uclk_div) div_int s)
                          OR (getf (Uart n uclk_div) div_frag s AND 0x0F)
          in if clk_div = 0 then None else Some (push_bit 4 UART_CLK_FREQ div clk_div))"

section \<open>Starting and stopping a port\<close>

definition uart_power :: "nat \<Rightarrow> 'q uart_soc \<Rightarrow> 'q uart_soc" where
  "uart_power uart_nr =
     (let b = (if uart_nr = 1 then 5 else if uart_nr = 2 then 23 else 2)
      in exec [set_peri_reg_mask DPORT_PERIP_CLK_EN_REG (BIT b),
               clear_peri_reg_mask DPORT_PERIP_RST_EN_REG (BIT b)])"

definition uart_frame :: "nat \<Rightarrow> u32 \<Rightarrow> 'q uart_soc \<Rightarrow> 'q uart_soc" where
  "uart_frame n config s =
     (let s = wr (Uart n uconf0) config s
      in if getf (Uart n uconf0) stop_bit_num s = 0x3
         then exec [setf (Uart n uconf0) stop_bit_num 0x1, setf (Uart n urs485_conf) dl1_en 1] s
         else s)"

text \<open>The mutex and the queue \<^verbatim>\<open>uartBegin\<close> creates on first use; \<open>None\<close> is its early return.\<close>

definition uart_create ::
  "'q queue_api \<Rightarrow> bool \<Rightarrow> bool \<Rightarrow> nat \<Rightarrow> nat \<Rightarrow> 'q uart_soc \<Rightarrow> 'q uart_soc \<times> bool" where
  "uart_create Q mutex_ok queue_ok uart_nr queueLen s =
     (if \<not> uart_lock s uart_nr \<and> \<not> mutex_ok then (s, False)
      else
        let s = s\<lparr>uart_lock := (uart_lock s)(uart_nr := True)\<rparr>
        in if queueLen \<noteq> 0 \<and> uart_queue s uart_nr = None then
             if queue_ok
             then (s\<lparr>uart_queue := (uart_queue s)(uart_nr \<mapsto> q_new Q queueLen)\<rparr>, True)
             else (s, False)
           else (s, True))"

text \<open>Pins are \<^verbatim>\<open>int8_t\<close>: -1 is the byte 0xFF.\<close>

definition uartBegin ::
  "'q queue_api \<Rightarrow> (regfile \<Rightarrow> regfile) \<Rightarrow> (nat \<Rightarrow> regfile \<Rightarrow> regfile) \<Rightarrow> (nat \<Rightarrow> rtc_gpio_desc_t)
     \<Rightarrow> bool \<Rightarrow> bool \<Rightarrow> ptr \<Rightarrow> nat \<Rightarrow> u32 \<Rightarrow> u32 \<Rightarrow> u8 \<Rightarrow> u8 \<Rightarrow> nat \<Rightarrow> bool
     \<Rightarrow> 'q uart_soc \<Rightarrow> (uart_t \<times> 'q uart_soc) option" where
  "uartBegin Q env pop desc mutex_ok queue_ok h uart_nr baudrate config rxPin txPin queueLen inverted s =
     (if 2 < uart_nr then Some (None, s)
      else if rxPin = - 1 \<and> txPin = - 1 then Some (None, s)
      else (case uart_create Q mutex_ok queue_ok uart_nr queueLen s of
        (s, False) \<Rightarrow> Some (None, s)
      | (s, True) \<Rightarrow>
          let uart = Some uart_nr in
          map_option (Pair uart)
            (run [stmt (uart_power uart_nr),
                  uartFlush env pop uart,
                  uartSetBaudRate uart baudrate,
                  uart_guarded uart_nr [stmt (uart_frame uart_nr config)],
                  if rxPin \<noteq> - 1 then uartAttachRx desc h uart rxPin inverted else Some,
                  if txPin \<noteq> - 1 then uartAttachTx desc uart txPin inverted else Some] s)))"

text \<open>\<^verbatim>\<open>while(xQueueReceive(uart->queue, &c, 0));\<close>\<close>

partial_function (option) drain_queue :: "'q queue_api \<Rightarrow> 'q \<Rightarrow> 'q option" where
  "drain_queue Q q =
     (case q_receive Q q of None \<Rightarrow> Some q | Some (c, q') \<Rightarrow> drain_queue Q q')"

definition delete_queue :: "'q queue_api \<Rightarrow> nat \<Rightarrow> 'q uart_soc \<Rightarrow> 'q uart_soc option" where
  "delete_queue Q n s =
     (case uart_queue s n of
        None \<Rightarrow> Some s
      | Some q \<Rightarrow>
          map_option (\<lambda>_. ext (QueueDelete n) s\<lparr>uart_queue := (uart_queue s)(n := None)\<rparr>)
            (drain_queue Q q))"

definition uartEnd :: "'q queue_api \<Rightarrow> uart_t \<Rightarrow> 'q uart_soc \<Rightarrow> 'q uart_soc option" where
  "uartEnd Q uart = on_port uart (\<lambda>n.
     run [uart_guarded n [delete_queue Q n, stmt (wr (Uart n uconf0) 0)],
          uartDetachRx (Some n),
          uartDetachTx (Some n)])"

text \<open>
  A NULL handle leaves the result undefined (\<^verbatim>\<open>return;\<close>): \<open>None\<close> as the value. When the new queue
  cannot be created the code returns NULL between lock and unlock.
\<close>

definition uartResizeRxBuffer ::
  "'q queue_api \<Rightarrow> bool \<Rightarrow> uart_t \<Rightarrow> nat \<Rightarrow> 'q uart_soc \<Rightarrow> (nat option \<times> 'q uart_soc) option" where
  "uartResizeRxBuffer Q queue_ok uart new_size s =
     (case uart of
        None \<Rightarrow> Some (None, s)
      | Some n \<Rightarrow>
          (case uart_take n s of
             None \<Rightarrow> None
           | Some s \<Rightarrow>
               if uart_queue s n = None
               then map_option (Pair (Some new_size)) (uart_give n s)
               else (case delete_queue Q n s of
                  None \<Rightarrow> None
                | Some s \<Rightarrow>
                    if queue_ok
                    then map_option (Pair (Some new_size))
                           (uart_give n (s\<lparr>uart_queue := (uart_queue s)(n \<mapsto> q_new Q new_size)\<rparr>))
                    else Some (Some 0, s))))"

section \<open>Reading\<close>

definition uartAvailable :: "'q queue_api \<Rightarrow> uart_t \<Rightarrow> 'q uart_soc \<Rightarrow> u32" where
  "uartAvailable Q uart s =
     (case Option.bind uart (uart_queue s) of None \<Rightarrow> 0 | Some q \<Rightarrow> of_nat (q_waiting Q q))"

definition uartAvailableForWrite :: "uart_t \<Rightarrow> 'q uart_soc \<Rightarrow> u32" where
  "uartAvailableForWrite uart s =
     (case uart of None \<Rightarrow> 0 | Some n \<Rightarrow> 0x7f - tx_count n s)"

definition uartRead :: "'q queue_api \<Rightarrow> uart_t \<Rightarrow> 'q uart_soc \<Rightarrow> u8 \<times> 'q uart_soc" where
  "uartRead Q uart s =
     (case uart of
        None \<Rightarrow> (0, s)
      | Some n \<Rightarrow>
          (case uart_queue s n of
             None \<Rightarrow> (0, s)
           | Some q \<Rightarrow>
               (case q_receive Q q of
                  None \<Rightarrow> (0, s)
                | Some (c, q') \<Rightarrow> (c, s\<lparr>uart_queue := (uart_queue s)(n \<mapsto> q')\<rparr>))))"

definition uartPeek :: "'q queue_api \<Rightarrow> uart_t \<Rightarrow> 'q uart_soc \<Rightarrow> u8" where
  "uartPeek Q uart s =
     (case Option.bind uart (uart_queue s) of
        None \<Rightarrow> 0
      | Some q \<Rightarrow> (case q_peek Q q of None \<Rightarrow> 0 | Some c \<Rightarrow> c))"

section \<open>Debug output\<close>

text \<open>
  \<^verbatim>\<open>uart0_write_char\<close> to \<open>uart2_write_char\<close>: the status and FIFO registers by their addresses, which
  are those of \<^verbatim>\<open>uart_dev_t\<close>.
\<close>

definition UART_TXFIFO_CNT_S :: nat where "UART_TXFIFO_CNT_S = 16"

definition uart_write_char :: "(regfile \<Rightarrow> regfile) \<Rightarrow> nat \<Rightarrow> u8 \<Rightarrow> 'q uart_soc \<Rightarrow> 'q uart_soc option" where
  "uart_write_char env n c = run
     [await (on_regs env) (\<lambda>s. drop_bit UART_TXFIFO_CNT_S (rd (Uart n ustatus) s) AND 0x7F \<noteq> 0x7F),
      stmt (wr (Uart n ufifo) (ucast c))]"

definition uartSetDebug :: "uart_t \<Rightarrow> 'q uart_soc \<Rightarrow> 'q uart_soc" where
  "uartSetDebug uart s =
     (case uart of
        None \<Rightarrow> ext (InstallPutc None) (s\<lparr>uart_debug := - 1\<rparr>)
      | Some n \<Rightarrow>
          if 2 < n then ext (InstallPutc None) (s\<lparr>uart_debug := - 1\<rparr>)
          else if uart_debug s = int n then s
          else ext (InstallPutc (Some n)) (s\<lparr>uart_debug := int n\<rparr>))"

definition uartGetDebug :: "'q uart_soc \<Rightarrow> int" where
  "uartGetDebug s = uart_debug s"

text \<open>
  \<open>text\<close> is what \<^verbatim>\<open>vsnprintf\<close> makes of the format and its arguments, \<open>p\<close> what \<^verbatim>\<open>malloc\<close> returns.
  The static buffer has 64 bytes; a text that does not fit with its terminator goes to the heap.
\<close>

definition log_printf :: "ptr \<Rightarrow> u8 list \<Rightarrow> 'q uart_soc \<Rightarrow> (nat \<times> 'q uart_soc) option" where
  "log_printf p text s =
     (if uart_debug s < 0 then Some (0, s)
      else
        let len = length text; port = nat (uart_debug s) in
        if 64 \<le> len \<and> p = NULL then Some (0, s)
        else
          map_option (Pair len)
            (run [stmt (\<lambda>s. if 64 \<le> len then ext (MallocMem (len + 1) p) s else s),
                  \<lambda>s. if uart_lock s port
                      then uart_guarded port [stmt (ext (EtsPrintf text))] s
                      else Some (ext (EtsPrintf text) s),
                  stmt (\<lambda>s. if 64 < len then ext (FreeMem p) s else s)] s))"

end
