(* ===== verification/UartRx.thy ===== *)
theory UartRx
  imports Uart
begin

text \<open>
  What the serial driver guarantees. The interfaces it relies on are locales: a FreeRTOS queue of
  bytes (\<open>byte_queue\<close>), the receive FIFO of the hardware (\<open>rx_hardware\<close>), and the two together. Inside
  them the receive path is proved to be a bounded FIFO: a byte that arrives is kept exactly when the
  queue has room, and reads return the kept bytes in order. Both interfaces are shown to be
  satisfiable: a list with a capacity is such a queue, and a shift register in the register file is
  such a FIFO.
\<close>

section \<open>Frames\<close>

lemma uart_vars [simp]:
  "uart_lock (wr r v s) = uart_lock s" "uart_queue (wr r v s) = uart_queue s"
  "uart_intr (wr r v s) = uart_intr s" "uart_debug (wr r v s) = uart_debug s"
  "uart_lock (ext c s) = uart_lock s" "uart_queue (ext c s) = uart_queue s"
  "uart_intr (ext c s) = uart_intr s" "uart_debug (ext c s) = uart_debug s"
  "uart_lock (on_regs f s) = uart_lock s" "uart_queue (on_regs f s) = uart_queue s"
  "uart_intr (on_regs f s) = uart_intr s" "uart_debug (on_regs f s) = uart_debug s"
  by (simp_all add: wr_def ext_def on_regs_def)

lemma uart_vars_setf [simp]:
  "uart_lock (setf r f v s) = uart_lock s" "uart_queue (setf r f v s) = uart_queue s"
  "uart_intr (setf r f v s) = uart_intr s" "uart_debug (setf r f v s) = uart_debug s"
  by (simp_all add: setf_def)

lemma held_uart [simp]:
  "held l (on_regs f s) = held l s" "held l (s\<lparr>uart_lock := a\<rparr>) = held l s"
  "held l (s\<lparr>uart_queue := b\<rparr>) = held l s" "held l (s\<lparr>uart_intr := c\<rparr>) = held l s"
  by (simp_all add: held_def on_regs_def)

lemma uart_send_vars [simp]:
  "uart_lock (uart_send n c s) = uart_lock s" "uart_queue (uart_send n c s) = uart_queue s"
  "held l (uart_send n c s) = held l s"
  by (simp_all add: uart_send_def)

lemma soc_regs_ops [simp]:
  "soc_regs (wr r v s) = (soc_regs s)(r := v)" "soc_regs (ext c s) = soc_regs s"
  "soc_regs (on_regs f s) = f (soc_regs s)"
  by (simp_all add: wr_def ext_def on_regs_def)

lemma soc_trace_on_regs [simp]: "soc_trace (on_regs f s) = soc_trace s"
  by (simp add: on_regs_def)

lemma uart_take_eq: "uart_take n s = Some t \<longleftrightarrow> uart_lock s n \<and> t = ext (SemTake (UartLock n)) s"
  by (auto simp: uart_take_def)

lemma uart_give_eq: "uart_give n s = Some t \<longleftrightarrow> uart_lock s n \<and> t = ext (SemGive (UartLock n)) s"
  by (auto simp: uart_give_def)

interpretation uart_mutex: mutex_macros "\<lambda>n s. uart_lock s n" uart_take uart_give
    "\<lambda>n s. held (UartLock n) s"
  by unfold_locales (auto simp: uart_take_def uart_give_def split: if_splits)

lemma uart_guarded_eq:
  assumes "uart_lock s n"
    and "run body (ext (SemTake (UartLock n)) s) = Some t" and "uart_lock t n"
  shows "uart_guarded n body s = Some (ext (SemGive (UartLock n)) t)"
  using assms by (simp add: uart_guarded_def guarded_def run_append uart_take_def uart_give_def)

section \<open>The interfaces\<close>

locale byte_queue =
  fixes Q :: "'q queue_api" and items :: "'q \<Rightarrow> u8 list" and room :: "'q \<Rightarrow> nat"
  assumes new: "0 < len \<Longrightarrow> items (q_new Q len) = [] \<and> room (q_new Q len) = len"
    and full: "q_full Q q \<longleftrightarrow> room q \<le> length (items q)"
    and send: "\<not> q_full Q q \<Longrightarrow> items (q_send Q c q) = items q @ [c] \<and> room (q_send Q c q) = room q"
    and receive_empty: "items q = [] \<Longrightarrow> q_receive Q q = None"
    and receive: "items q = c # cs
      \<Longrightarrow> \<exists>q'. q_receive Q q = Some (c, q') \<and> items q' = cs \<and> room q' = room q"
    and peek: "q_peek Q q = (if items q = [] then None else Some (hd (items q)))"
    and waiting: "q_waiting Q q = length (items q)"
begin

lemma drain_returns: "\<exists>q'. drain_queue Q q = Some q'"
proof (induction "items q" arbitrary: q)
  case Nil
  then show ?case
    by (subst drain_queue.simps) (simp add: receive_empty)
next
  case (Cons c cs)
  then obtain q' where "q_receive Q q = Some (c, q')" and "items q' = cs"
    using receive [of q c cs] by auto
  with Cons.hyps(1) [of q'] show ?case
    by (subst drain_queue.simps) simp
qed

end

definition rx_pend :: "nat \<Rightarrow> regfile \<Rightarrow> bool" where
  "rx_pend n r \<longleftrightarrow>
     bf_get rxfifo_cnt (r (Uart n ustatus)) \<noteq> 0
     \<or> bf_get rx_wr_addr (r (Uart n umem_rx_status)) \<noteq> bf_get rx_rd_addr (r (Uart n umem_rx_status))"

lemma rx_pending_regs: "rx_pending n s \<longleftrightarrow> rx_pend n (soc_regs s)"
  by (simp add: rx_pending_def rx_pend_def getf_def rd_def)

text \<open>\<open>waiting n r\<close>: the bytes in the receive FIFO of port \<open>n\<close>, oldest first.\<close>

locale rx_hardware =
  fixes pop :: "nat \<Rightarrow> regfile \<Rightarrow> regfile" and fifo :: "nat \<Rightarrow> regfile \<Rightarrow> u8 list"
  assumes pending: "rx_pend n r \<longleftrightarrow> fifo n r \<noteq> []"
    and head: "fifo n r = c # cs \<Longrightarrow> ucast (bf_get rw_byte (r (Uart n ufifo))) = c"
    and pop_tail: "fifo n (pop n r) = tl (fifo n r)"
    and pop_other: "m \<noteq> n \<Longrightarrow> fifo m (pop n r) = fifo m r"
    and clear_keeps: "fifo m (r(Uart n uint_clr := v)) = fifo m r"
begin

lemma head_byte: "fifo n (soc_regs s) = c # cs \<Longrightarrow> ucast (getf (Uart n ufifo) rw_byte s) = c"
  using head [of n "soc_regs s" c cs] by (simp add: getf_def rd_def)

lemma flush_returns:
  "\<exists>t. flush_rx pop n s = Some t \<and> fifo n (soc_regs t) = [] \<and> soc_trace t = soc_trace s
     \<and> soc.more t = soc.more s"
proof (induction "fifo n (soc_regs s)" arbitrary: s)
  case Nil
  then show ?case
    by (subst flush_rx.simps) (simp add: rx_pending_regs pending)
next
  case (Cons c cs)
  have "fifo n (soc_regs s) \<noteq> []"
    using Cons.hyps(2) by (metis list.distinct(1))
  then have eq: "flush_rx pop n s = flush_rx pop n (on_regs (pop n) s)"
    by (subst flush_rx.simps) (simp add: rx_pending_regs pending)
  have "cs = fifo n (soc_regs (on_regs (pop n) s))"
    using Cons.hyps(2) by (simp add: pop_tail Cons.hyps(2) [symmetric])
  from Cons.hyps(1) [OF this] show ?case
    by (simp add: eq)
qed

end

locale serial_port = byte_queue Q items room + rx_hardware pop fifo
  for Q :: "'q queue_api" and items :: "'q \<Rightarrow> u8 list" and room :: "'q \<Rightarrow> nat"
    and pop :: "nat \<Rightarrow> regfile \<Rightarrow> regfile" and fifo :: "nat \<Rightarrow> regfile \<Rightarrow> u8 list"

section \<open>The abstract receiver\<close>

text \<open>
  A bounded FIFO per port: its contents and its capacity, or nothing when the port has no queue.
  Arriving bytes are kept while there is room; the rest is lost.
\<close>

type_synonym rx_fifo = "u8 list \<times> nat"

fun feed :: "u8 list \<Rightarrow> rx_fifo \<Rightarrow> rx_fifo" where
  "feed bs (xs, c) = (xs @ take (c - length xs) bs, c)"

datatype rx_op = Irq regfile | Available nat | Peek nat | Read nat

text \<open>
  An interrupt comes with the register file it finds. \<open>att\<close> are the ports whose interrupt is
  allocated, \<open>fifo\<close> reads the arrived bytes off the registers.
\<close>

fun fifo_step ::
  "(nat \<Rightarrow> bool) \<Rightarrow> (nat \<Rightarrow> regfile \<Rightarrow> u8 list) \<Rightarrow> rx_op \<Rightarrow> (nat \<Rightarrow> rx_fifo option)
     \<Rightarrow> u32 \<times> (nat \<Rightarrow> rx_fifo option)" where
  "fifo_step att fifo (Irq r) B =
     (0, \<lambda>n. if n < 3 \<and> att n then map_option (feed (fifo n r)) (B n) else B n)"
| "fifo_step att fifo (Available n) B =
     (case B n of None \<Rightarrow> 0 | Some (xs, c) \<Rightarrow> of_nat (length xs), B)"
| "fifo_step att fifo (Peek n) B =
     (case B n of Some (x # xs, c) \<Rightarrow> ucast x | _ \<Rightarrow> 0, B)"
| "fifo_step att fifo (Read n) B =
     (case B n of Some (x # xs, c) \<Rightarrow> (ucast x, B(n \<mapsto> (xs, c))) | _ \<Rightarrow> (0, B))"

fun uart_step ::
  "'q queue_api \<Rightarrow> (nat \<Rightarrow> regfile \<Rightarrow> regfile) \<Rightarrow> rx_op \<Rightarrow> 'q uart_soc \<Rightarrow> (u32 \<times> 'q uart_soc) option"
  where
  "uart_step Q pop (Irq r) s = map_option (Pair 0) (uart_isr Q pop (on_regs (\<lambda>_. r) s))"
| "uart_step Q pop (Available n) s = Some (uartAvailable Q (Some n) s, s)"
| "uart_step Q pop (Peek n) s = Some (ucast (uartPeek Q (Some n) s), s)"
| "uart_step Q pop (Read n) s = (case uartRead Q (Some n) s of (c, t) \<Rightarrow> Some (ucast c, t))"

primrec fifo_session ::
  "(nat \<Rightarrow> bool) \<Rightarrow> (nat \<Rightarrow> regfile \<Rightarrow> u8 list) \<Rightarrow> rx_op list \<Rightarrow> (nat \<Rightarrow> rx_fifo option)
     \<Rightarrow> u32 list \<times> (nat \<Rightarrow> rx_fifo option)" where
  "fifo_session att fifo [] B = ([], B)"
| "fifo_session att fifo (x # xs) B =
     (case fifo_step att fifo x B of (v, B') \<Rightarrow>
       (case fifo_session att fifo xs B' of (vs, B'') \<Rightarrow> (v # vs, B'')))"

primrec uart_session ::
  "'q queue_api \<Rightarrow> (nat \<Rightarrow> regfile \<Rightarrow> regfile) \<Rightarrow> rx_op list \<Rightarrow> 'q uart_soc
     \<Rightarrow> (u32 list \<times> 'q uart_soc) option" where
  "uart_session Q pop [] s = Some ([], s)"
| "uart_session Q pop (x # xs) s =
     (case uart_step Q pop x s of
        None \<Rightarrow> None
      | Some (v, t) \<Rightarrow>
          (case uart_session Q pop xs t of None \<Rightarrow> None | Some (vs, u) \<Rightarrow> Some (v # vs, u)))"

definition rx_view ::
  "('q \<Rightarrow> u8 list) \<Rightarrow> ('q \<Rightarrow> nat) \<Rightarrow> 'q uart_soc \<Rightarrow> nat \<Rightarrow> rx_fifo option" where
  "rx_view items room s n = map_option (\<lambda>q. (items q, room q)) (uart_queue s n)"

lemma feed_append: "feed (bs @ cs) p = feed cs (feed bs p)"
  by (cases p) (simp add: min_def take_append)

lemma feed_Nil [simp]: "feed [] = id"
  by (rule ext) auto

lemma map_feed_Cons: "map_option (feed cs) (map_option (feed [c]) x) = map_option (feed (c # cs)) x"
  using feed_append [of "[c]" cs] by (cases x) simp_all

lemma rx_view_cong: "uart_queue t = uart_queue s \<Longrightarrow> rx_view items room t = rx_view items room s"
  by (simp add: rx_view_def fun_eq_iff)

context serial_port
begin

abbreviation view :: "'q uart_soc \<Rightarrow> nat \<Rightarrow> rx_fifo option" where
  "view \<equiv> rx_view items room"

lemma isr_byte_view: "view (isr_byte Q n c s) = (view s)(n := map_option (feed [c]) (view s n))"
proof (cases "uart_queue s n")
  case (Some q)
  then show ?thesis
    using send [of q c] full [of q] by (auto simp: isr_byte_def rx_view_def fun_eq_iff)
qed (auto simp: isr_byte_def rx_view_def fun_eq_iff)

lemma isr_byte_vars [simp]:
  "soc_regs (isr_byte Q n c s) = soc_regs s" "uart_intr (isr_byte Q n c s) = uart_intr s"
  by (simp_all add: isr_byte_def split: option.splits)

lemma isr_drain_feeds:
  "\<exists>t. isr_drain Q pop n s = Some t
     \<and> view t = (view s)(n := map_option (feed (fifo n (soc_regs s))) (view s n))
     \<and> uart_intr t = uart_intr s \<and> (\<forall>m. m \<noteq> n \<longrightarrow> fifo m (soc_regs t) = fifo m (soc_regs s))"
proof (induction "fifo n (soc_regs s)" arbitrary: s)
  case Nil
  then show ?case
    by (subst isr_drain.simps)
      (auto simp: rx_pending_regs pending fun_eq_iff option.map_id)
next
  case (Cons c cs)
  let ?s = "isr_byte Q n c (on_regs (pop n) s)"
  have c: "ucast (getf (Uart n ufifo) rw_byte s) = c"
    by (rule head_byte [OF Cons.hyps(2) [symmetric]])
  have "fifo n (soc_regs s) \<noteq> []"
    using Cons.hyps(2) by (metis list.distinct(1))
  then have eq: "isr_drain Q pop n s = isr_drain Q pop n ?s"
    by (subst isr_drain.simps) (simp add: rx_pending_regs pending c)
  have cs: "cs = fifo n (soc_regs ?s)"
    by (simp add: pop_tail Cons.hyps(2) [symmetric])
  have "view (on_regs (pop n) s) = view s"
    by (rule rx_view_cong) simp
  then have view: "view ?s = (view s)(n := map_option (feed [c]) (view s n))"
    by (simp add: isr_byte_view)
  obtain t where "isr_drain Q pop n ?s = Some t"
      "view t = (view ?s)(n := map_option (feed cs) (view ?s n))"
      "uart_intr t = uart_intr s" "\<forall>m. m \<noteq> n \<longrightarrow> fifo m (soc_regs t) = fifo m (soc_regs s)"
    using Cons.hyps(1) [OF cs] unfolding cs [symmetric] by (auto simp: pop_other)
  then show ?case
    unfolding eq Cons.hyps(2) [symmetric] by (simp add: view map_feed_Cons)
qed

lemma isr_port_feeds:
  "\<exists>t. isr_port Q pop n s = Some t
     \<and> view t = (if uart_intr s n = NULL then view s
          else (view s)(n := map_option (feed (fifo n (soc_regs s))) (view s n)))
     \<and> uart_intr t = uart_intr s \<and> (\<forall>m. m \<noteq> n \<longrightarrow> fifo m (soc_regs t) = fifo m (soc_regs s))"
proof (cases "uart_intr s n = NULL")
  case False
  let ?s = "setf (Uart n uint_clr) rxfifo_tout 1 (setf (Uart n uint_clr) frm_err 1
    (setf (Uart n uint_clr) rxfifo_full 1 s))"
  have "view ?s = view s" and fifo: "fifo m (soc_regs ?s) = fifo m (soc_regs s)" for m
    by (simp_all add: setf_def clear_keeps rx_view_def fun_eq_iff)
  with isr_drain_feeds [of n ?s] False show ?thesis
    by (auto simp: isr_port_def)
qed (simp add: isr_port_def)

lemma uart_isr_feeds:
  "\<exists>t. uart_isr Q pop s = Some t \<and> uart_intr t = uart_intr s
     \<and> view t = (\<lambda>n. if n < 3 \<and> uart_intr s n \<noteq> NULL
          then map_option (feed (fifo n (soc_regs s))) (view s n) else view s n)"
proof -
  obtain s1 where 1: "isr_port Q pop 0 s = Some s1" "uart_intr s1 = uart_intr s"
      "view s1 = (if uart_intr s 0 = NULL then view s
        else (view s)(0 := map_option (feed (fifo 0 (soc_regs s))) (view s 0)))"
      "\<forall>m. m \<noteq> 0 \<longrightarrow> fifo m (soc_regs s1) = fifo m (soc_regs s)"
    using isr_port_feeds [of 0 s] by blast
  obtain s2 where 2: "isr_port Q pop 1 s1 = Some s2" "uart_intr s2 = uart_intr s1"
      "view s2 = (if uart_intr s1 1 = NULL then view s1
        else (view s1)(1 := map_option (feed (fifo 1 (soc_regs s1))) (view s1 1)))"
      "\<forall>m. m \<noteq> 1 \<longrightarrow> fifo m (soc_regs s2) = fifo m (soc_regs s1)"
    using isr_port_feeds [of 1 s1] by blast
  obtain s3 where 3: "isr_port Q pop 2 s2 = Some s3" "uart_intr s3 = uart_intr s2"
      "view s3 = (if uart_intr s2 2 = NULL then view s2
        else (view s2)(2 := map_option (feed (fifo 2 (soc_regs s2))) (view s2 2)))"
    using isr_port_feeds [of 2 s2] by blast
  have lt: "n < 3 \<longleftrightarrow> n = 0 \<or> n = 1 \<or> n = (2 :: nat)" for n
    by auto
  show ?thesis
  proof (intro exI conjI)
    show "uart_isr Q pop s = Some s3"
      by (simp add: uart_isr_def 1 2 3 del: One_nat_def)
    show "view s3 = (\<lambda>n. if n < 3 \<and> uart_intr s n \<noteq> NULL
          then map_option (feed (fifo n (soc_regs s))) (view s n) else view s n)"
      by (rule ext) (auto simp: 1 2 3 lt)
  qed (simp add: 1 2 3)
qed

text \<open>One step of the driver is one step of the bounded FIFO.\<close>

lemma step_refines:
  "\<exists>t. uart_step Q pop x s
       = Some (fst (fifo_step (\<lambda>n. uart_intr s n \<noteq> NULL) fifo x (view s)), t)
     \<and> view t = snd (fifo_step (\<lambda>n. uart_intr s n \<noteq> NULL) fifo x (view s))
     \<and> uart_intr t = uart_intr s"
proof (cases x)
  case (Irq r)
  have view: "view (on_regs (\<lambda>_. r) s) = view s"
    by (rule rx_view_cong) simp
  show ?thesis
    using uart_isr_feeds [of "on_regs (\<lambda>_. r) s", unfolded soc_regs_ops uart_vars view]
    by (auto simp add: Irq)
next
  case (Read n)
  show ?thesis
  proof (cases "uart_queue s n")
    case (Some q)
    then show ?thesis
    proof (cases "items q")
      case (Cons c cs)
      with receive obtain q' where "q_receive Q q = Some (c, q')" "items q' = cs" "room q' = room q"
        by blast
      with Some Cons show ?thesis
        by (auto simp: Read uartRead_def rx_view_def fun_eq_iff)
    qed (simp add: Read uartRead_def rx_view_def receive_empty)
  qed (simp add: Read uartRead_def rx_view_def)
qed (auto simp: uartAvailable_def uartPeek_def rx_view_def waiting peek split: option.splits list.splits)

theorem session_refines:
  "\<exists>t. uart_session Q pop xs s
       = Some (fst (fifo_session (\<lambda>n. uart_intr s n \<noteq> NULL) fifo xs (view s)), t)
     \<and> view t = snd (fifo_session (\<lambda>n. uart_intr s n \<noteq> NULL) fifo xs (view s))"
proof (induction xs arbitrary: s)
  case (Cons x xs)
  obtain t where "uart_step Q pop x s
        = Some (fst (fifo_step (\<lambda>n. uart_intr s n \<noteq> NULL) fifo x (view s)), t)"
      "view t = snd (fifo_step (\<lambda>n. uart_intr s n \<noteq> NULL) fifo x (view s))"
      "uart_intr t = uart_intr s"
    using step_refines [of x s] by blast
  with Cons.IH [of t] show ?case
    by (auto simp: case_prod_beta)
qed simp

end

section \<open>The interfaces can be met\<close>

text \<open>A queue as a list with its capacity.\<close>

definition list_queue :: "(u8 list \<times> nat) queue_api" where
  "list_queue =
     \<lparr>q_new = \<lambda>len. ([], len),
      q_send = \<lambda>c (xs, n). (xs @ [c], n),
      q_full = \<lambda>(xs, n). n \<le> length xs,
      q_receive = \<lambda>(xs, n). (case xs of [] \<Rightarrow> None | c # cs \<Rightarrow> Some (c, (cs, n))),
      q_peek = \<lambda>(xs, n). (case xs of [] \<Rightarrow> None | c # cs \<Rightarrow> Some c),
      q_waiting = \<lambda>(xs, n). length xs\<rparr>"

text \<open>
  A receive FIFO as a shift register: its head is in the FIFO register, the bytes behind it in the
  port's memory, and popping moves each a place forward.
\<close>

definition rx_len :: "nat \<Rightarrow> regfile \<Rightarrow> nat" where
  "rx_len n r =
     (if bf_get rxfifo_cnt (r (Uart n ustatus)) = 0 then of_bool (rx_pend n r)
      else unat (bf_get rxfifo_cnt (r (Uart n ustatus))))"

definition shift_fifo :: "nat \<Rightarrow> regfile \<Rightarrow> u8 list" where
  "shift_fifo n r =
     map (\<lambda>i. if i = 0 then ucast (bf_get rw_byte (r (Uart n ufifo))) else ucast (r (UartRam n i)))
       [0..<rx_len n r]"

definition shift_pop :: "nat \<Rightarrow> regfile \<Rightarrow> regfile" where
  "shift_pop n r =
     (if rx_len n r = 0 then r
      else (\<lambda>x. case x of UartRam m i \<Rightarrow> if m = n then r (UartRam m (i + 1)) else r x | _ \<Rightarrow> r x)
        (Uart n ufifo := r (UartRam n 1),
         Uart n ustatus := bf_put rxfifo_cnt (of_nat (rx_len n r - 1)) (r (Uart n ustatus)),
         Uart n umem_rx_status := 0))"

lemma rx_len_less: "rx_len n r < 256"
  using unat_bf_get_less [of rxfifo_cnt "r (Uart n ustatus)"]
  by (simp add: rx_len_def rxfifo_cnt_def)

lemma rx_len_0: "rx_len n r = 0 \<longleftrightarrow> \<not> rx_pend n r"
  by (auto simp: rx_len_def rx_pend_def unat_eq_0)

lemma rx_len_pop: "rx_len n (shift_pop n r) = rx_len n r - 1"
proof (cases "rx_len n r = 0")
  case False
  let ?k = "of_nat (rx_len n r - 1) :: u32"
  have small: "rx_len n r - 1 < 2 ^ 8"
    using rx_len_less [of n r] by simp
  have "unat (take_bit 8 ?k) = take_bit 8 (unat ?k)"
    by (simp add: unsigned_take_bit_eq)
  also have "unat ?k = rx_len n r - 1"
    using small by (simp add: unat_of_nat)
  also have "take_bit 8 (rx_len n r - 1) = rx_len n r - 1"
    using small by (simp add: take_bit_nat_eq_self)
  finally have "unat (take_bit 8 ?k) = rx_len n r - 1" .
  moreover have cnt: "bf_get rxfifo_cnt (shift_pop n r (Uart n ustatus)) = take_bit 8 ?k"
    using False bf_get_put_same [of rxfifo_cnt ?k] by (simp add: shift_pop_def rxfifo_cnt_def)
  moreover have "rx_pend n (shift_pop n r) \<longleftrightarrow> take_bit 8 ?k \<noteq> 0"
    unfolding rx_pend_def cnt using False by (simp add: shift_pop_def bf_get_def)
  ultimately show ?thesis
    by (simp only: rx_len_def [of n "shift_pop n r"]) auto
qed (simp add: shift_pop_def)

lemma shift_pop_other:
  "m \<noteq> n \<Longrightarrow> shift_pop n r (Uart m x) = r (Uart m x)"
  "m \<noteq> n \<Longrightarrow> shift_pop n r (UartRam m i) = r (UartRam m i)"
  by (simp_all add: shift_pop_def)

interpretation shift_reg: rx_hardware shift_pop shift_fifo
proof
  fix n m :: nat and r :: regfile and c :: u8 and cs and v :: u32
  show "rx_pend n r \<longleftrightarrow> shift_fifo n r \<noteq> []"
    using rx_len_0 [of n r] by (simp add: shift_fifo_def)
  show "ucast (bf_get rw_byte (r (Uart n ufifo))) = c" if "shift_fifo n r = c # cs"
  proof -
    have "shift_fifo n r ! 0 = ucast (bf_get rw_byte (r (Uart n ufifo)))" if "0 < rx_len n r"
      using that by (simp add: shift_fifo_def)
    moreover have "0 < rx_len n r"
      using that by (cases "rx_len n r") (auto simp: shift_fifo_def)
    ultimately show ?thesis
      using that by simp
  qed
  show "shift_fifo n (shift_pop n r) = tl (shift_fifo n r)"
  proof (rule nth_equalityI)
    show "length (shift_fifo n (shift_pop n r)) = length (tl (shift_fifo n r))"
      by (simp add: shift_fifo_def rx_len_pop)
    fix i
    assume "i < length (shift_fifo n (shift_pop n r))"
    then have i: "Suc i < rx_len n r"
      by (simp add: shift_fifo_def rx_len_pop)
    then show "shift_fifo n (shift_pop n r) ! i = tl (shift_fifo n r) ! i"
      by (simp add: shift_fifo_def rx_len_pop nth_tl)
        (auto simp: shift_pop_def rw_byte_def bf_get_def unsigned_take_bit_eq take_bit_word_eq_self)
  qed
  show "shift_fifo m (shift_pop n r) = shift_fifo m r" if "m \<noteq> n"
    using that by (simp add: shift_fifo_def rx_len_def rx_pend_def shift_pop_other)
  show "shift_fifo m (r(Uart n uint_clr := v)) = shift_fifo m r"
    by (simp add: shift_fifo_def rx_len_def rx_pend_def)
qed

interpretation list_port: serial_port list_queue fst snd shift_pop shift_fifo
  by unfold_locales (auto simp: list_queue_def split: list.splits)

section \<open>Properties\<close>

text \<open>
  C7: the receive path implements a bounded FIFO. For every queue and every receive hardware that
  keep their interfaces, any sequence of interrupts, reads, peeks and queries returns, and yields
  exactly the answers of the abstract receiver: arriving bytes are kept in order while the queue has
  room, ports without an allocated interrupt receive nothing, reading an empty port gives 0.
\<close>

theorem uart_rx_refines_fifo:
  assumes "serial_port Q items room pop fifo"
  shows "\<exists>t. uart_session Q pop xs s
       = Some (fst (fifo_session (\<lambda>n. uart_intr s n \<noteq> NULL) fifo xs (rx_view items room s)), t)
     \<and> rx_view items room t
       = snd (fifo_session (\<lambda>n. uart_intr s n \<noteq> NULL) fifo xs (rx_view items room s))"
  using serial_port.session_refines [OF assms] .

definition uart_ex :: "(u8 list \<times> nat) uart_soc" where
  "uart_ex = \<lparr>soc_regs = \<lambda>_. 0, soc_trace = [], uart_lock = (\<lambda>n. n = 1),
     uart_queue = [1 \<mapsto> ([], 2)], uart_intr = (\<lambda>n. of_bool (n = 1)), uart_debug = 1\<rparr>"

definition rx_regs_ex :: regfile where
  "rx_regs_ex = (\<lambda>_. 0)(Uart 1 ustatus := 3, Uart 1 ufifo := 0x41, UartRam 1 1 := 0x42,
     UartRam 1 2 := 0x43)"

lemma shift_fifo_ex: "shift_fifo 1 rx_regs_ex = [0x41, 0x42, 0x43]"
proof -
  have "bf_get rxfifo_cnt (3 :: u32) = 3"
    by code_simp
  then have "rx_len 1 rx_regs_ex = 3"
    by (simp add: rx_len_def rx_regs_ex_def)
  moreover have "ucast (bf_get rw_byte (0x41 :: u32)) = (0x41 :: u8)"
    by code_simp
  ultimately show ?thesis
    by (simp add: shift_fifo_def upt_rec) (simp add: rx_regs_ex_def)
qed

text \<open>Three bytes arrive at a queue with room for two; the third is lost.\<close>

theorem uart_rx_refines_fifo_witness:
  "\<exists>t. uart_session list_queue shift_pop [Irq rx_regs_ex, Available 1, Read 1, Peek 1, Read 1, Read 1] uart_ex
     = Some ([0, 2, 0x41, 0x42, 0x42, 0], t)"
proof -
  have "fst (fifo_session (\<lambda>n. uart_intr uart_ex n \<noteq> NULL) shift_fifo
      [Irq rx_regs_ex, Available 1, Read 1, Peek 1, Read 1, Read 1] (rx_view fst snd uart_ex))
    = [0, 2, 0x41, 0x42, 0x42, 0]"
    by (simp add: rx_view_def uart_ex_def shift_fifo_ex [unfolded One_nat_def])
  with uart_rx_refines_fifo [OF list_port.serial_port_axioms,
      of "[Irq rx_regs_ex, Available 1, Read 1, Peek 1, Read 1, Read 1]" uart_ex]
  show ?thesis
    by auto
qed

end
