(* ===== verification/UartTx.thy ===== *)
theory UartTx
  imports UartRx
begin

text \<open>
  What the serial driver guarantees on its transmit side and as a resource: buffers go out whole and
  in order, the baud rate asked for is the one set up to the divider's resolution, a port is started
  with everything it needs, and which error paths keep the mutex or leak memory.
\<close>

section \<open>Observers\<close>

text \<open>The bytes stored into the transmit FIFO of a port, in order.\<close>

fun sent_step :: "nat \<Rightarrow> event \<Rightarrow> u8 list" where
  "sent_step n (Wr r v) = (if r = Uart n ufifo then [ucast v] else [])"
| "sent_step n _ = []"

definition uart_sent :: "nat \<Rightarrow> 'a soc_scheme \<Rightarrow> u8 list" where
  "uart_sent n s = concat (map (sent_step n) (soc_trace s))"

lemma uart_sent_simps [simp]:
  "uart_sent n (wr r v s) = uart_sent n s @ (if r = Uart n ufifo then [ucast v] else [])"
  "uart_sent n (ext c s) = uart_sent n s"
  "uart_sent n (on_regs f s) = uart_sent n s"
  by (simp_all add: uart_sent_def)

lemma uart_sent_send [simp]: "uart_sent n (uart_send m c s) = uart_sent n s @ (if m = n then [c] else [])"
proof -
  have "ucast (bf_put rw_byte (ucast c) w) = c" for w :: u32
    by (rule bit_word_eqI) (auto simp: bits bit_simps rw_byte_def)
  then show ?thesis
    by (simp add: uart_send_def setf_def)
qed

text \<open>How often a heap block is allocated after a log: allocations minus releases.\<close>

fun alloc_step :: "ptr \<Rightarrow> event \<Rightarrow> int \<Rightarrow> int" where
  "alloc_step p (Ext (MallocMem k q)) n = (if p = q then n + 1 else n)"
| "alloc_step p (Ext (FreeMem q)) n = (if p = q then n - 1 else n)"
| "alloc_step p _ n = n"

definition allocated :: "ptr \<Rightarrow> 'a soc_scheme \<Rightarrow> int" where
  "allocated p s = fold (alloc_step p) (soc_trace s) 0"

lemma allocated_ext: "allocated p (ext c s) = alloc_step p (Ext c) (allocated p s)"
  by (simp add: allocated_def)

section \<open>Writing\<close>

lemma write_loop_Nil: "write_loop env n [] s = Some s"
  by (subst write_loop.simps) simp

lemma write_loop_Cons:
  "write_loop env n (d # data) s =
     (let s = on_regs env s
      in if tx_count n s < 0x7F then write_loop env n data (uart_send n d s)
         else write_loop env n (d # data) s)"
proof (cases "tx_count n (on_regs env s) < 0x7F")
  case True
  let ?t = "uart_send n d (on_regs env s)"
  have "write_loop env n (d # data) s
      = (case write_burst env n data ?t of (data', s') \<Rightarrow> write_loop env n data' s')"
    by (subst write_loop.simps) (simp add: True)
  also have "\<dots> = write_loop env n data ?t"
    by (cases data) (simp_all add: write_loop_Nil write_loop.simps [of env n "_ # _"])
  finally show ?thesis
    by (simp add: True)
qed (subst write_loop.simps, simp)

text \<open>Hardware that makes room: from every state of the registers, after some number of steps.\<close>

definition tx_drains :: "(regfile \<Rightarrow> regfile) \<Rightarrow> nat \<Rightarrow> bool" where
  "tx_drains env n \<longleftrightarrow>
     (\<forall>r. \<exists>k. bf_get txfifo_cnt ((env ^^ Suc k) r (Uart n ustatus)) < 0x7F)"

lemma tx_count_regs: "tx_count n s = bf_get txfifo_cnt (soc_regs s (Uart n ustatus))"
  by (simp add: tx_count_def getf_def rd_def)

lemma write_loop_waits:
  assumes "tx_count n (on_regs (env ^^ Suc k) s) < 0x7F"
  shows "\<exists>f. write_loop env n (d # data) s = write_loop env n data (uart_send n d (on_regs f s))"
  using assms
proof (induction k arbitrary: s)
  case 0
  then show ?case
    by (intro exI [of _ env]) (simp add: write_loop_Cons Let_def)
next
  case (Suc k)
  show ?case
  proof (cases "tx_count n (on_regs env s) < 0x7F")
    case True
    then show ?thesis
      by (intro exI [of _ env]) (simp add: write_loop_Cons Let_def)
  next
    case False
    have shift: "on_regs (env ^^ Suc (Suc k)) s = on_regs (env ^^ Suc k) (on_regs env s)"
      unfolding funpow_Suc_right [of "Suc k"] by (simp add: on_regs_def)
    then obtain f where "write_loop env n (d # data) (on_regs env s)
        = write_loop env n data (uart_send n d (on_regs f (on_regs env s)))"
      using Suc.IH [of "on_regs env s"] Suc.prems unfolding shift by blast
    with False show ?thesis
      by (intro exI [of _ "f \<circ> env"])
        (subst write_loop_Cons, simp add: Let_def on_regs_def comp_def)
  qed
qed

lemma write_loop_sends:
  assumes "tx_drains env n"
  shows "\<exists>t. write_loop env n data s = Some t \<and> uart_sent n t = uart_sent n s @ data
     \<and> (\<forall>m. m \<noteq> n \<longrightarrow> uart_sent m t = uart_sent m s) \<and> (\<forall>l. held l t = held l s)
     \<and> uart_lock t = uart_lock s \<and> uart_queue t = uart_queue s"
proof (induction data arbitrary: s)
  case (Cons d data)
  from assms obtain k where "bf_get txfifo_cnt ((env ^^ Suc k) (soc_regs s) (Uart n ustatus)) < 0x7F"
    unfolding tx_drains_def by blast
  then have "tx_count n (on_regs (env ^^ Suc k) s) < 0x7F"
    by (simp only: tx_count_regs soc_regs_ops)
  from write_loop_waits [OF this] obtain f
    where eq: "write_loop env n (d # data) s = write_loop env n data (uart_send n d (on_regs f s))"
    by blast
  show ?case
    using Cons.IH [of "uart_send n d (on_regs f s)"] by (auto simp: eq)
qed (simp add: write_loop_Nil)

section \<open>The baud rate\<close>

lemma baud_divider:
  fixes c w :: u32
  assumes "c < 2 ^ 24" and v: "v = bf_put div_frag (c AND 0xf) (bf_put div_int (drop_bit 4 c) w)"
  shows "push_bit 4 (bf_get div_int v) OR (bf_get div_frag v AND 0x0F) = c"
proof -
  have c: "\<not> bit c k" if "24 \<le> k" for k
  proof -
    have "take_bit 24 c = c"
      using assms(1)
      by (simp add: word_unat_eq_iff unsigned_take_bit_eq take_bit_nat_eq_self word_less_nat_alt)
    with that show ?thesis
      by (metis bit_take_bit_iff linorder_not_less)
  qed
  have nibble: "x AND 0xf = take_bit 4 x" for x :: u32
    by (simp add: take_bit_eq_mask mask_eq_exp_minus_1)
  show ?thesis
  proof (rule bit_word_eqI)
    fix k :: nat
    assume "k < LENGTH(32)"
    then show "bit (push_bit 4 (bf_get div_int v) OR (bf_get div_frag v AND 0x0F)) k = bit c k"
      using c [of k] unfolding v nibble
      by (auto simp: bits uart_fields bit_or_iff bit_take_bit_iff bit_push_bit_iff bit_drop_bit_eq)
  qed
qed

text \<open>What integer division loses: the rate read back is the least multiple that the divider allows.\<close>

lemma div_div_bounds:
  fixes N b :: nat
  assumes "0 < b" and "b \<le> N"
  shows "b \<le> N div (N div b)" and "(N div (N div b) - b) * (N div b) \<le> b"
proof -
  let ?c = "N div b"
  have c: "0 < ?c"
    using assms by (simp add: div_greater_zero_iff)
  have "?c * b \<le> N"
    by simp
  then show "b \<le> N div ?c"
    using c by (simp add: less_eq_div_iff_mult_less_eq mult.commute)
  have "N div ?c * ?c \<le> N"
    by simp
  moreover have "N < ?c * b + b"
    using assms(1) div_mult_mod_eq [of N b] mod_less_divisor [of b N] by linarith
  ultimately show "(N div ?c - b) * ?c \<le> b"
    by (simp only: diff_mult_distrib mult.commute [of b])
qed

lemma clk_freq: "unat (push_bit 4 UART_CLK_FREQ) = 1280000000"
  by (simp add: UART_CLK_FREQ_def push_bit_eq_mult)

lemma uartSetBaudRate_Some:
  assumes "uart_lock s n" and "baud \<noteq> 0"
  shows "\<exists>t. uartSetBaudRate (Some n) baud s = Some t
    \<and> rd (Uart n uclk_div) t
       = bf_put div_frag (push_bit 4 UART_CLK_FREQ div baud AND 0xf)
           (bf_put div_int (drop_bit 4 (push_bit 4 UART_CLK_FREQ div baud)) (rd (Uart n uclk_div) s))
    \<and> (\<forall>r. r \<noteq> Uart n uclk_div \<longrightarrow> rd r t = rd r s)
    \<and> (\<forall>l. held l t = held l s) \<and> uart_lock t = uart_lock s \<and> uart_queue t = uart_queue s
    \<and> uart_intr t = uart_intr s"
  using assms
  by (simp add: uartSetBaudRate_def on_port_def uart_guarded_eq Let_def)

section \<open>Starting a port\<close>

lemma funpow_on_regs: "(on_regs env ^^ k) s = on_regs (env ^^ k) s"
  by (induction k) (simp_all add: on_regs_def)

lemma uart_vars_of_more:
  assumes "soc.more t = soc.more (s :: 'q uart_soc)"
  shows "uart_lock t = uart_lock s" "uart_queue t = uart_queue s" "uart_intr t = uart_intr s"
  using assms by (cases s; cases t; simp)+

text \<open>Hardware that sends everything it was given.\<close>

definition tx_empties :: "(regfile \<Rightarrow> regfile) \<Rightarrow> nat \<Rightarrow> bool" where
  "tx_empties env n \<longleftrightarrow>
     (\<forall>r. \<exists>k. bf_get txfifo_cnt ((env ^^ Suc k) r (Uart n ustatus)) = 0)"

lemma await_empty:
  assumes "tx_empties env n"
  shows "\<exists>t. await (on_regs env) (\<lambda>s. tx_count n s = 0) s = Some t \<and> soc.more t = soc.more s
    \<and> soc_trace t = soc_trace s"
proof -
  from assms obtain k where "bf_get txfifo_cnt ((env ^^ Suc k) (soc_regs s) (Uart n ustatus)) = 0"
    unfolding tx_empties_def by blast
  then have "tx_count n ((on_regs env ^^ Suc k) s) = 0"
    by (simp only: funpow_on_regs tx_count_regs soc_regs_ops)
  from await_ex [where c = "\<lambda>s. tx_count n s = 0", OF exI, OF this] show ?thesis
    by (auto simp: funpow_on_regs simp del: funpow.simps)
qed

lemma uartFlush_Some:
  assumes "rx_hardware pop fifo" and "tx_empties env n" and "uart_lock s n"
  shows "\<exists>t. uartFlush env pop (Some n) s = Some t \<and> soc.more t = soc.more s
    \<and> (\<forall>l. held l t = held l s) \<and> fifo n (soc_regs t) = []"
proof -
  let ?s = "ext (SemTake (UartLock n)) s"
  obtain t where t: "await (on_regs env) (\<lambda>s. tx_count n s = 0) ?s = Some t"
      "soc.more t = soc.more s" "soc_trace t = soc_trace ?s"
    using await_empty [OF assms(2), of ?s] by auto
  obtain u where u: "flush_rx pop n t = Some u" "fifo n (soc_regs u) = []"
      "soc_trace u = soc_trace t" "soc.more u = soc.more t"
    using rx_hardware.flush_returns [OF assms(1), of n t] by blast
  have "uart_lock u = uart_lock s"
    using u(4) t(2) by (intro uart_vars_of_more) simp
  then have "uartFlush env pop (Some n) s = Some (ext (SemGive (UartLock n)) u)"
    using assms(3) t(1) u(1) by (simp add: uartFlush_def on_port_def uart_guarded_eq)
  moreover have "held l u = held l ?s" for l
    using u(3) t(3) by (simp add: held_def)
  ultimately show ?thesis
    using u t(2) by simp
qed

lemma uart_power_frame [simp]:
  "soc.more (uart_power n s) = soc.more s" "held l (uart_power n s) = held l s"
  by (simp_all add: uart_power_def Let_def)

lemma uart_frame_more [simp]:
  "soc.more (uart_frame n config s) = soc.more s" "held l (uart_frame n config s) = held l s"
  by (simp_all add: uart_frame_def Let_def)

lemma uart_frame_stop:
  "getf (Uart n uconf0) stop_bit_num (uart_frame n config s) =
     (if bf_get stop_bit_num config = 3 then 1 else bf_get stop_bit_num config)"
  by (simp add: uart_frame_def Let_def getf_def bf_get_put_same stop_bit_num_def take_bit_Suc)

lemma uart_lock_frame [simp]: "uart_lock (uart_frame n config s) = uart_lock s"
  by (rule uart_vars_of_more) simp

lemma uart_lock_pins [simp]:
  fixes s :: "'q uart_soc"
  shows "uart_lock (pinMode desc p m s) = uart_lock s" "uart_queue (pinMode desc p m s) = uart_queue s"
  "uart_intr (pinMode desc p m s) = uart_intr s"
  "uart_lock (pinMatrixInAttach p' f i s) = uart_lock s"
  "uart_queue (pinMatrixInAttach p' f i s) = uart_queue s"
  "uart_intr (pinMatrixInAttach p' f i s) = uart_intr s"
  "uart_lock (pinMatrixOutAttach p' f i e s) = uart_lock s"
  "uart_queue (pinMatrixOutAttach p' f i e s) = uart_queue s"
  "uart_intr (pinMatrixOutAttach p' f i e s) = uart_intr s"
  using uart_vars_of_more [of "pinMode desc p m s" s] uart_vars_of_more [of "pinMatrixInAttach p' f i s" s]
    uart_vars_of_more [of "pinMatrixOutAttach p' f i e s" s]
  by simp_all

lemma rd_uart_update [simp]: "rd r (s\<lparr>uart_intr := f\<rparr>) = rd r s"
  by (simp add: rd_def)

lemma no_pin_39: "\<not> (- 1 :: u8) \<le> 39"
  by code_simp

lemma uartAttachRx_Some:
  assumes "uart_lock s n"
  shows "\<exists>t. (if rxPin \<noteq> - 1 then uartAttachRx desc h (Some n) rxPin inverted else Some) s = Some t
    \<and> uart_lock t = uart_lock s \<and> uart_queue t = uart_queue s
    \<and> uart_intr t = (if rxPin \<le> 39 then (uart_intr s)(n := h) else uart_intr s)
    \<and> rd (Uart m uconf0) t = rd (Uart m uconf0) s \<and> (\<forall>l. held l t = held l s)"
  using assms
  by (auto simp: uartAttachRx_def on_port_def uartEnableInterrupt_def uart_guarded_eq rd_pinMode held_ext
      no_pin_39)

lemma uartAttachTx_Some:
  "\<exists>t. (if txPin \<noteq> - 1 then uartAttachTx desc (Some n) txPin inverted else Some) s = Some t
    \<and> uart_lock t = uart_lock s \<and> uart_queue t = uart_queue s \<and> uart_intr t = uart_intr s
    \<and> rd (Uart m uconf0) t = rd (Uart m uconf0) s \<and> (\<forall>l. held l t = held l s)"
  by (auto simp: uartAttachTx_def on_port_def rd_pinMode)

section \<open>Properties\<close>


text \<open>Hardware that is full at every other reading.\<close>

definition blink :: "regfile \<Rightarrow> regfile" where
  "blink r = r(Uart 1 ustatus := if r (Uart 1 ustatus) = 0x7F0000 then 0 else 0x7F0000)"

lemma blink_drains: "tx_drains blink 1"
  unfolding tx_drains_def
proof
  fix r
  have "bf_get txfifo_cnt 0 < 0x7F"
    by code_simp
  then show "\<exists>k. bf_get txfifo_cnt ((blink ^^ Suc k) r (Uart 1 ustatus)) < 0x7F"
    by (cases "r (Uart 1 ustatus) = 0x7F0000")
      (rule exI [of _ 0], simp add: blink_def, rule exI [of _ 1], simp add: blink_def)
qed




text \<open>
  Growing the receive queue. If the new queue can be created, or there was none, the mutex is free
  again and the queue is the new one; if it cannot, the port has lost its queue and the call returns
  with the mutex still held, so every later operation that takes it blocks for ever.
\<close>

theorem uartResizeRxBuffer_mutex:
  assumes "byte_queue Q items room" and "uart_lock s n"
  shows "\<exists>v t. uartResizeRxBuffer Q queue_ok (Some n) len s = Some (Some v, t)
     \<and> v = (if uart_queue s n = None \<or> queue_ok then len else 0)
     \<and> uart_queue t = (if uart_queue s n = None then uart_queue s
          else if queue_ok then (uart_queue s)(n \<mapsto> q_new Q len) else (uart_queue s)(n := None))
     \<and> (\<forall>l. held l t = held l s
          + of_bool (l = UartLock n \<and> uart_queue s n \<noteq> None \<and> \<not> queue_ok))"
proof (cases "uart_queue s n")
  case None
  with assms(2) show ?thesis
    by (simp add: uartResizeRxBuffer_def uart_take_def uart_give_def)
next
  case (Some q)
  then obtain q' where "drain_queue Q q = Some q'"
    using byte_queue.drain_returns [OF assms(1), of q] by blast
  with Some assms(2) show ?thesis
    by (simp add: uartResizeRxBuffer_def uart_take_def uart_give_def delete_queue_def held_ext)
qed

theorem uartResizeRxBuffer_mutex_witness:
  "\<exists>t. uartResizeRxBuffer list_queue False (Some 1) 512 uart_ex = Some (Some 0, t)
     \<and> held (UartLock 1) t = 1 \<and> uart_queue t 1 = None"
  using uartResizeRxBuffer_mutex [OF list_port.byte_queue_axioms, of uart_ex 1 False 512]
  by (auto simp: uart_ex_def held_def)

text \<open>
  \<open>log_printf\<close> prints the formatted text exactly once unless debug output is off or the heap
  refuses, and gives the mutex back; a text of exactly 64 bytes goes to the heap and is never freed,
  every other text leaves the heap as it was.
\<close>

theorem log_printf_leaks_64:
  "\<exists>n t. log_printf p text s = Some (n, t)
     \<and> (if uart_debug s < 0 \<or> 64 \<le> length text \<and> p = NULL then n = 0 \<and> t = s
        else n = length text
          \<and> filter (\<lambda>e. \<exists>x. e = Ext (EtsPrintf x)) (soc_trace t)
              = filter (\<lambda>e. \<exists>x. e = Ext (EtsPrintf x)) (soc_trace s) @ [Ext (EtsPrintf text)]
          \<and> allocated p t = allocated p s + of_bool (length text = 64)
          \<and> (\<forall>l. held l t = held l s))"
proof (cases "uart_debug s < 0 \<or> 64 \<le> length text \<and> p = NULL")
  case False
  let ?a = "if 64 \<le> length text then ext (MallocMem (length text + 1) p) s else s"
  let ?port = "nat (uart_debug s)"
  let ?b = "if uart_lock s ?port
    then ext (SemGive (UartLock ?port)) (ext (EtsPrintf text) (ext (SemTake (UartLock ?port)) ?a))
    else ext (EtsPrintf text) ?a"
  have "log_printf p text s
      = Some (length text, if 64 < length text then ext (FreeMem p) ?b else ?b)"
    using False by (auto simp: log_printf_def Let_def uart_guarded_eq)
  with False show ?thesis
    by (auto simp: allocated_ext held_ext)
qed (auto simp: log_printf_def)

text \<open>
  \<open>uartBegin\<close> refuses exactly a port above 2, two absent pins, and a mutex or queue that cannot be
  created; with the hardware behind it and a baud rate that is not 0 it then always returns the
  port's handle. The port has its mutex, keeps the queue it had or gets an empty one of the length
  asked for, its interrupt is attached exactly when the receive pin exists, two stop bits are coded
  as one with the delayed one, and every mutex is free again.
\<close>

theorem uartBegin_state:
  assumes "rx_hardware pop fifo" and "tx_empties env n" and "baud \<noteq> 0"
  shows "\<exists>uart t. uartBegin Q env pop desc mutex_ok queue_ok h n baud config rx tx len inverted s
        = Some (uart, t)
     \<and> (\<forall>l. held l t = held l s)
     \<and> (if n \<le> 2 \<and> (rx, tx) \<noteq> (- 1, - 1) \<and> (uart_lock s n \<or> mutex_ok)
            \<and> (len = 0 \<or> uart_queue s n \<noteq> None \<or> queue_ok)
         then uart = Some n \<and> uart_lock t = (uart_lock s)(n := True)
           \<and> uart_queue t = (if len \<noteq> 0 \<and> uart_queue s n = None
               then (uart_queue s)(n \<mapsto> q_new Q len) else uart_queue s)
           \<and> uart_intr t = (if rx \<le> 39 then (uart_intr s)(n := h) else uart_intr s)
           \<and> getf (Uart n uconf0) stop_bit_num t
               = (if bf_get stop_bit_num config = 3 then 1 else bf_get stop_bit_num config)
         else uart = None)"
proof (cases "n \<le> 2 \<and> (rx, tx) \<noteq> (- 1, - 1) \<and> (uart_lock s n \<or> mutex_ok)
            \<and> (len = 0 \<or> uart_queue s n \<noteq> None \<or> queue_ok)")
  case True
  define s1 where "s1 = fst (uart_create Q mutex_ok queue_ok n len s)"
  define s2 where "s2 = uart_power n s1"
  have create: "uart_create Q mutex_ok queue_ok n len s = (s1, True)"
    using True by (auto simp: s1_def uart_create_def Let_def)
  have 1: "uart_lock s1 = (uart_lock s)(n := True)"
      "uart_queue s1 = (if len \<noteq> 0 \<and> uart_queue s n = None
        then (uart_queue s)(n \<mapsto> q_new Q len) else uart_queue s)"
      "uart_intr s1 = uart_intr s" "\<And>l. held l s1 = held l s"
    using True by (auto simp: s1_def uart_create_def Let_def)
  have 2: "uart_lock s2 n" "uart_lock s2 = uart_lock s1" "uart_queue s2 = uart_queue s1"
      "uart_intr s2 = uart_intr s1"
    using uart_vars_of_more [of s2 s1] by (simp_all add: s2_def 1)
  obtain s3 where 3: "uartFlush env pop (Some n) s2 = Some s3" "soc.more s3 = soc.more s2"
      "\<forall>l. held l s3 = held l s2"
    using uartFlush_Some [OF assms(1,2) 2(1)] by blast
  note vars3 = uart_vars_of_more [OF 3(2)]
  with 2(1) have "uart_lock s3 n"
    by simp
  then obtain s4 where 4: "uartSetBaudRate (Some n) baud s3 = Some s4" "\<forall>l. held l s4 = held l s3"
      "uart_lock s4 = uart_lock s3" "uart_queue s4 = uart_queue s3" "uart_intr s4 = uart_intr s3"
    using uartSetBaudRate_Some [OF _ assms(3)] by blast
  define s5 where "s5 = ext (SemGive (UartLock n)) (uart_frame n config (ext (SemTake (UartLock n)) s4))"
  have frame: "uart_guarded n [stmt (uart_frame n config)] s4 = Some s5"
    using 4(3) \<open>uart_lock s3 n\<close> by (simp add: uart_guarded_eq s5_def)
  have 5: "uart_lock s5 = uart_lock s4" "uart_queue s5 = uart_queue s4" "uart_intr s5 = uart_intr s4"
      "held l s5 = held l s4" for l
    using uart_vars_of_more [of "uart_frame n config (ext (SemTake (UartLock n)) s4)"
        "ext (SemTake (UartLock n)) s4"]
    by (simp_all add: s5_def)
  have "uart_lock s5 n"
    using 4(3) 5(1) \<open>uart_lock s3 n\<close> by simp
  from uartAttachRx_Some [OF this] obtain s6 where 6:
      "(if rx \<noteq> - 1 then uartAttachRx desc h (Some n) rx inverted else Some) s5 = Some s6"
      "uart_lock s6 = uart_lock s5" "uart_queue s6 = uart_queue s5"
      "uart_intr s6 = (if rx \<le> 39 then (uart_intr s5)(n := h) else uart_intr s5)"
      "rd (Uart n uconf0) s6 = rd (Uart n uconf0) s5" "\<forall>l. held l s6 = held l s5"
    by blast
  obtain t where 7: "(if tx \<noteq> - 1 then uartAttachTx desc (Some n) tx inverted else Some) s6 = Some t"
      "uart_lock t = uart_lock s6" "uart_queue t = uart_queue s6" "uart_intr t = uart_intr s6"
      "rd (Uart n uconf0) t = rd (Uart n uconf0) s6" "\<forall>l. held l t = held l s6"
    using uartAttachTx_Some by blast
  have "uartBegin Q env pop desc mutex_ok queue_ok h n baud config rx tx len inverted s
      = Some (Some n, t)"
    using True create frame 3(1) 4(1) 6(1) 7(1) by (simp add: uartBegin_def s2_def)
  moreover have "held l t = held l s" for l
    using 7(6) 6(6) 5(4) 4(2) 3(3) 1(4) by (simp add: s2_def)
  moreover have "getf (Uart n uconf0) stop_bit_num t
      = (if bf_get stop_bit_num config = 3 then 1 else bf_get stop_bit_num config)"
    using uart_frame_stop [of n config "ext (SemTake (UartLock n)) s4"] 6(5) 7(5)
    by (simp add: getf_def s5_def)
  ultimately show ?thesis
    using True 1 2(2-) vars3 4(3-) 5(1-3) 6(2-4) 7(2-4) by simp
next
  case False
  show ?thesis
  proof (cases "n \<le> 2 \<and> (rx, tx) \<noteq> (- 1, - 1)")
    case True
    obtain u where u: "uart_create Q mutex_ok queue_ok n len s = (u, False)" "\<forall>l. held l u = held l s"
    proof
      let ?u = "fst (uart_create Q mutex_ok queue_ok n len s)"
      show "uart_create Q mutex_ok queue_ok n len s = (?u, False)" "\<forall>l. held l ?u = held l s"
        using True False by (auto simp: uart_create_def Let_def)
    qed
    have "uartBegin Q env pop desc mutex_ok queue_ok h n baud config rx tx len inverted s = Some (None, u)"
      using True by (auto simp: uartBegin_def u(1))
    with u(2) show ?thesis
      unfolding if_not_P [OF False] by blast
  next
    case no: False
    have "uartBegin Q env pop desc mutex_ok queue_ok h n baud config rx tx len inverted s = Some (None, s)"
      using no by (auto simp: uartBegin_def)
    then show ?thesis
      unfolding if_not_P [OF False] by blast
  qed
qed

lemma empties_ex: "tx_empties (\<lambda>r. r(Uart 2 ustatus := 0)) 2"
proof -
  have "bf_get txfifo_cnt 0 = 0"
    by (simp add: bf_get_def)
  then show ?thesis
    unfolding tx_empties_def by (intro allI exI [of _ 0]) simp
qed

definition no_rtc_desc :: rtc_gpio_desc_t where
  "no_rtc_desc = \<lparr>desc_reg = 0, desc_mux = 0, desc_func = 0, desc_ie = 0, desc_pullup = 0,
     desc_pulldown = 0, desc_rtc_num = 0\<rparr>"

theorem uartBegin_state_witness:
  "\<exists>t. uartBegin list_queue (\<lambda>r. r(Uart 2 ustatus := 0)) shift_pop (\<lambda>_. no_rtc_desc) True True 7 2
        115200 0x8000030 16 17 256 False uart_ex = Some (Some 2, t)
     \<and> uart_queue t 2 = Some ([], 256) \<and> uart_intr t 2 = 7
     \<and> getf (Uart 2 uconf0) stop_bit_num t = 1 \<and> held (UartLock 2) t = 0"
proof -
  have "bf_get stop_bit_num 0x8000030 = 3"
    by code_simp
  then show ?thesis
    using uartBegin_state [OF shift_reg.rx_hardware_axioms empties_ex, of 115200 list_queue
        "\<lambda>_. no_rtc_desc" True True 7 "0x8000030" 16 17 256 False uart_ex]
    by (auto simp: uart_ex_def held_def list_queue_def)
qed

end
