(* ===== verification/UartMutex.thy ===== *)
theory UartMutex
  imports UartTx
begin

text \<open>
  The serial driver as a transition system: one step per call of the driver or interrupt, in any order
  and with any hardware, queue and allocator. The invariant of its runs is the mutex discipline: the
  only call that can leave a mutex held is a resize whose new queue cannot be created.
\<close>

section \<open>Calls that return leave mutexes as they were\<close>

definition neutral :: "('q uart_soc \<Rightarrow> 'q uart_soc option) \<Rightarrow> bool" where
  "neutral f \<longleftrightarrow> (\<forall>s t. f s = Some t \<longrightarrow> uart_lock t = uart_lock s \<and> (\<forall>l. held l t = held l s))"

named_theorems neutral

lemma neutralD: "neutral f \<Longrightarrow> f s = Some t \<Longrightarrow> uart_lock t = uart_lock s"
  "neutral f \<Longrightarrow> f s = Some t \<Longrightarrow> held l t = held l s"
  by (simp_all add: neutral_def)

lemma neutral_inert: "neutral f \<Longrightarrow> uart_mutex.inert f"
  by (simp add: neutral_def uart_mutex.inert_def)

lemma neutral_stmt [neutral]:
  "(\<And>s. uart_lock (f s) = uart_lock s) \<Longrightarrow> (\<And>l s. held l (f s) = held l s) \<Longrightarrow> neutral (stmt f)"
  by (simp add: neutral_def)

lemma neutral_Some [neutral]: "neutral Some" "neutral (\<lambda>s. None)"
  by (simp_all add: neutral_def)

lemma neutral_run [neutral]:
  assumes "\<And>f. f \<in> set fs \<Longrightarrow> neutral f"
  shows "neutral (run fs)"
  unfolding neutral_def
proof (intro allI impI)
  fix s t
  assume run: "run fs s = Some t"
  show "uart_lock t = uart_lock s \<and> (\<forall>l. held l t = held l s)"
    by (rule run_inv [OF run, where P = "\<lambda>t. uart_lock t = uart_lock s \<and> (\<forall>l. held l t = held l s)"])
      (use assms in \<open>auto simp: neutral_def\<close>)
qed

text \<open>A bracketed operation, by the interface of the macros; the other mutexes are not named in it.\<close>

lemma neutral_guarded [neutral]:
  assumes "\<And>f. f \<in> set fs \<Longrightarrow> neutral f"
  shows "neutral (uart_guarded n fs)"
  unfolding neutral_def
proof (intro allI impI conjI)
  fix s t l
  assume "uart_guarded n fs s = Some t"
  then have *: "guarded (uart_take n) (uart_give n) fs s = Some t"
    by (simp add: uart_guarded_def)
  have "uart_lock t m = uart_lock s m" for m
    using uart_mutex.guarded_balanced [OF *] assms neutral_inert by blast
  then show "uart_lock t = uart_lock s"
    by (rule ext)
  obtain u where "run fs (ext (SemTake (UartLock n)) s) = Some u"
      "t = ext (SemGive (UartLock n)) u"
    using * by (auto simp: uart_mutex.guarded_Some uart_take_eq uart_give_eq)
  with neutralD(2) [OF neutral_run [OF assms]] show "held l t = held l s"
    by auto
qed

lemma neutral_on_port [neutral]: "(\<And>n. neutral (f n)) \<Longrightarrow> neutral (on_port uart f)"
  by (simp add: neutral_def on_port_def split: option.splits)

lemma neutral_if [neutral]:
  "neutral f \<Longrightarrow> neutral g \<Longrightarrow> neutral (\<lambda>s. if b s then f s else g s)"
  "neutral f \<Longrightarrow> neutral g \<Longrightarrow> neutral (if c then f else g)"
  by (simp_all add: neutral_def)

lemma neutral_await [neutral]: "neutral (await (on_regs env) c)"
  unfolding neutral_def
proof (intro allI impI)
  fix s t
  assume "await (on_regs env) c s = Some t"
  then show "uart_lock t = uart_lock s \<and> (\<forall>l. held l t = held l s)"
    by (rule await_Some_inv [where I = "\<lambda>t. uart_lock t = uart_lock s \<and> (\<forall>l. held l t = held l s)"])
      simp_all
qed

lemma isr_byte_neutral [simp]:
  "uart_lock (isr_byte Q n c s) = uart_lock s" "held l (isr_byte Q n c s) = held l s"
  by (simp_all add: isr_byte_def split: option.splits)

text \<open>The loops, by induction on their unfolding.\<close>

lemma neutral_isr_drain [neutral]: "neutral (isr_drain Q pop n)"
proof -
  have "uart_lock t = uart_lock s \<and> (\<forall>l. held l t = held l s)"
    if "isr_drain Q pop n s = Some t" for s t
  proof (rule isr_drain.raw_induct
      [where P = "\<lambda>Q pop n s t. uart_lock t = uart_lock s \<and> (\<forall>l. held l t = held l s)", OF _ that])
    fix loop Q pop n s t
    assume IH: "\<And>Q pop n s t. loop Q pop n s = Some t
        \<Longrightarrow> uart_lock t = uart_lock s \<and> (\<forall>l. held l t = held l s)"
      and eq: "(if rx_pending n s
        then loop Q pop n (isr_byte Q n (ucast (getf (Uart n ufifo) rw_byte s)) (on_regs (pop n) s))
        else Some s) = Some t"
    show "uart_lock t = uart_lock s \<and> (\<forall>l. held l t = held l s)"
      using eq IH [of Q pop n _ t] by (cases "rx_pending n s") fastforce+
  qed
  then show ?thesis
    by (simp add: neutral_def)
qed

lemma neutral_flush_rx [neutral]: "neutral (flush_rx pop n :: 'q uart_soc \<Rightarrow> 'q uart_soc option)"
proof -
  have "uart_lock t = uart_lock s \<and> (\<forall>l. held l t = held l s)"
    if "flush_rx pop n s = Some t" for s t :: "'q uart_soc"
  proof (rule flush_rx.raw_induct
      [where P = "\<lambda>pop n s t. uart_lock t = uart_lock s \<and> (\<forall>l. held l t = held l s)", OF _ that])
    fix loop pop n s t
    assume IH: "\<And>pop n s t. loop pop n s = Some t
        \<Longrightarrow> uart_lock t = uart_lock s \<and> (\<forall>l. held l t = held l s)"
      and eq: "(if rx_pending n s then loop pop n (on_regs (pop n) s) else Some s) = Some t"
    show "uart_lock t = uart_lock s \<and> (\<forall>l. held l t = held l s)"
      using eq IH [of pop n _ t] by (cases "rx_pending n s") fastforce+
  qed
  then show ?thesis
    by (simp add: neutral_def)
qed

lemma write_burst_neutral:
  "uart_lock (snd (write_burst env n data s)) = uart_lock s"
  "held l (snd (write_burst env n data s)) = held l s"
  by (induction env n data s rule: write_burst.induct) (simp_all add: Let_def)

lemma neutral_write_loop [neutral]:
  "neutral (write_loop env n data :: 'q uart_soc \<Rightarrow> 'q uart_soc option)"
proof -
  have "uart_lock t = uart_lock s \<and> (\<forall>l. held l t = held l s)"
    if "write_loop env n data s = Some t" for s t :: "'q uart_soc"
  proof (rule write_loop.raw_induct
      [where P = "\<lambda>env n data s t. uart_lock t = uart_lock s \<and> (\<forall>l. held l t = held l s)", OF _ that])
    fix loop env n data s t
    assume IH: "\<And>env n data s t. loop env n data s = Some t
        \<Longrightarrow> uart_lock t = uart_lock s \<and> (\<forall>l. held l t = held l s)"
      and eq: "(if data = [] then Some s
        else case write_burst env n data s of (data', s') \<Rightarrow> loop env n data' s') = Some t"
    obtain data' s' where burst: "write_burst env n data s = (data', s')"
      by fastforce
    with write_burst_neutral(1) [of env n data s] write_burst_neutral(2) [of _ env n data s]
    have "uart_lock s' = uart_lock s" "\<forall>l. held l s' = held l s"
      by simp_all
    with eq IH [of env n data' s' t] show "uart_lock t = uart_lock s \<and> (\<forall>l. held l t = held l s)"
      by (cases "data = []") (simp_all add: burst)
  qed
  then show ?thesis
    by (simp add: neutral_def)
qed

lemma neutral_delete_queue [neutral]: "neutral (delete_queue Q n)"
  by (auto simp: neutral_def delete_queue_def held_ext split: option.splits)

section \<open>The operations\<close>

text \<open>Reads and writes of the driver's other variables.\<close>

lemma uart_upd_lock [simp]:
  "uart_lock (s\<lparr>uart_queue := f\<rparr>) = uart_lock s" "uart_lock (s\<lparr>uart_intr := g\<rparr>) = uart_lock s"
  "uart_lock (s\<lparr>uart_debug := d\<rparr>) = uart_lock s" "held l (s\<lparr>uart_debug := d\<rparr>) = held l s"
  by (simp_all add: held_def)

lemma uart_vars_detach [simp]:
  fixes s :: "'q uart_soc"
  shows "uart_lock (pinMatrixOutDetach p i e s) = uart_lock s"
    and "uart_queue (pinMatrixOutDetach p i e s) = uart_queue s"
    and "uart_intr (pinMatrixOutDetach p i e s) = uart_intr s"
    and "uart_lock (pinMatrixInDetach f h i s) = uart_lock s"
    and "uart_queue (pinMatrixInDetach f h i s) = uart_queue s"
    and "uart_intr (pinMatrixInDetach f h i s) = uart_intr s"
  by (rule uart_vars_of_more, simp)+

lemma neutral_uart_ops [neutral]:
  "neutral (isr_port Q pop n)" "neutral (uart_isr Q pop)"
  "neutral (uartEnableInterrupt h n)" "neutral (uartDisableInterrupt n)"
  "neutral (uartDetachRx uart)" "neutral (uartDetachTx uart)"
  "neutral (uartAttachRx desc h uart rx i)" "neutral (uartAttachTx desc uart tx i)"
  "neutral (uartWrite env uart c)" "neutral (uartWriteBuf env uart data)"
  "neutral (uartFlush env pop uart)"
  "neutral (uartEnd Q uart)"
proof -
  show isr: "neutral (isr_port Q pop n)" for n
    unfolding isr_port_def by (rule neutral)+ (auto intro!: neutral)
  show "neutral (uart_isr Q pop)"
    unfolding uart_isr_def by (rule neutral) (auto intro: isr)
  show ena: "neutral (uartEnableInterrupt h n)" for n
    unfolding uartEnableInterrupt_def by (rule neutral) (auto intro!: neutral_stmt simp: held_ext)
  show dis: "neutral (uartDisableInterrupt n)" for n
    unfolding uartDisableInterrupt_def by (rule neutral) (auto intro!: neutral_stmt simp: held_ext)
  show drx: "neutral (uartDetachRx uart)" for uart
    unfolding uartDetachRx_def by (rule neutral)+ (auto intro!: neutral_stmt dis)
  show dtx: "neutral (uartDetachTx uart)" for uart
    unfolding uartDetachTx_def by (rule neutral)+ (auto intro!: neutral_stmt)
  show "neutral (uartAttachRx desc h uart rx i)"
    unfolding uartAttachRx_def by (rule neutral)+ (auto intro!: neutral_stmt ena)
  show "neutral (uartAttachTx desc uart tx i)"
    unfolding uartAttachTx_def by (rule neutral)+ (auto intro!: neutral_stmt)
  show "neutral (uartWrite env uart c)"
    unfolding uartWrite_def by (rule neutral)+ (auto intro!: neutral)
  show "neutral (uartWriteBuf env uart data)"
    unfolding uartWriteBuf_def by (rule neutral)+ (auto intro!: neutral)
  show "neutral (uartFlush env pop uart)"
    unfolding uartFlush_def by (rule neutral)+ (auto intro!: neutral)
  show "neutral (uartEnd Q uart)"
    unfolding uartEnd_def by (rule neutral)+ (auto intro!: neutral drx dtx)
qed

lemma neutral_uartSetBaudRate [neutral]: "neutral (uartSetBaudRate uart baud)"
proof -
  have "neutral (\<lambda>s. if baud = 0 then None else Some s)"
    by (simp add: neutral_def)
  then show ?thesis
    unfolding uartSetBaudRate_def Let_def by (intro neutral_on_port neutral_guarded) (auto intro!: neutral)
qed

lemma uart_power_lock [simp]: "uart_lock (uart_power n s) = uart_lock s"
  by (rule uart_vars_of_more) simp

lemma uart_create_mutexes:
  assumes "uart_create Q mutex_ok queue_ok n len s = (t, ok)"
  shows "held l t = held l s" "uart_lock s m \<Longrightarrow> uart_lock t m"
  using assms by (auto simp: uart_create_def Let_def split: if_splits)

lemma uartBegin_mutexes:
  assumes "uartBegin Q env pop desc mutex_ok queue_ok h n baud config rx tx len i s = Some (uart, t)"
  shows "held l t = held l s \<and> (uart_lock s m \<longrightarrow> uart_lock t m)"
proof (cases "2 < n \<or> rx = - 1 \<and> tx = - 1")
  case False
  obtain u ok where create: "uart_create Q mutex_ok queue_ok n len s = (u, ok)"
    by fastforce
  show ?thesis
  proof (cases ok)
    case True
    let ?steps = "[stmt (uart_power n), uartFlush env pop (Some n), uartSetBaudRate (Some n) baud,
      uart_guarded n [stmt (uart_frame n config)],
      if rx \<noteq> - 1 then uartAttachRx desc h (Some n) rx i else Some,
      if tx \<noteq> - 1 then uartAttachTx desc (Some n) tx i else Some]"
    have neutral: "neutral (run ?steps)"
      by (rule neutral_run) (auto intro!: neutral)
    have run: "run ?steps u = Some t"
      using assms False True by (auto simp: uartBegin_def create Let_def split: if_splits)
    show ?thesis
      using uart_create_mutexes [OF create] neutralD(1) [OF neutral run] neutralD(2) [OF neutral run]
      by simp
  qed (use assms False uart_create_mutexes [OF create] in \<open>auto simp: uartBegin_def create split: if_splits\<close>)
qed (use assms in \<open>auto simp: uartBegin_def split: if_splits\<close>)

lemma uartResizeRxBuffer_mutexes:
  assumes "uartResizeRxBuffer Q True uart len s = Some (v, t)"
  shows "held l t = held l s \<and> uart_lock t = uart_lock s"
  using assms neutralD [OF neutral_delete_queue [of Q]]
  by (fastforce simp: uartResizeRxBuffer_def uart_take_def uart_give_def
      split: option.splits if_splits)

lemma log_printf_mutexes:
  assumes "log_printf p text s = Some (k, t)"
  shows "held l t = held l s \<and> uart_lock t = uart_lock s"
  using assms
  by (auto simp: log_printf_def Let_def uart_guarded_eq held_ext split: if_splits)

lemma uartRead_mutexes: "uartRead Q uart s = (c, t) \<Longrightarrow> held l t = held l s \<and> uart_lock t = uart_lock s"
  by (auto simp: uartRead_def split: option.splits)

lemma uartSetDebug_mutexes: "held l (uartSetDebug uart s) = held l s \<and> uart_lock (uartSetDebug uart s) = uart_lock s"
  by (simp add: uartSetDebug_def held_ext split: option.splits)

lemma neutral_uart_write_char [neutral]: "neutral (uart_write_char env n c)"
  unfolding uart_write_char_def by (rule neutral_run) (auto intro!: neutral)

section \<open>Sessions\<close>

inductive uart_call :: "'q uart_soc \<Rightarrow> 'q uart_soc \<Rightarrow> bool" where
  isr: "uart_isr Q pop s = Some t \<Longrightarrow> uart_call s t"
| enable: "uartEnableInterrupt h n s = Some t \<Longrightarrow> uart_call s t"
| disable: "uartDisableInterrupt n s = Some t \<Longrightarrow> uart_call s t"
| detach_rx: "uartDetachRx uart s = Some t \<Longrightarrow> uart_call s t"
| detach_tx: "uartDetachTx uart s = Some t \<Longrightarrow> uart_call s t"
| attach_rx: "uartAttachRx desc h uart rx i s = Some t \<Longrightarrow> uart_call s t"
| attach_tx: "uartAttachTx desc uart tx i s = Some t \<Longrightarrow> uart_call s t"
| start: "uartBegin Q env pop desc mutex_ok queue_ok h n baud config rx tx len i s = Some (uart, t)
    \<Longrightarrow> uart_call s t"
| stop: "uartEnd Q uart s = Some t \<Longrightarrow> uart_call s t"
| resize: "uartResizeRxBuffer Q True uart len s = Some (v, t) \<Longrightarrow> uart_call s t"
| read: "uartRead Q uart s = (c, t) \<Longrightarrow> uart_call s t"
| send: "uartWrite env uart c s = Some t \<Longrightarrow> uart_call s t"
| send_all: "uartWriteBuf env uart data s = Some t \<Longrightarrow> uart_call s t"
| flush: "uartFlush env pop uart s = Some t \<Longrightarrow> uart_call s t"
| baud: "uartSetBaudRate uart rate s = Some t \<Longrightarrow> uart_call s t"
| putc: "uart_write_char env n c s = Some t \<Longrightarrow> uart_call s t"
| debug: "uart_call s (uartSetDebug uart s)"
| log: "log_printf p text s = Some (k, t) \<Longrightarrow> uart_call s t"

lemma neutral_call:
  "neutral f \<Longrightarrow> f s = Some t \<Longrightarrow> held l t = held l s \<and> (uart_lock s m \<longrightarrow> uart_lock t m)"
  by (simp add: neutralD)

lemma uart_call_mutexes:
  "uart_call s t \<Longrightarrow> held l t = held l s \<and> (uart_lock s m \<longrightarrow> uart_lock t m)"
  by (induction rule: uart_call.induct)
    ((erule neutral_call [rotated], rule neutral) | erule uartBegin_mutexes
      | simp add: uartResizeRxBuffer_mutexes | simp add: uartRead_mutexes
      | simp add: uartSetDebug_mutexes | simp add: log_printf_mutexes)+

text \<open>
  C9: after any session of calls and interrupts of the serial driver, from boot on, with any hardware
  and any outcome of the allocators except a failing resize, every mutex is free again, and a mutex
  once created stays created.
\<close>

theorem uart_session_mutexes:
  assumes "uart_call\<^sup>*\<^sup>* s t"
  shows "held l t = held l s \<and> (uart_lock s n \<longrightarrow> uart_lock t n)"
  using assms
proof (induction rule: rtranclp_induct)
  case (step t u)
  then show ?case
    using uart_call_mutexes [of t u l n] by simp
qed simp

theorem uart_session_mutexes_witness:
  "\<exists>t. uart_call\<^sup>*\<^sup>* uart_ex t \<and> uart_queue t 1 = None \<and> uart_intr t 1 = NULL
     \<and> held (UartLock 1) t = 0"
proof -
  have "uart_lock uart_ex 1" "uart_queue uart_ex 1 = Some ([], 2)"
    by (simp_all add: uart_ex_def)
  moreover have "drain_queue list_queue ([], 2) = Some ([], 2)"
    by (subst drain_queue.simps) (simp add: list_queue_def)
  ultimately obtain t where t: "uartEnd list_queue (Some 1) uart_ex = Some t"
      "uart_queue t 1 = None" "uart_intr t 1 = NULL"
    by (simp add: uartEnd_def on_port_def uart_guarded_eq delete_queue_def uartDetachRx_def
        uartDetachTx_def uartDisableInterrupt_def)
  then have "uart_call\<^sup>*\<^sup>* uart_ex t"
    by (intro r_into_rtranclp stop)
  moreover from uart_session_mutexes [OF this, of "UartLock 1" 1] have "held (UartLock 1) t = 0"
    by (simp add: uart_ex_def held_def)
  ultimately show ?thesis
    using t by blast
qed

end
