(* ===== verification/Rmt.thy ===== *)
theory Rmt
  imports Complex_Main Gpio CMem Mutex
begin

text \<open>
  The remote control peripheral driver \<^verbatim>\<open>esp32-hal-rmt.c\<close>: eight channels whose item memory is handed
  out in blocks, transmission in one go or streamed by interrupts that refill one half of the memory
  while the other is sent, and reception into a caller's or an own buffer. A handle is \<^verbatim>\<open>NULL\<close> or an
  entry of \<^verbatim>\<open>g_rmt_objects\<close>.

  Buffers are addresses in \<open>rmt_ram\<close>. What allocators and event groups return are parameters. A mutex
  is absent, live or deleted (\<^verbatim>\<open>rmtDeinit\<close> deletes it and keeps the handle); using one that is not live
  is undefined, the outcome \<open>None\<close>, as is an index past the channels. Log messages are left out.
\<close>

section \<open>State and registers\<close>

datatype sem = NoSem | LiveSem | DeadSem

record rmt_obj =
  ro_allocated :: bool
  ro_events :: ptr
  ro_pin :: nat
  ro_channel :: nat
  ro_tx_not_rx :: bool
  ro_buffers :: nat
  ro_data_size :: nat
  ro_data_ptr :: nat
  ro_intr_mode :: u32
  ro_tx_state :: u32
  ro_cb :: ptr
  ro_data_alloc :: bool

record rmt_soc = soc +
  rmt_objlocks :: "nat \<Rightarrow> sem"
  rmt_objects :: "rmt_obj list"
  rmt_intr_handle :: ptr
  rmt_periph_enabled :: bool
  rmt_block_lock :: bool
  rmt_ram :: mem

type_synonym rmt_t = "nat option"

definition MAX_CHANNELS :: nat where "MAX_CHANNELS = 8"
definition MAX_DATA_PER_CHANNEL :: nat where "MAX_DATA_PER_CHANNEL = 64"
definition MAX_DATA_PER_ITTERATION :: nat where "MAX_DATA_PER_ITTERATION = 62"

definition INT_TX_END :: "nat \<Rightarrow> u32" where "INT_TX_END ch = push_bit (ch * 3) 1"
definition INT_RX_END :: "nat \<Rightarrow> u32" where "INT_RX_END ch = push_bit (ch * 3) 2"
definition INT_ERROR :: "nat \<Rightarrow> u32" where "INT_ERROR ch = push_bit (ch * 3) 4"
definition INT_THR_EVNT :: "nat \<Rightarrow> u32" where "INT_THR_EVNT ch = push_bit ch (push_bit 24 1)"

definition E_NO_INTR :: u32 where "E_NO_INTR = 0"
definition E_TX_INTR :: u32 where "E_TX_INTR = 1"
definition E_TXTHR_INTR :: u32 where "E_TXTHR_INTR = 2"
definition E_RX_INTR :: u32 where "E_RX_INTR = 4"

definition E_INACTIVE :: u32 where "E_INACTIVE = 0"
definition E_FIRST_HALF :: u32 where "E_FIRST_HALF = 1"
definition E_LAST_DATA :: u32 where "E_LAST_DATA = 2"
definition E_END_TRANS :: u32 where "E_END_TRANS = 4"
definition E_SET_CONTI :: u32 where "E_SET_CONTI = 8"

definition RMT_FLAG_RX_DONE :: u32 where "RMT_FLAG_RX_DONE = 2"
definition RMT_FLAG_ERROR :: u32 where "RMT_FLAG_ERROR = 4"
definition RMT_FLAGS_ALL :: u32 where "RMT_FLAGS_ALL = 7"
definition RMT_SIG_IN0_IDX :: nat where "RMT_SIG_IN0_IDX = 83"
definition RMT_SIG_OUT0_IDX :: nat where "RMT_SIG_OUT0_IDX = 87"
definition ETS_RMT_INTR_SOURCE :: nat where "ETS_RMT_INTR_SOURCE = 47"
definition PERIPH_RMT_MODULE :: nat where "PERIPH_RMT_MODULE = 16"

lemmas rmt_maxima = MAX_CHANNELS_def MAX_DATA_PER_CHANNEL_def MAX_DATA_PER_ITTERATION_def
lemmas rmt_ints = INT_TX_END_def INT_RX_END_def INT_ERROR_def INT_THR_EVNT_def
lemmas rmt_states =
  E_NO_INTR_def E_TX_INTR_def E_TXTHR_INTR_def E_RX_INTR_def E_INACTIVE_def E_FIRST_HALF_def
  E_LAST_DATA_def E_END_TRANS_def E_SET_CONTI_def

definition div_cnt :: bfield where "div_cnt = (0, 8)"
definition idle_thres :: bfield where "idle_thres = (8, 16)"
definition mem_size :: bfield where "mem_size = (24, 4)"
definition carrier_en :: bfield where "carrier_en = (28, 1)"
definition carrier_out_lv :: bfield where "carrier_out_lv = (29, 1)"
definition mem_pd :: bfield where "mem_pd = (30, 1)"
definition tx_start :: bfield where "tx_start = (0, 1)"
definition rx_en :: bfield where "rx_en = (1, 1)"
definition mem_wr_rst :: bfield where "mem_wr_rst = (2, 1)"
definition mem_rd_rst :: bfield where "mem_rd_rst = (3, 1)"
definition apb_mem_rst :: bfield where "apb_mem_rst = (4, 1)"
definition mem_owner :: bfield where "mem_owner = (5, 1)"
definition tx_conti_mode :: bfield where "tx_conti_mode = (6, 1)"
definition rx_filter_en :: bfield where "rx_filter_en = (7, 1)"
definition rx_filter_thres :: bfield where "rx_filter_thres = (8, 8)"
definition ref_cnt_rst :: bfield where "ref_cnt_rst = (16, 1)"
definition ref_always_on :: bfield where "ref_always_on = (17, 1)"
definition idle_out_lv :: bfield where "idle_out_lv = (18, 1)"
definition idle_out_en :: bfield where "idle_out_en = (19, 1)"
definition carrier_low :: bfield where "carrier_low = (0, 16)"
definition carrier_high :: bfield where "carrier_high = (16, 16)"
definition tx_limit :: bfield where "tx_limit = (0, 9)"
definition fifo_mask :: bfield where "fifo_mask = (0, 1)"
definition duration0 :: bfield where "duration0 = (0, 15)"
definition duration1 :: bfield where "duration1 = (16, 15)"

lemmas rmt_fields =
  div_cnt_def idle_thres_def mem_size_def carrier_en_def carrier_out_lv_def mem_pd_def tx_start_def
  rx_en_def mem_wr_rst_def mem_rd_rst_def apb_mem_rst_def mem_owner_def tx_conti_mode_def
  rx_filter_en_def rx_filter_thres_def ref_cnt_rst_def ref_always_on_def idle_out_lv_def
  idle_out_en_def carrier_low_def carrier_high_def tx_limit_def fifo_mask_def duration0_def
  duration1_def

definition rmt_obj_init :: rmt_obj where
  "rmt_obj_init =
     \<lparr>ro_allocated = False, ro_events = NULL, ro_pin = 0, ro_channel = 0, ro_tx_not_rx = False,
      ro_buffers = 0, ro_data_size = 0, ro_data_ptr = NULL, ro_intr_mode = E_NO_INTR,
      ro_tx_state = E_INACTIVE, ro_cb = NULL, ro_data_alloc = False\<rparr>"

definition rmt_boot :: "mem \<Rightarrow> soc \<Rightarrow> rmt_soc" where
  "rmt_boot m s = soc.extend s
     \<lparr>rmt_objlocks = (\<lambda>_. NoSem), rmt_objects = replicate MAX_CHANNELS rmt_obj_init,
      rmt_intr_handle = NULL, rmt_periph_enabled = False, rmt_block_lock = False, rmt_ram = m\<rparr>"

definition robj :: "nat \<Rightarrow> rmt_soc \<Rightarrow> rmt_obj" where
  "robj ch s = rmt_objects s ! ch"

definition upd_obj :: "nat \<Rightarrow> (rmt_obj \<Rightarrow> rmt_obj) \<Rightarrow> rmt_soc \<Rightarrow> rmt_soc" where
  "upd_obj ch f s = s\<lparr>rmt_objects := (rmt_objects s)[ch := f (rmt_objects s ! ch)]\<rparr>"

text \<open>\<^verbatim>\<open>RMTMEM.chan[ch].data32[i]\<close>; an index past the channel's 64 items is the next channel's memory.\<close>

definition rmt_item :: "nat \<Rightarrow> nat \<Rightarrow> reg" where
  "rmt_item ch i = RmtMem (MAX_DATA_PER_CHANNEL * ch + i)"

definition data32 :: "nat \<Rightarrow> nat \<Rightarrow> rmt_soc \<Rightarrow> u32" where
  "data32 p i s = load32 (rmt_ram s) (p + 4 * i)"

definition rmt_take :: "nat \<Rightarrow> rmt_soc \<Rightarrow> rmt_soc option" where
  "rmt_take ch s = (if rmt_objlocks s ch = LiveSem then Some (ext (SemTake (RmtLock ch)) s) else None)"

definition rmt_give :: "nat \<Rightarrow> rmt_soc \<Rightarrow> rmt_soc option" where
  "rmt_give ch s = (if rmt_objlocks s ch = LiveSem then Some (ext (SemGive (RmtLock ch)) s) else None)"

definition rmt_guarded :: "nat \<Rightarrow> (rmt_soc \<Rightarrow> rmt_soc) list \<Rightarrow> rmt_soc \<Rightarrow> rmt_soc option" where
  "rmt_guarded ch body = guarded (rmt_take ch) (rmt_give ch) (map stmt body)"

text \<open>\<open>on_rmt rmt ok f\<close>: false for a NULL handle or a failed check, else true after \<open>f\<close> on its channel.\<close>

definition on_rmt ::
  "rmt_t \<Rightarrow> bool \<Rightarrow> (nat \<Rightarrow> nat \<Rightarrow> rmt_soc \<Rightarrow> rmt_soc option) \<Rightarrow> rmt_soc \<Rightarrow> (bool \<times> rmt_soc) option" where
  "on_rmt rmt bad f s =
     (case rmt of
        None \<Rightarrow> Some (False, s)
      | Some k \<Rightarrow>
          if bad then Some (False, s) else map_option (Pair True) (f k (ro_channel (robj k s)) s))"

section \<open>Configuration\<close>

text \<open>The second store to \<open>low\<close> is the code's.\<close>

definition rmtSetCarrier ::
  "rmt_t \<Rightarrow> bool \<Rightarrow> bool \<Rightarrow> u32 \<Rightarrow> u32 \<Rightarrow> rmt_soc \<Rightarrow> (bool \<times> rmt_soc) option" where
  "rmtSetCarrier rmt en level low high =
     on_rmt rmt (0xFFFF < low \<or> 0xFFFF < high) (\<lambda>k channel. rmt_guarded channel
       [setf (Rmt (rcarrier channel)) carrier_low low,
        setf (Rmt (rcarrier channel)) carrier_low high,
        setf (Rmt (rconf0 channel)) carrier_en (of_flag en),
        setf (Rmt (rconf0 channel)) carrier_out_lv (of_flag level)])"

definition rmtSetFilter :: "rmt_t \<Rightarrow> bool \<Rightarrow> u32 \<Rightarrow> rmt_soc \<Rightarrow> (bool \<times> rmt_soc) option" where
  "rmtSetFilter rmt filter_en filter_level =
     on_rmt rmt (0xFF < filter_level) (\<lambda>k channel. rmt_guarded channel
       [setf (Rmt (rconf1 channel)) rx_filter_thres filter_level,
        setf (Rmt (rconf1 channel)) rx_filter_en (of_flag filter_en)])"

definition rmtSetRxThreshold :: "rmt_t \<Rightarrow> u32 \<Rightarrow> rmt_soc \<Rightarrow> (bool \<times> rmt_soc) option" where
  "rmtSetRxThreshold rmt v =
     on_rmt rmt (0xFFFF < v) (\<lambda>k channel. rmt_guarded channel
       [setf (Rmt (rconf0 channel)) idle_thres v])"

section \<open>Sending\<close>

text \<open>\<open>data = 0\<close> is NULL: then nothing is copied and what the item memory holds is sent.\<close>

definition put_items :: "nat \<Rightarrow> nat \<Rightarrow> nat \<Rightarrow> rmt_soc \<Rightarrow> rmt_soc" where
  "put_items channel data len s =
     exec (map (\<lambda>i s. wr (rmt_item channel i) (data32 data i s) s) [0..<len]
           @ [wr (rmt_item channel len) 0]) s"

definition rmtSendOnce :: "rmt_t \<Rightarrow> nat \<Rightarrow> nat \<Rightarrow> rmt_soc \<Rightarrow> (bool \<times> rmt_soc) option" where
  "rmtSendOnce rmt data len =
     on_rmt rmt False (\<lambda>k channel. run
       [stmt (setf (Rmt rapb_conf) fifo_mask 1),
        stmt (if data \<noteq> NULL \<and> 0 < len then put_items channel data len else (\<lambda>s. s)),
        rmt_guarded channel
          [setf (Rmt (rconf1 channel)) mem_rd_rst 1,
           setf (Rmt (rconf1 channel)) tx_start 1]])"

definition rmt_install :: "ptr \<Rightarrow> rmt_soc \<Rightarrow> rmt_soc" where
  "rmt_install h s =
     (if rmt_intr_handle s = NULL
      then ext (IntrAlloc ETS_RMT_INTR_SOURCE) (s\<lparr>rmt_intr_handle := h\<rparr>) else s)"

definition int_enable :: "u32 \<Rightarrow> 'a soc_scheme \<Rightarrow> 'a soc_scheme" where
  "int_enable m = set_peri_reg_mask (Rmt rint_ena) m"

definition int_disable :: "u32 \<Rightarrow> 'a soc_scheme \<Rightarrow> 'a soc_scheme" where
  "int_disable m = clear_peri_reg_mask (Rmt rint_ena) m"

definition int_clear :: "u32 \<Rightarrow> 'a soc_scheme \<Rightarrow> 'a soc_scheme" where
  "int_clear m = wr (Rmt rint_clr) m"

text \<open>The set-up of a streamed transmission: the first 62 items go out now, the rest by interrupts.\<close>

definition stream_setup :: "ptr \<Rightarrow> nat \<Rightarrow> nat \<Rightarrow> nat \<Rightarrow> nat \<Rightarrow> (rmt_soc \<Rightarrow> rmt_soc) list" where
  "stream_setup h k channel data len =
     [rmt_install h,
      upd_obj k (\<lambda>r. r\<lparr>ro_data_size := len - MAX_DATA_PER_ITTERATION,
                        ro_data_ptr := data + 4 * MAX_DATA_PER_ITTERATION,
                        ro_intr_mode := E_TX_INTR OR E_TXTHR_INTR,
                        ro_tx_state := E_SET_CONTI OR E_FIRST_HALF\<rparr>),
      setf (Rmt (rtx_lim channel)) tx_limit (of_nat (MAX_DATA_PER_ITTERATION div 2 + 2)),
      setf (Rmt (rconf1 channel)) apb_mem_rst 1,
      setf (Rmt (rconf1 channel)) apb_mem_rst 0,
      setf (Rmt (rconf1 channel)) mem_rd_rst 1,
      setf (Rmt (rconf1 channel)) mem_rd_rst 0,
      setf (Rmt (rconf1 channel)) mem_wr_rst 1,
      setf (Rmt (rconf1 channel)) mem_wr_rst 0,
      wr (rmt_item channel MAX_DATA_PER_ITTERATION) 0,
      int_clear (INT_TX_END channel),
      int_clear (INT_THR_EVNT channel),
      int_clear (INT_ERROR channel),
      int_enable (INT_TX_END channel),
      int_enable (INT_THR_EVNT channel),
      int_enable (INT_ERROR channel)]"

definition rmtWrite :: "ptr \<Rightarrow> rmt_t \<Rightarrow> nat \<Rightarrow> nat \<Rightarrow> rmt_soc \<Rightarrow> (bool \<times> rmt_soc) option" where
  "rmtWrite h rmt data len s =
     (case rmt of
        None \<Rightarrow> Some (False, s)
      | Some k \<Rightarrow>
          let channel = ro_channel (robj k s);
              allocated_size = MAX_DATA_PER_CHANNEL * ro_buffers (robj k s)
          in if allocated_size < len then
               (case rmt_guarded channel (stream_setup h k channel data len) s of
                  None \<Rightarrow> None
                | Some s \<Rightarrow> rmtSendOnce rmt data MAX_DATA_PER_ITTERATION s)
             else rmtSendOnce rmt data len s)"

section \<open>Receiving\<close>

definition rmtReadData :: "rmt_t \<Rightarrow> nat \<Rightarrow> nat \<Rightarrow> rmt_soc \<Rightarrow> bool \<times> rmt_soc" where
  "rmtReadData rmt data len s =
     (case rmt of
        None \<Rightarrow> (False, s)
      | Some k \<Rightarrow>
          let channel = ro_channel (robj k s) in
          if ro_buffers (robj channel s) < len div MAX_DATA_PER_CHANNEL then (False, s)
          else (True, fold (\<lambda>i s. s\<lparr>rmt_ram := store32 (data + 4 * i) (rd (rmt_item channel i) s) (rmt_ram s)\<rparr>)
                  [0..<len] s))"

definition rx_arm :: "nat \<Rightarrow> (rmt_soc \<Rightarrow> rmt_soc) list" where
  "rx_arm channel =
     [setf (Rmt (rconf1 channel)) mem_owner 1,
      int_clear (INT_RX_END channel),
      int_clear (INT_ERROR channel),
      int_enable (INT_RX_END channel),
      int_enable (INT_ERROR channel),
      setf (Rmt (rconf1 channel)) mem_wr_rst 1,
      setf (Rmt (rconf1 channel)) rx_en 1]"

definition rmtBeginReceive :: "rmt_t \<Rightarrow> rmt_soc \<Rightarrow> (bool \<times> rmt_soc) option" where
  "rmtBeginReceive rmt = on_rmt rmt False (\<lambda>k channel. stmt (exec
     [int_clear (INT_ERROR channel),
      int_enable (INT_ERROR channel),
      setf (Rmt (rconf1 channel)) mem_owner 1,
      setf (Rmt (rconf1 channel)) mem_wr_rst 1,
      setf (Rmt (rconf1 channel)) rx_en 1]))"

definition rmtReceiveCompleted :: "rmt_t \<Rightarrow> rmt_soc \<Rightarrow> bool \<times> rmt_soc" where
  "rmtReceiveCompleted rmt s =
     (case rmt of
        None \<Rightarrow> (False, s)
      | Some k \<Rightarrow>
          let channel = ro_channel (robj k s) in
          if rd (Rmt rint_raw) s AND INT_RX_END channel \<noteq> 0
          then (True, int_clear (INT_RX_END channel) s) else (False, s))"

text \<open>
  \<open>p\<close> is the block \<^verbatim>\<open>malloc\<close> returns. Only a NULL handle with a NULL callback is refused; a NULL
  handle with a callback is dereferenced: \<open>None\<close>.
\<close>

definition rmt_own_buffer :: "ptr \<Rightarrow> nat \<Rightarrow> rmt_soc \<Rightarrow> rmt_soc" where
  "rmt_own_buffer p k s =
     (if ro_data_alloc (robj k s) then s
      else
        let n = MAX_DATA_PER_CHANNEL * ro_buffers (robj k s) in
        upd_obj k (\<lambda>r. r\<lparr>ro_data_ptr := p, ro_data_size := n, ro_data_alloc := True\<rparr>)
          (ext (MallocMem (2 * n * 4) p) s))"

definition rmtRead :: "ptr \<Rightarrow> rmt_t \<Rightarrow> ptr \<Rightarrow> rmt_soc \<Rightarrow> (bool \<times> rmt_soc) option" where
  "rmtRead p rmt cb s =
     (case rmt of
        None \<Rightarrow> if cb = NULL then Some (False, s) else None
      | Some k \<Rightarrow>
          let channel = ro_channel (robj k s) in
          map_option (Pair True)
            (rmt_guarded channel
               ([upd_obj k (\<lambda>r. r\<lparr>ro_intr_mode := E_RX_INTR, ro_tx_state := E_FIRST_HALF, ro_cb := cb\<rparr>),
                 rmt_own_buffer p k] @ rx_arm channel) s))"

text \<open>\<open>flags\<close> is what \<^verbatim>\<open>xEventGroupWaitBits\<close> returns.\<close>

definition rmtReadAsync ::
  "u32 \<Rightarrow> rmt_t \<Rightarrow> nat \<Rightarrow> nat \<Rightarrow> ptr \<Rightarrow> bool \<Rightarrow> rmt_soc \<Rightarrow> (bool \<times> rmt_soc) option" where
  "rmtReadAsync flags rmt data len eventFlag waitForData s =
     (case rmt of
        None \<Rightarrow> Some (False, s)
      | Some k \<Rightarrow>
          let channel = ro_channel (robj k s) in
          if ro_buffers (robj channel s) < len div MAX_DATA_PER_CHANNEL then Some (False, s)
          else
            let s = (if eventFlag \<noteq> NULL
                     then upd_obj k (\<lambda>r. r\<lparr>ro_events := eventFlag\<rparr>) (ext (EventClear eventFlag RMT_FLAGS_ALL) s)
                     else s);
                s = (if data \<noteq> NULL \<and> 0 < len
                     then upd_obj k (\<lambda>r. r\<lparr>ro_data_ptr := data, ro_data_size := len\<rparr>) s else s)
            in map_option
                 (Pair (\<not> (waitForData \<and> eventFlag \<noteq> NULL \<and> flags AND RMT_FLAG_ERROR \<noteq> 0)))
                 (rmt_guarded channel (upd_obj k (\<lambda>r. r\<lparr>ro_intr_mode := E_RX_INTR\<rparr>) # rx_arm channel) s))"

section \<open>Channels and their memory\<close>

text \<open>
  \<open>free_run\<close> is the inner loop of the search: it stops at the first occupied channel of the block or
  after it. \<open>find_block\<close> is the outer loop with its counter moved by the inner one; \<open>(i, j)\<close> are the
  counters it leaves.
\<close>

function free_run :: "(nat \<Rightarrow> bool) \<Rightarrow> nat \<Rightarrow> nat \<Rightarrow> nat \<Rightarrow> bool \<times> nat" where
  "free_run occ buffers i j =
     (if j < buffers \<and> i + j < MAX_CHANNELS
      then if occ (i + j) then (True, j) else free_run occ buffers i (j + 1)
      else (False, j))"
  by auto
termination
  by (relation "measure (\<lambda>(occ, buffers, i, j). buffers - j)") auto

function find_block :: "(nat \<Rightarrow> bool) \<Rightarrow> nat \<Rightarrow> nat \<Rightarrow> nat \<Rightarrow> nat \<times> nat" where
  "find_block occ buffers i j =
     (if i < MAX_CHANNELS then
        (case free_run occ buffers i 0 of
           (True, j) \<Rightarrow> if j = buffers then (i + j, j) else find_block occ buffers (i + j + 1) j
         | (False, j) \<Rightarrow> if j = buffers then (i, j) else find_block occ buffers (i + 1) j)
      else (i, j))"
  by auto
termination
  by (relation "measure (\<lambda>(occ, buffers, i, j). MAX_CHANNELS - i)") auto

declare free_run.simps [simp del] find_block.simps [simp del]

definition rmtAllocate :: "nat \<Rightarrow> nat \<Rightarrow> rmt_soc \<Rightarrow> rmt_soc" where
  "rmtAllocate from len s =
     fold (\<lambda>i. upd_obj (i + from) (\<lambda>r. r\<lparr>ro_allocated := True\<rparr>)) [0..<len]
       (upd_obj from (\<lambda>r. r\<lparr>ro_buffers := len\<rparr>) s)"

definition initPin :: "(nat \<Rightarrow> rtc_gpio_desc_t) \<Rightarrow> nat \<Rightarrow> nat \<Rightarrow> bool \<Rightarrow> rmt_soc \<Rightarrow> rmt_soc" where
  "initPin desc pin channel tx_not_rx s =
     (let s = (if \<not> rmt_periph_enabled s
               then ext (PeriphEnable PERIPH_RMT_MODULE) (s\<lparr>rmt_periph_enabled := True\<rparr>) else s)
      in if tx_not_rx
         then exec [pinMode desc pin OUTPUT,
                    pinMatrixOutAttach (of_nat pin) (of_nat (RMT_SIG_OUT0_IDX + channel)) False False] s
         else exec [pinMode desc pin INPUT,
                    pinMatrixInAttach (of_nat pin) (of_nat (RMT_SIG_IN0_IDX + channel)) False] s)"

definition channel_defaults :: "nat \<Rightarrow> nat \<Rightarrow> bool \<Rightarrow> (rmt_soc \<Rightarrow> rmt_soc) list" where
  "channel_defaults channel buffers tx_not_rx =
     [setf (Rmt (rconf0 channel)) div_cnt 1,
      setf (Rmt (rconf0 channel)) mem_size (of_nat buffers),
      setf (Rmt (rconf0 channel)) carrier_en 0,
      setf (Rmt (rconf0 channel)) carrier_out_lv 0,
      setf (Rmt (rconf0 channel)) mem_pd 0,
      setf (Rmt (rconf0 channel)) idle_thres 0x80,
      setf (Rmt (rconf1 channel)) rx_en 0,
      setf (Rmt (rconf1 channel)) tx_conti_mode 0,
      setf (Rmt (rconf1 channel)) ref_cnt_rst 0,
      setf (Rmt (rconf1 channel)) rx_filter_en 0,
      setf (Rmt (rconf1 channel)) rx_filter_thres 0,
      setf (Rmt (rconf1 channel)) idle_out_lv 0,
      setf (Rmt (rconf1 channel)) idle_out_en 1,
      setf (Rmt (rconf1 channel)) ref_always_on 0,
      setf (Rmt rapb_conf) fifo_mask 1]
     @ (if tx_not_rx
        then [setf (Rmt (rconf1 channel)) mem_owner 0, setf (Rmt (rconf1 channel)) mem_rd_rst 1]
        else [setf (Rmt (rconf1 channel)) mem_owner 1, setf (Rmt (rconf1 channel)) mem_wr_rst 1])"

text \<open>\<open>block_ok\<close> and \<open>mutex_ok\<close>: the allocation mutex and the channel's mutex can be created.\<close>

definition rmtInit ::
  "(nat \<Rightarrow> rtc_gpio_desc_t) \<Rightarrow> bool \<Rightarrow> bool \<Rightarrow> ptr \<Rightarrow> nat \<Rightarrow> bool \<Rightarrow> nat \<Rightarrow> rmt_soc
     \<Rightarrow> (rmt_t \<times> rmt_soc) option" where
  "rmtInit desc block_ok mutex_ok h pin tx_not_rx buffers s =
     (if \<not> rmt_block_lock s \<and> \<not> block_ok then None
      else
        let s = ext (SemTake RmtBlockLock) (s\<lparr>rmt_block_lock := True\<rparr>) in
        case find_block (\<lambda>c. ro_allocated (robj c s)) buffers 0 0 of
          (i, j) \<Rightarrow>
            if i = MAX_CHANNELS \<or> MAX_CHANNELS \<le> i + j \<or> j \<noteq> buffers
            then Some (None, ext (SemGive RmtBlockLock) s)
            else
              let s = ext (SemGive RmtBlockLock) (rmtAllocate i buffers s); channel = i in
              if rmt_objlocks s channel = NoSem \<and> \<not> mutex_ok then Some (None, s)
              else
                let s = (if rmt_objlocks s channel = NoSem
                         then s\<lparr>rmt_objlocks := (rmt_objlocks s)(channel := LiveSem)\<rparr> else s)
                in map_option (Pair (Some i))
                     (rmt_guarded channel
                        ([upd_obj i (\<lambda>r. r\<lparr>ro_pin := pin, ro_tx_not_rx := tx_not_rx,
                                            ro_buffers := buffers, ro_channel := channel\<rparr>),
                          initPin desc pin channel tx_not_rx]
                         @ channel_defaults channel buffers tx_not_rx
                         @ [rmt_install h]) s))"

definition rmtDeinit :: "rmt_t \<Rightarrow> rmt_soc \<Rightarrow> (bool \<times> rmt_soc) option" where
  "rmtDeinit rmt s =
     (case rmt of
        None \<Rightarrow> Some (False, s)
      | Some k \<Rightarrow>
          if k \<noteq> ro_channel (robj k s) then Some (False, s)
          else if rmt_objlocks s k = DeadSem then None
          else
            let to = ro_buffers (robj k s) + k;
                s = (if rmt_objlocks s k \<noteq> NoSem
                     then ext (SemDelete (RmtLock k)) (s\<lparr>rmt_objlocks := (rmt_objlocks s)(k := DeadSem)\<rparr>)
                     else s);
                s = (if ro_data_alloc (robj k s) then ext (FreeMem (ro_data_ptr (robj k s))) s else s);
                s = fold (\<lambda>i. upd_obj i (\<lambda>r. r\<lparr>ro_allocated := False\<rparr>)) [k..<to] s
            in Some (True, upd_obj k (\<lambda>r. r\<lparr>ro_channel := 0, ro_buffers := 0\<rparr>) s))"

section \<open>The time base\<close>

text \<open>
  Ticks are nanoseconds, as exact rationals. The products and quotients the code forms in floating
  point are exact for a tick whose divider is below its limit, and beyond the limit both sides of the
  comparison only lose digits that do not decide it. \<open>ABS\<close> is the macro \<^verbatim>\<open>_ABS\<close> on a difference: its
  argument is not parenthesised, so the minus sign applies to the first operand only.
\<close>

definition C_trunc :: "rat \<Rightarrow> int" where
  "C_trunc x = (if x < 0 then - \<lfloor>- x\<rfloor> else \<lfloor>x\<rfloor>)"

definition LIMIT :: "rat \<Rightarrow> rat \<Rightarrow> rat" where
  "LIMIT a b = (if b < a then b else a)"

definition ABS_diff :: "rat \<Rightarrow> rat \<Rightarrow> rat" where
  "ABS_diff x y = (if 0 < x - y then x - y else - x - y)"

definition rmtSetTick :: "rmt_t \<Rightarrow> rat \<Rightarrow> rmt_soc \<Rightarrow> rat \<times> rmt_soc" where
  "rmtSetTick rmt tick s =
     (case rmt of
        None \<Rightarrow> (0, s)
      | Some k \<Rightarrow>
          let apb_div = C_trunc (LIMIT (tick / (25 / 2)) 256);
              ref_div = C_trunc (LIMIT (tick / 1000) 256);
              apb_tick = 25 / 2 * of_int apb_div;
              ref_tick = 1000 * of_int ref_div;
              channel = ro_channel (robj k s)
          in if ABS_diff apb_tick tick < ABS_diff ref_tick tick
             then (apb_tick, exec [setf (Rmt (rconf0 channel)) div_cnt (of_int apb_div AND 0xFF),
                                   setf (Rmt (rconf1 channel)) ref_always_on 1] s)
             else (ref_tick, exec [setf (Rmt (rconf0 channel)) div_cnt (of_int ref_div AND 0xFF),
                                   setf (Rmt (rconf1 channel)) ref_always_on 0] s))"

section \<open>The interrupt\<close>

text \<open>
  The two halves of the item memory have 31 items each. The debug macros are enabled in the source:
  the handlers raise and lower pins 2 and 4.
\<close>

definition half_tx_nr :: nat where "half_tx_nr = MAX_DATA_PER_ITTERATION div 2"
definition PAD_ITEM :: u32 where "PAD_ITEM = 0x000F000F"

definition set_state :: "nat \<Rightarrow> u32 \<Rightarrow> rmt_soc \<Rightarrow> rmt_soc" where
  "set_state ch m = upd_obj ch (\<lambda>r. r\<lparr>ro_tx_state := ro_tx_state r OR m\<rparr>)"

definition clear_state :: "nat \<Rightarrow> u32 \<Rightarrow> rmt_soc \<Rightarrow> rmt_soc" where
  "clear_state ch m = upd_obj ch (\<lambda>r. r\<lparr>ro_tx_state := ro_tx_state r AND NOT m\<rparr>)"

definition fill_items :: "nat \<Rightarrow> nat \<Rightarrow> (nat \<Rightarrow> rmt_soc \<Rightarrow> u32) \<Rightarrow> (rmt_soc \<Rightarrow> rmt_soc) list" where
  "fill_items ch base f = map (\<lambda>i s. wr (rmt_item ch (base + i)) (f i s) s) [0..<half_tx_nr]"

text \<open>The item at index \<open>i\<close> of a chunk: data while there is some, then padding.\<close>

definition chunk_item :: "nat \<Rightarrow> nat \<Rightarrow> nat \<Rightarrow> rmt_soc \<Rightarrow> u32" where
  "chunk_item p remaining i s = (if i < remaining then data32 p i s else PAD_ITEM)"

definition advance_data :: "nat \<Rightarrow> rmt_soc \<Rightarrow> rmt_soc" where
  "advance_data ch = upd_obj ch (\<lambda>r. r\<lparr>ro_data_size := ro_data_size r - half_tx_nr,
                                     ro_data_ptr := ro_data_ptr r + 4 * half_tx_nr\<rparr>)"

definition end_data :: "nat \<Rightarrow> rmt_soc \<Rightarrow> rmt_soc" where
  "end_data ch = upd_obj ch (\<lambda>r. r\<lparr>ro_data_ptr := NULL\<rparr>)"

definition rmt_tx_mem_second :: "nat \<Rightarrow> rmt_soc \<Rightarrow> rmt_soc" where
  "rmt_tx_mem_second ch s =
     (let s = digitalWrite 4 1 s;
          data = ro_data_ptr (robj ch s);
          s = exec [setf (Rmt (rtx_lim ch)) tx_limit (of_nat (half_tx_nr + 2)),
                    int_clear (INT_THR_EVNT ch),
                    int_enable (INT_THR_EVNT ch),
                    set_state ch E_FIRST_HALF] s;
          s = (if data \<noteq> NULL then
                 let remaining = ro_data_size (robj ch s) in
                 if half_tx_nr < remaining
                 then exec (fill_items ch half_tx_nr (data32 data) @ [advance_data ch]) s
                 else exec (fill_items ch half_tx_nr (chunk_item data remaining) @ [end_data ch]) s
               else if ro_tx_state (robj ch s) AND E_LAST_DATA = 0
                       \<and> ro_tx_state (robj ch s) AND E_END_TRANS = 0
               then exec (fill_items ch half_tx_nr (\<lambda>i s. PAD_ITEM)
                          @ [wr (rmt_item ch (half_tx_nr + half_tx_nr)) 0,
                             set_state ch E_LAST_DATA,
                             setf (Rmt (rconf1 ch)) tx_conti_mode 0]) s
               else exec [setf (Rmt (rconf1 ch)) tx_conti_mode 0,
                          int_disable (INT_TX_END ch),
                          int_disable (INT_THR_EVNT ch),
                          upd_obj ch (\<lambda>r. r\<lparr>ro_intr_mode := E_NO_INTR, ro_tx_state := E_INACTIVE\<rparr>)] s)
      in digitalWrite 4 0 s)"

text \<open>The first item of a first half is shortened by one tick.\<close>

definition first_item :: "(nat \<Rightarrow> rmt_soc \<Rightarrow> u32) \<Rightarrow> nat \<Rightarrow> rmt_soc \<Rightarrow> u32" where
  "first_item f i s = (if i = 0 then f 0 s - 1 else f i s)"

definition rmt_tx_mem_first :: "nat \<Rightarrow> rmt_soc \<Rightarrow> rmt_soc" where
  "rmt_tx_mem_first ch s =
     (let s = digitalWrite 2 1 s;
          data = ro_data_ptr (robj ch s);
          s = exec [int_disable (INT_THR_EVNT ch), setf (Rmt (rtx_lim ch)) tx_limit 0] s;
          s = (if data \<noteq> NULL then
                 let remaining = ro_data_size (robj ch s) in
                 if half_tx_nr < remaining
                 then exec (fill_items ch 0 (first_item (data32 data))
                            @ [clear_state ch E_FIRST_HALF,
                               int_disable (INT_THR_EVNT ch),
                               setf (Rmt (rtx_lim ch)) tx_limit 0,
                               advance_data ch]) s
                 else exec (fill_items ch 0
                              (first_item (\<lambda>i. if i = 0 then data32 data 0 else chunk_item data remaining i))
                            @ [clear_state ch E_FIRST_HALF, end_data ch]) s
               else exec (fill_items ch 0 (\<lambda>i s. PAD_ITEM)
                          @ [wr (rmt_item ch half_tx_nr) 0,
                             clear_state ch E_FIRST_HALF,
                             setf (Rmt (rtx_lim ch)) tx_limit 0,
                             set_state ch E_LAST_DATA,
                             setf (Rmt (rconf1 ch)) tx_conti_mode 0]) s)
      in digitalWrite 2 0 s)"

text \<open>\<^verbatim>\<open>_rmt_get_mem_len\<close>: the items up to the end marker, counting one whose second half ends.\<close>

function mem_len_loop :: "nat \<Rightarrow> nat \<Rightarrow> nat \<Rightarrow> rmt_soc \<Rightarrow> nat" where
  "mem_len_loop channel item_block_len idx s =
     (if idx < item_block_len then
        if bf_get duration0 (rd (rmt_item channel idx) s) = 0 then idx
        else if bf_get duration1 (rd (rmt_item channel idx) s) = 0 then idx + 1
        else mem_len_loop channel item_block_len (idx + 1) s
      else idx)"
  by auto
termination
  by (relation "measure (\<lambda>(channel, n, idx, s). n - idx)") auto

declare mem_len_loop.simps [simp del]

definition rmt_get_mem_len :: "nat \<Rightarrow> rmt_soc \<Rightarrow> nat" where
  "rmt_get_mem_len channel s =
     mem_len_loop channel (unat (getf (Rmt (rconf0 channel)) mem_size s) * 64) 0 s"

definition copy_items :: "nat \<Rightarrow> nat \<Rightarrow> nat \<Rightarrow> rmt_soc \<Rightarrow> rmt_soc" where
  "copy_items ch data len =
     fold (\<lambda>i s. s\<lparr>rmt_ram := store32 (data + 4 * i) (rd (rmt_item ch i) s) (rmt_ram s)\<rparr>) [0..<len]"

text \<open>A finished reception: the callback is given the buffer's start, whichever half was filled.\<close>

definition isr_rx_data :: "nat \<Rightarrow> rmt_soc \<Rightarrow> rmt_soc" where
  "isr_rx_data ch s =
     (let r = robj ch s;
          first = ro_tx_state r AND E_FIRST_HALF \<noteq> 0;
          data = (if ro_cb r \<noteq> NULL \<and> \<not> first
                  then ro_data_ptr r + 4 * (MAX_DATA_PER_CHANNEL * ro_buffers r) else ro_data_ptr r);
          s = (if ro_cb r = NULL then s
               else if first then clear_state ch E_FIRST_HALF s else set_state ch E_FIRST_HALF s);
          s = copy_items ch data (ro_data_size r) s
      in if ro_cb r \<noteq> NULL
         then exec [\<lambda>s. ext (CallFnLen (ro_cb r) (ro_data_ptr r) (rmt_get_mem_len ch s)) s,
                    setf (Rmt (rconf1 ch)) mem_owner 1,
                    setf (Rmt (rconf1 ch)) mem_wr_rst 1,
                    setf (Rmt (rconf1 ch)) rx_en 1,
                    int_enable (INT_RX_END ch)] s
         else upd_obj ch (\<lambda>r. r\<lparr>ro_intr_mode := ro_intr_mode r AND NOT E_RX_INTR\<rparr>) s)"

definition isr_rx :: "nat \<Rightarrow> rmt_soc \<Rightarrow> rmt_soc" where
  "isr_rx ch s =
     (let s = exec [int_clear (INT_RX_END ch), int_disable (INT_RX_END ch)] s;
          r = robj ch s
      in if ro_intr_mode r AND E_RX_INTR \<noteq> 0 then
           let s = (if ro_events r \<noteq> NULL then ext (EventSet (ro_events r) RMT_FLAG_RX_DONE) s else s)
           in if ro_data_ptr r \<noteq> NULL \<and> 0 < ro_data_size r then isr_rx_data ch s else s
         else int_disable (INT_RX_END ch) s)"

definition isr_error :: "nat \<Rightarrow> rmt_soc \<Rightarrow> rmt_soc" where
  "isr_error ch = exec
     [digitalWrite 2 1,
      int_clear (INT_ERROR ch),
      int_disable (INT_ERROR ch),
      \<lambda>s. if ro_events (robj ch s) \<noteq> NULL then ext (EventSet (ro_events (robj ch s)) RMT_FLAG_ERROR) s else s,
      setf (Rmt (rconf1 ch)) mem_rd_rst 1,
      setf (Rmt (rconf1 ch)) mem_rd_rst 0,
      setf (Rmt (rconf1 ch)) mem_wr_rst 1,
      setf (Rmt (rconf1 ch)) mem_wr_rst 0]"

definition isr_tx_end :: "nat \<Rightarrow> rmt_soc \<Rightarrow> rmt_soc" where
  "isr_tx_end ch = exec [int_clear (INT_TX_END ch), rmt_tx_mem_second ch]"

definition isr_thr :: "nat \<Rightarrow> rmt_soc \<Rightarrow> rmt_soc" where
  "isr_thr ch = exec
     [int_clear (INT_THR_EVNT ch),
      \<lambda>s. if ro_tx_state (robj ch s) AND E_SET_CONTI \<noteq> 0
          then exec [setf (Rmt (rconf1 ch)) tx_conti_mode 1,
                     upd_obj ch (\<lambda>r. r\<lparr>ro_intr_mode := ro_intr_mode r AND NOT E_SET_CONTI\<rparr>)] s
          else s,
      rmt_tx_mem_first ch]"

definition isr_channel :: "u32 \<Rightarrow> nat \<Rightarrow> rmt_soc \<Rightarrow> rmt_soc" where
  "isr_channel intr_val ch s =
     (let s = (if intr_val AND INT_RX_END ch \<noteq> 0 then isr_rx ch s else s);
          s = (if intr_val AND INT_ERROR ch \<noteq> 0 then isr_error ch s else s);
          s = (if intr_val AND INT_TX_END ch \<noteq> 0 then isr_tx_end ch s else s)
      in if intr_val AND INT_THR_EVNT ch \<noteq> 0 then isr_thr ch s else s)"

definition rmt_isr :: "rmt_soc \<Rightarrow> rmt_soc" where
  "rmt_isr s = fold (isr_channel (rd (Rmt rint_st) s)) [0..<MAX_CHANNELS] s"

end
