(* ===== verification/RmtAlloc.thy ===== *)
theory RmtAlloc
  imports Rmt
begin

text \<open>
  How the remote control driver hands out its channels: the search is first fit and always ends, live
  handles own disjoint blocks whatever is done with them, and a channel given back cannot be had again
  because its deleted mutex is kept.
\<close>

section \<open>Frames\<close>

lemma rmt_vars [simp]:
  "rmt_objlocks (wr r v s) = rmt_objlocks s" "rmt_objects (wr r v s) = rmt_objects s"
  "rmt_ram (wr r v s) = rmt_ram s" "rmt_block_lock (wr r v s) = rmt_block_lock s"
  "rmt_objlocks (ext c s) = rmt_objlocks s" "rmt_objects (ext c s) = rmt_objects s"
  "rmt_ram (ext c s) = rmt_ram s" "rmt_block_lock (ext c s) = rmt_block_lock s"
  "rmt_objlocks (setf r f v s) = rmt_objlocks s" "rmt_objects (setf r f v s) = rmt_objects s"
  "rmt_ram (setf r f v s) = rmt_ram s" "rmt_block_lock (setf r f v s) = rmt_block_lock s"
  "rmt_intr_handle (wr r v s) = rmt_intr_handle s" "rmt_intr_handle (setf r f v s) = rmt_intr_handle s"
  "rmt_intr_handle (ext c s) = rmt_intr_handle s"
  by (simp_all add: wr_def ext_def setf_def)

lemma rmt_upd_obj [simp]:
  "rmt_objlocks (upd_obj k f s) = rmt_objlocks s" "rmt_ram (upd_obj k f s) = rmt_ram s"
  "rmt_block_lock (upd_obj k f s) = rmt_block_lock s" "rd r (upd_obj k f s) = rd r s"
  "length (rmt_objects (upd_obj k f s)) = length (rmt_objects s)"
  "held l (upd_obj k f s) = held l s" "rmt_intr_handle (upd_obj k f s) = rmt_intr_handle s"
  by (simp_all add: upd_obj_def rd_def held_def)

lemma robj_ops [simp]:
  "robj k (wr r v s) = robj k s" "robj k (ext c s) = robj k s" "robj k (setf r f v s) = robj k s"
  by (simp_all add: robj_def)

lemma robj_upd_obj:
  "j < length (rmt_objects s) \<Longrightarrow> robj j (upd_obj k f s) = (if j = k then f (robj k s) else robj j s)"
  by (auto simp: robj_def upd_obj_def)

lemma held_rmt_upd [simp]:
  "held l (s\<lparr>rmt_objlocks := a\<rparr>) = held l s" "held l (s\<lparr>rmt_block_lock := b\<rparr>) = held l s"
  "held l (s\<lparr>rmt_intr_handle := h\<rparr>) = held l s" "held l (s\<lparr>rmt_periph_enabled := p\<rparr>) = held l s"
  "held l (s\<lparr>rmt_ram := m\<rparr>) = held l s"
  by (simp_all add: held_def)

lemma rmt_take_eq:
  "rmt_take n s = Some t \<longleftrightarrow> rmt_objlocks s n = LiveSem \<and> t = ext (SemTake (RmtLock n)) s"
  by (auto simp: rmt_take_def)

lemma rmt_give_eq:
  "rmt_give n s = Some t \<longleftrightarrow> rmt_objlocks s n = LiveSem \<and> t = ext (SemGive (RmtLock n)) s"
  by (auto simp: rmt_give_def)

interpretation rmt_mutex: mutex_macros "\<lambda>n s. rmt_objlocks s n = LiveSem" rmt_take rmt_give
    "\<lambda>n s. held (RmtLock n) s"
  by unfold_locales (auto simp: rmt_take_def rmt_give_def split: if_splits)

lemma exec_frame:
  assumes "\<And>f s. f \<in> set fs \<Longrightarrow> g (f s) = g s"
  shows "g (exec fs s) = g s"
  using assms
proof (induction fs arbitrary: s)
  case (Cons f fs)
  have "g (exec fs (f s)) = g (f s)"
    by (rule Cons.IH) (rule Cons.prems, simp)
  also have "\<dots> = g s"
    by (rule Cons.prems) simp
  finally show ?case
    by simp
qed (simp only: exec.simps)

lemma rmt_guarded_eq:
  assumes "\<And>f s. f \<in> set body \<Longrightarrow> rmt_objlocks (f s) = rmt_objlocks s"
  shows "rmt_guarded n body s =
     (if rmt_objlocks s n = LiveSem
      then Some (ext (SemGive (RmtLock n)) (exec body (ext (SemTake (RmtLock n)) s)))
      else None)"
proof -
  have "rmt_objlocks (exec body t) = rmt_objlocks t" for t
    by (rule exec_frame) (rule assms)
  then show ?thesis
    by (simp add: rmt_guarded_def guarded_def run_append run_map_stmt rmt_take_def rmt_give_def)
qed

section \<open>The search for a block\<close>

text \<open>The channels \<open>i\<close> to \<open>i + b - 1\<close> exist and are free.\<close>

definition block_free :: "(nat \<Rightarrow> bool) \<Rightarrow> nat \<Rightarrow> nat \<Rightarrow> bool" where
  "block_free occ i b \<longleftrightarrow> i + b \<le> MAX_CHANNELS \<and> (\<forall>c. i \<le> c \<and> c < i + b \<longrightarrow> \<not> occ c)"

lemma free_run_spec:
  assumes "free_run occ b i j = (hit, k)" and "j \<le> b" and "\<forall>c. i \<le> c \<and> c < i + j \<longrightarrow> \<not> occ c"
    and "i + j \<le> MAX_CHANNELS"
  shows "k \<le> b \<and> (\<forall>c. i \<le> c \<and> c < i + k \<longrightarrow> \<not> occ c) \<and> i + k \<le> MAX_CHANNELS
    \<and> (if hit then k < b \<and> i + k < MAX_CHANNELS \<and> occ (i + k) else k = b \<or> i + k = MAX_CHANNELS)"
  using assms
proof (induction occ b i j rule: free_run.induct)
  case (1 occ b i j)
  show ?case
  proof (cases "(j < b \<and> i + j < MAX_CHANNELS) \<and> \<not> occ (i + j)")
    case True
    have run: "free_run occ b i (j + 1) = (hit, k)"
      using "1.prems"(1) True by (simp add: free_run.simps [of occ b i j])
    have free: "\<forall>c. i \<le> c \<and> c < i + (j + 1) \<longrightarrow> \<not> occ c"
      using "1.prems"(3) True by (auto simp: less_Suc_eq)
    from True have "j < b \<and> i + j < MAX_CHANNELS" "\<not> occ (i + j)" "j + 1 \<le> b" "i + (j + 1) \<le> MAX_CHANNELS"
      by simp_all
    then show ?thesis
      by (intro "1.IH" run free)
  next
    case stop: False
    show ?thesis
    proof (cases "j < b \<and> i + j < MAX_CHANNELS")
      case True
      with stop "1.prems"(1) have "hit" "k = j"
        by (simp_all add: free_run.simps [of occ b i j])
      with True stop "1.prems"(2-4) show ?thesis
        by simp
    next
      case False
      with "1.prems"(1) have "\<not> hit" "k = j"
        by (simp_all add: free_run.simps [of occ b i j])
      with False "1.prems"(2-4) show ?thesis
        by simp
    qed
  qed
qed

text \<open>No block that starts below the search's position is free; the search ends at the first one that is.\<close>

lemma find_block_spec:
  assumes "find_block occ b i j0 = (k, j)" and "\<forall>c < i. \<not> block_free occ c b" and "i \<le> MAX_CHANNELS"
  shows "if \<exists>c. block_free occ c b \<and> c < MAX_CHANNELS
    then j = b \<and> block_free occ k b \<and> k < MAX_CHANNELS \<and> (\<forall>c < k. \<not> block_free occ c b)
    else k = MAX_CHANNELS"
  using assms
proof (induction occ b i j0 arbitrary: k j rule: find_block.induct)
  case (1 occ b i j0)
  obtain hit j1 where run: "free_run occ b i 0 = (hit, j1)"
    by fastforce
  show ?case
  proof (cases "i < MAX_CHANNELS")
    case False
    then have "(k, j) = (i, j0)"
      using "1.prems"(1) by (simp add: find_block.simps [of occ b i j0])
    with False "1.prems"(2,3) show ?thesis
      by auto
  next
    case True
    have none: "\<forall>c. i \<le> c \<and> c < i + 0 \<longrightarrow> \<not> occ c"
      by auto
    have spec: "j1 \<le> b" "\<forall>c. i \<le> c \<and> c < i + j1 \<longrightarrow> \<not> occ c" "i + j1 \<le> MAX_CHANNELS"
        "if hit then j1 < b \<and> i + j1 < MAX_CHANNELS \<and> occ (i + j1) else j1 = b \<or> i + j1 = MAX_CHANNELS"
      using free_run_spec [OF run _ none] True by simp_all
    show ?thesis
    proof (cases hit)
      case hit: True
      then have occ: "j1 < b" "i + j1 < MAX_CHANNELS" "occ (i + j1)"
        using spec(4) True by simp_all
      have next_run: "find_block occ b (i + j1 + 1) j1 = (k, j)"
        using "1.prems"(1) True run hit occ(1) by (simp add: find_block.simps [of occ b i j0])
      have "\<not> block_free occ c b" if "c < i + j1 + 1" for c
      proof (cases "c < i")
        case False
        with that occ show ?thesis
          by (auto simp: block_free_def intro!: exI [of _ "i + j1"])
      qed (use "1.prems"(2) in blast)
      then show ?thesis
        using occ(1,2) hit by (intro "1.IH"(1) [OF True run [symmetric] _ _ next_run]) auto
    next
      case miss: False
      show ?thesis
      proof (cases "j1 = b")
        case found: True
        then have "(k, j) = (i, b)"
          using "1.prems"(1) True run miss by (simp add: find_block.simps [of occ b i j0])
        moreover have "block_free occ i b"
          using spec(2,3) True found by (simp add: block_free_def)
        ultimately show ?thesis
          using True "1.prems"(2) by auto
      next
        case False
        have next_run: "find_block occ b (i + 1) j1 = (k, j)"
          using "1.prems"(1) True run miss False by (simp add: find_block.simps [of occ b i j0])
        have "\<not> block_free occ i b"
          using spec(1,4) True miss False by (auto simp: block_free_def)
        then have "\<forall>c < i + 1. \<not> block_free occ c b"
          using "1.prems"(2) by (auto simp: less_Suc_eq)
        then show ?thesis
          using miss False True by (intro "1.IH"(2) [OF True run [symmetric] _ _ next_run]) auto
      qed
    qed
  qed
qed

section \<open>Allocation\<close>

lemma rmt_vars_of_more:
  "soc.more t = soc.more (s :: rmt_soc) \<Longrightarrow> rmt_objlocks t = rmt_objlocks s \<and> rmt_objects t = rmt_objects s
     \<and> rmt_ram t = rmt_ram s"
  by (cases s; cases t) simp

lemma length_fold_upd [simp]:
  "length (rmt_objects (fold (\<lambda>i. upd_obj (g i) f) is s)) = length (rmt_objects s)"
  by (induction "is" arbitrary: s) simp_all

lemma fold_upd_frame [simp]:
  "rmt_objlocks (fold (\<lambda>i. upd_obj (g i) f) is s) = rmt_objlocks s"
  "held l (fold (\<lambda>i. upd_obj (g i) f) is s) = held l s"
  "rmt_block_lock (fold (\<lambda>i. upd_obj (g i) f) is s) = rmt_block_lock s"
  by (induction "is" arbitrary: s) simp_all

lemma robj_fold_upd:
  assumes "c < length (rmt_objects s)"
  shows "robj c (fold (\<lambda>i. upd_obj i f) [a..<b] s) = (if a \<le> c \<and> c < b then f (robj c s) else robj c s)"
proof (induction b)
  case (Suc b)
  then show ?case
    using assms by (cases "a \<le> b") (auto simp: robj_upd_obj less_Suc_eq)
qed simp

lemma rmtAllocate_eq:
  "rmtAllocate from len s = fold (\<lambda>i. upd_obj i (\<lambda>r. r\<lparr>ro_allocated := True\<rparr>)) [from..<from + len]
     (upd_obj from (\<lambda>r. r\<lparr>ro_buffers := len\<rparr>) s)"
proof -
  have "[from..<from + len] = map (\<lambda>i. i + from) [0..<len]"
    by (simp add: map_add_upt add.commute)
  then show ?thesis
    by (simp add: rmtAllocate_def fold_map comp_def)
qed

lemma initPin_frame [simp]:
  "rmt_objects (initPin desc pin ch tx s) = rmt_objects s"
  "rmt_objlocks (initPin desc pin ch tx s) = rmt_objlocks s"
  "held l (initPin desc pin ch tx s) = held l s"
proof -
  let ?s = "if \<not> rmt_periph_enabled s
    then ext (PeriphEnable PERIPH_RMT_MODULE) (s\<lparr>rmt_periph_enabled := True\<rparr>) else s"
  have "soc.more (initPin desc pin ch tx s) = soc.more ?s"
    by (simp add: initPin_def Let_def)
  from rmt_vars_of_more [OF this]
  show "rmt_objects (initPin desc pin ch tx s) = rmt_objects s"
    "rmt_objlocks (initPin desc pin ch tx s) = rmt_objlocks s"
    by simp_all
  show "held l (initPin desc pin ch tx s) = held l s"
    by (simp add: initPin_def Let_def held_ext)
qed

lemma rmt_install_frame [simp]:
  "rmt_objects (rmt_install h s) = rmt_objects s" "rmt_objlocks (rmt_install h s) = rmt_objlocks s"
  "held l (rmt_install h s) = held l s"
  by (simp_all add: rmt_install_def held_ext)

lemma channel_defaults_frame:
  assumes "f \<in> set (channel_defaults channel buffers tx)"
  shows "rmt_objects (f s) = rmt_objects s" "rmt_objlocks (f s) = rmt_objlocks s" "held l (f s) = held l s"
  using assms by (auto simp: channel_defaults_def split: if_splits)

lemma rmt_objects_upd_cong:
  "rmt_objects t = rmt_objects s \<Longrightarrow> rmt_objects (upd_obj k f t) = rmt_objects (upd_obj k f s)"
  by (simp add: upd_obj_def)

lemma rmt_objects_fold_cong:
  "rmt_objects t = rmt_objects s
     \<Longrightarrow> rmt_objects (fold (\<lambda>i. upd_obj (g i) f) is t) = rmt_objects (fold (\<lambda>i. upd_obj (g i) f) is s)"
proof (induction "is" arbitrary: s t)
  case (Cons i "is")
  show ?case
    using Cons.IH [OF rmt_objects_upd_cong [OF Cons.prems, of "g i" f]] by simp
qed simp

lemma rmt_objects_Allocate_cong:
  "rmt_objects t = rmt_objects s \<Longrightarrow> rmt_objects (rmtAllocate i b t) = rmt_objects (rmtAllocate i b s)"
  unfolding rmtAllocate_def by (intro rmt_objects_fold_cong rmt_objects_upd_cong)

lemma rmtAllocate_frame [simp]:
  "rmt_objlocks (rmtAllocate i b s) = rmt_objlocks s" "held l (rmtAllocate i b s) = held l s"
  by (simp_all add: rmtAllocate_def)

lemma init_body_frame:
  fixes i b tx pin desc h F
  defines "body \<equiv> [upd_obj i F, initPin desc pin i tx] @ channel_defaults i b tx @ [rmt_install h]"
  shows "rmt_objects (exec body s) = rmt_objects (upd_obj i F s)"
    and "rmt_objlocks (exec body s) = rmt_objlocks s" and "held l (exec body s) = held l s"
    and "\<And>f t. f \<in> set body \<Longrightarrow> rmt_objlocks (f t) = rmt_objlocks t"
proof -
  note frame = channel_defaults_frame [of _ i b tx]
  have keep: "rmt_objects (exec (channel_defaults i b tx) t) = rmt_objects t"
    "rmt_objlocks (exec (channel_defaults i b tx) t) = rmt_objlocks t"
    "held l (exec (channel_defaults i b tx) t) = held l t" for t
    by (rule exec_frame, erule frame)+
  show "rmt_objects (exec body s) = rmt_objects (upd_obj i F s)"
    "rmt_objlocks (exec body s) = rmt_objlocks s" "held l (exec body s) = held l s"
    by (simp_all add: body_def exec_append keep)
  show "\<And>f t. f \<in> set body \<Longrightarrow> rmt_objlocks (f t) = rmt_objlocks t"
    using frame by (auto simp: body_def)
qed

text \<open>The state in which a successful \<open>rmtInit\<close> on channel \<open>i\<close> leaves the channel descriptors.\<close>

lemma rmtInit_cases:
  assumes "rmt_block_lock s \<or> block_ok" and "find_block (\<lambda>c. ro_allocated (robj c s)) b 0 0 = (i, j)"
  shows "if i = MAX_CHANNELS \<or> MAX_CHANNELS \<le> i + j \<or> j \<noteq> b
    then \<exists>t. rmtInit desc block_ok mutex_ok h pin tx b s = Some (None, t) \<and> rmt_objects t = rmt_objects s
      \<and> rmt_objlocks t = rmt_objlocks s \<and> (\<forall>l. held l t = held l s)
    else if rmt_objlocks s i = DeadSem then rmtInit desc block_ok mutex_ok h pin tx b s = None
    else if rmt_objlocks s i = NoSem \<and> \<not> mutex_ok
    then \<exists>t. rmtInit desc block_ok mutex_ok h pin tx b s = Some (None, t)
      \<and> rmt_objects t = rmt_objects (rmtAllocate i b s) \<and> rmt_objlocks t = rmt_objlocks s
      \<and> (\<forall>l. held l t = held l s)
    else \<exists>t. rmtInit desc block_ok mutex_ok h pin tx b s = Some (Some i, t)
      \<and> rmt_objects t = rmt_objects (upd_obj i (\<lambda>r. r\<lparr>ro_pin := pin, ro_tx_not_rx := tx,
            ro_buffers := b, ro_channel := i\<rparr>) (rmtAllocate i b s))
      \<and> rmt_objlocks t = (rmt_objlocks s)(i := LiveSem) \<and> (\<forall>l. held l t = held l s)"
proof -
  let ?s1 = "ext (SemTake RmtBlockLock) (s\<lparr>rmt_block_lock := True\<rparr>)"
  let ?s2 = "ext (SemGive RmtBlockLock) (rmtAllocate i b ?s1)"
  let ?body = "[upd_obj i (\<lambda>r. r\<lparr>ro_pin := pin, ro_tx_not_rx := tx, ro_buffers := b, ro_channel := i\<rparr>),
    initPin desc pin i tx] @ channel_defaults i b tx @ [rmt_install h]"
  have find: "find_block (\<lambda>c. ro_allocated (robj c ?s1)) b 0 0 = (i, j)"
    using assms(2) by (simp add: robj_def)
  have alloc: "rmt_objects ?s2 = rmt_objects (rmtAllocate i b s)"
    by (simp only: rmt_vars) (rule rmt_objects_Allocate_cong, simp)
  have locks: "rmt_objlocks ?s2 = rmt_objlocks s" "held l ?s2 = held l s" for l
    by simp_all
  let ?s3 = "if rmt_objlocks ?s2 i = NoSem
    then ?s2\<lparr>rmt_objlocks := (rmt_objlocks ?s2)(i := LiveSem)\<rparr> else ?s2"
  have obj: "rmt_objects (upd_obj i f (ext (SemTake (RmtLock i)) ?s3)) = rmt_objects (upd_obj i f (rmtAllocate i b s))" for f
    by (rule rmt_objects_upd_cong) (use alloc in simp)
  have block: "(\<not> rmt_block_lock s \<and> \<not> block_ok) = False"
    using assms(1) by blast
  have init: "rmtInit desc block_ok mutex_ok h pin tx b s =
      (if i = MAX_CHANNELS \<or> MAX_CHANNELS \<le> i + j \<or> j \<noteq> b then Some (None, ext (SemGive RmtBlockLock) ?s1)
       else if rmt_objlocks ?s2 i = NoSem \<and> \<not> mutex_ok then Some (None, ?s2)
       else map_option (Pair (Some i)) (rmt_guarded i ?body ?s3))"
    unfolding rmtInit_def Let_def find prod.case block if_False by (rule refl)
  show ?thesis
  proof (cases "i = MAX_CHANNELS \<or> MAX_CHANNELS \<le> i + j \<or> j \<noteq> b")
    case True
    show ?thesis
      unfolding init if_P [OF True] by simp
  next
    case found: False
    define u where "u = exec ?body (ext (SemTake (RmtLock i)) ?s3)"
    have guarded: "rmt_guarded i ?body ?s3 = (if rmt_objlocks ?s3 i = LiveSem
        then Some (ext (SemGive (RmtLock i)) u) else None)"
      unfolding u_def by (rule rmt_guarded_eq) (erule init_body_frame(4))
    have u: "rmt_objects u = rmt_objects (upd_obj i (\<lambda>r. r\<lparr>ro_pin := pin, ro_tx_not_rx := tx,
            ro_buffers := b, ro_channel := i\<rparr>) (rmtAllocate i b s))"
        "rmt_objlocks u = rmt_objlocks ?s3" "held l u = held l ?s3 + of_bool (l = RmtLock i)" for l
      unfolding u_def init_body_frame obj by simp_all
    show ?thesis
      unfolding init if_not_P [OF found] guarded using alloc u
      by (cases "rmt_objlocks s i") (auto simp: fun_upd_idem)
  qed
qed

section \<open>Sessions\<close>

text \<open>What the allocation depends on: which channels are taken, and the block each descriptor names.\<close>

definition layout :: "rmt_soc \<Rightarrow> (bool \<times> nat \<times> nat) list" where
  "layout s = map (\<lambda>r. (ro_allocated r, ro_channel r, ro_buffers r)) (rmt_objects s)"

named_theorems layout

lemma layout_cong: "rmt_objects t = rmt_objects s \<Longrightarrow> layout t = layout s"
  by (simp add: layout_def)

lemma layout_regs [layout]:
  "layout (wr r v s) = layout s" "layout (ext c s) = layout s" "layout (setf r f v s) = layout s"
  "layout (s\<lparr>rmt_ram := m\<rparr>) = layout s" "layout (s\<lparr>rmt_intr_handle := h\<rparr>) = layout s"
  "layout (set_peri_reg_mask r v s) = layout s" "layout (clear_peri_reg_mask r v s) = layout s"
  "layout (digitalWrite p x s) = layout s"
  by (simp_all add: layout_def set_peri_reg_mask_def clear_peri_reg_mask_def digitalWrite_def)

lemma layout_upd_obj:
  assumes "\<And>r. (ro_allocated (f r), ro_channel (f r), ro_buffers (f r)) = (ro_allocated r, ro_channel r, ro_buffers r)"
  shows "layout (upd_obj k f s) = layout s"
proof (cases "k < length (rmt_objects s)")
  case True
  then have "layout s ! k = (\<lambda>r. (ro_allocated r, ro_channel r, ro_buffers r)) (rmt_objects s ! k)"
    by (simp add: layout_def)
  with assms True show ?thesis
    by (simp add: layout_def upd_obj_def map_update list_update_same_conv)
qed (simp add: upd_obj_def layout_def list_update_beyond)

lemma layout_states [layout]:
  "layout (set_state k m s) = layout s" "layout (clear_state k m s) = layout s"
  "layout (advance_data k s) = layout s" "layout (end_data k s) = layout s"
  by (simp_all add: set_state_def clear_state_def advance_data_def end_data_def layout_upd_obj)

lemma layout_exec: "(\<And>f s. f \<in> set fs \<Longrightarrow> layout (f s) = layout s) \<Longrightarrow> layout (exec fs s) = layout s"
  by (rule exec_frame)

lemma layout_copy [layout]: "layout (copy_items ch data n s) = layout s"
proof -
  have "layout (fold (\<lambda>i s. s\<lparr>rmt_ram := store32 (data + 4 * i) (rd (rmt_item ch i) s) (rmt_ram s)\<rparr>) is s)
      = layout s" for "is"
    by (induction "is" arbitrary: s) (simp_all add: layout)
  then show ?thesis
    by (simp add: copy_items_def)
qed

lemma layout_ints [layout]:
  "layout (int_enable m s) = layout s" "layout (int_disable m s) = layout s" "layout (int_clear m s) = layout s"
  by (simp_all add: int_enable_def int_disable_def int_clear_def layout)

lemma layout_fill [layout]: "layout (exec (fill_items ch base f) s) = layout s"
  by (rule layout_exec) (auto simp: fill_items_def layout)

lemma layout_tx_mem [layout]:
  "layout (rmt_tx_mem_second ch s) = layout s" "layout (rmt_tx_mem_first ch s) = layout s"
  by (simp_all add: rmt_tx_mem_second_def rmt_tx_mem_first_def Let_def exec_append layout layout_upd_obj)

lemma layout_isr_rx [layout]: "layout (isr_rx_data ch s) = layout s" "layout (isr_rx ch s) = layout s"
proof -
  show data: "layout (isr_rx_data ch s) = layout s" for s
    by (simp add: isr_rx_data_def Let_def layout layout_upd_obj)
  show "layout (isr_rx ch s) = layout s"
    by (simp add: isr_rx_def Let_def layout data)
qed

lemma layout_if [layout]: "layout a = layout s \<Longrightarrow> layout b = layout s \<Longrightarrow> layout (if c then a else b) = layout s"
  by simp

lemma layout_isr_parts [layout]:
  "layout (isr_error ch s) = layout s" "layout (isr_tx_end ch s) = layout s" "layout (isr_thr ch s) = layout s"
proof -
  show "layout (isr_error ch s) = layout s"
    unfolding isr_error_def by (rule layout_exec) (auto simp: layout)
  show "layout (isr_tx_end ch s) = layout s"
    unfolding isr_tx_end_def by (rule layout_exec) (auto simp: layout)
  show "layout (isr_thr ch s) = layout s"
    unfolding isr_thr_def by (rule layout_exec) (auto simp: layout layout_upd_obj)
qed

lemma layout_isr_channel [layout]: "layout (isr_channel v ch s) = layout s"
  unfolding isr_channel_def Let_def by (simp add: layout)

lemma layout_isr [layout]: "layout (rmt_isr s) = layout s"
proof -
  have "layout (fold (isr_channel v) chs t) = layout t" for v chs t
    by (induction chs arbitrary: t) (simp_all add: layout)
  then show ?thesis
    by (simp add: rmt_isr_def)
qed

lemma layout_run:
  assumes "run fs s = Some t" and "\<And>f s t. f \<in> set fs \<Longrightarrow> f s = Some t \<Longrightarrow> layout t = layout s"
  shows "layout t = layout s"
  by (rule run_inv [OF assms(1), where P = "\<lambda>t. layout t = layout s"]) (use assms(2) in auto)

lemma layout_guarded:
  assumes "rmt_guarded n body s = Some t" and "\<And>f s. f \<in> set body \<Longrightarrow> layout (f s) = layout s"
  shows "layout t = layout s"
  using assms(1) unfolding rmt_guarded_def guarded_def
  by (rule layout_run) (auto simp: rmt_take_eq rmt_give_eq layout assms(2))

lemma layout_on_rmt:
  assumes "on_rmt rmt bad f s = Some (v, t)"
    and "\<And>k c t. f k c s = Some t \<Longrightarrow> layout t = layout s"
  shows "layout t = layout s"
  using assms by (auto simp: on_rmt_def split: option.splits if_splits)

lemma layout_install [layout]: "layout (rmt_install h s) = layout s"
  by (simp add: rmt_install_def layout)

lemma layout_put_items [layout]: "layout (put_items ch data n s) = layout s"
  unfolding put_items_def by (rule layout_exec) (auto simp: layout)

lemma layout_own_buffer [layout]: "layout (rmt_own_buffer p k s) = layout s"
  by (simp add: rmt_own_buffer_def Let_def layout layout_upd_obj)

lemma layout_config:
  "rmtSetCarrier rmt en lv lo hi s = Some (v, t) \<Longrightarrow> layout t = layout s"
  "rmtSetFilter rmt en flt s = Some (v, t) \<Longrightarrow> layout t = layout s"
  "rmtSetRxThreshold rmt x s = Some (v, t) \<Longrightarrow> layout t = layout s"
  "rmtBeginReceive rmt s = Some (v, t) \<Longrightarrow> layout t = layout s"
  unfolding rmtSetCarrier_def rmtSetFilter_def rmtSetRxThreshold_def rmtBeginReceive_def
  by (erule layout_on_rmt, (erule layout_guarded)?, auto simp: layout)+

lemma layout_SendOnce: "rmtSendOnce rmt data len s = Some (v, t) \<Longrightarrow> layout t = layout s"
  unfolding rmtSendOnce_def
  by (erule layout_on_rmt, erule layout_run) (auto simp: layout elim!: layout_guarded)

lemma layout_setup: "f \<in> set (stream_setup h k c data len) \<Longrightarrow> layout (f s) = layout s"
  by (auto simp: stream_setup_def layout layout_upd_obj)

lemma layout_Write:
  assumes "rmtWrite h rmt data len s = Some (v, t)"
  shows "layout t = layout s"
proof (cases rmt)
  case (Some k)
  let ?prep = "stream_setup h k (ro_channel (robj k s)) data len"
  from assms Some consider "rmtSendOnce rmt data len s = Some (v, t)"
    | u where "rmt_guarded (ro_channel (robj k s)) ?prep s = Some u"
      "rmtSendOnce rmt data MAX_DATA_PER_ITTERATION u = Some (v, t)"
    by (auto simp: rmtWrite_def Let_def split: if_splits option.splits)
  then show ?thesis
  proof cases
    case 1
    then show ?thesis
      by (rule layout_SendOnce)
  next
    case 2
    from layout_guarded [OF 2(1)] layout_setup layout_SendOnce [OF 2(2)] show ?thesis
      by metis
  qed
qed (use assms in \<open>simp add: rmtWrite_def\<close>)

lemma layout_arm: "f \<in> set (rx_arm c) \<Longrightarrow> layout (f s) = layout s"
  by (auto simp: rx_arm_def layout)

lemma layout_Read: "rmtRead p rmt cb s = Some (v, t) \<Longrightarrow> layout t = layout s"
  by (auto simp: rmtRead_def Let_def layout layout_upd_obj layout_arm
      split: option.splits if_splits elim!: layout_guarded)

lemma layout_ReadAsync: "rmtReadAsync flags rmt data len ev w s = Some (v, t) \<Longrightarrow> layout t = layout s"
proof (cases rmt)
  case (Some k)
  let ?c = "ro_channel (robj k s)"
  let ?s1 = "if ev \<noteq> NULL then upd_obj k (\<lambda>r. r\<lparr>ro_events := ev\<rparr>) (ext (EventClear ev RMT_FLAGS_ALL) s) else s"
  let ?s2 = "if data \<noteq> NULL \<and> 0 < len
    then upd_obj k (\<lambda>r. r\<lparr>ro_data_ptr := data, ro_data_size := len\<rparr>) ?s1 else ?s1"
  let ?body = "upd_obj k (\<lambda>r. r\<lparr>ro_intr_mode := E_RX_INTR\<rparr>) # rx_arm ?c"
  assume "rmtReadAsync flags rmt data len ev w s = Some (v, t)"
  then have "t = s \<or> rmt_guarded ?c ?body ?s2 = Some t"
    using Some by (auto simp: rmtReadAsync_def Let_def split: if_splits)
  moreover have "layout ?s2 = layout s"
    by (simp add: layout layout_upd_obj)
  moreover have "layout t = layout ?s2" if "rmt_guarded ?c ?body ?s2 = Some t"
    using that by (rule layout_guarded) (auto simp: layout_upd_obj layout_arm)
  ultimately show ?thesis
    by auto
qed (simp add: rmtReadAsync_def)

lemma layout_ReadData: "layout (snd (rmtReadData rmt data len s)) = layout s"
  using layout_copy [of _ data len s]
  by (simp add: rmtReadData_def copy_items_def Let_def split: option.splits)

text \<open>
  A session is any order of the driver's operations and interrupts from boot on; \<open>H\<close> are the live
  handles with their block lengths. A handle is given back at most once.
\<close>

inductive rmt_session :: "(nat \<times> nat) set \<Rightarrow> rmt_soc \<Rightarrow> bool" where
  boot: "rmt_session {} (rmt_boot m s)"
| init: "rmt_session H s \<Longrightarrow> 0 < b
    \<Longrightarrow> rmtInit desc block_ok mutex_ok h pin tx b s = Some (Some c, t) \<Longrightarrow> rmt_session (insert (c, b) H) t"
| init_fails: "rmt_session H s \<Longrightarrow> 0 < b
    \<Longrightarrow> rmtInit desc block_ok mutex_ok h pin tx b s = Some (None, t) \<Longrightarrow> rmt_session H t"
| deinit: "rmt_session H s \<Longrightarrow> (c, b) \<in> H \<Longrightarrow> rmtDeinit (Some c) s = Some (v, t)
    \<Longrightarrow> rmt_session (H - {(c, b)}) t"
| send: "rmt_session H s \<Longrightarrow> rmtWrite h rmt data len s = Some (v, t) \<Longrightarrow> rmt_session H t"
| receive: "rmt_session H s \<Longrightarrow> rmtRead p rmt cb s = Some (v, t) \<Longrightarrow> rmt_session H t"
| receive_async: "rmt_session H s \<Longrightarrow> rmtReadAsync flags rmt data len ev w s = Some (v, t)
    \<Longrightarrow> rmt_session H t"
| read_data: "rmt_session H s \<Longrightarrow> rmt_session H (snd (rmtReadData rmt data len s))"
| carrier: "rmt_session H s \<Longrightarrow> rmtSetCarrier rmt en lv lo hi s = Some (v, t) \<Longrightarrow> rmt_session H t"
| filter: "rmt_session H s \<Longrightarrow> rmtSetFilter rmt en flt s = Some (v, t) \<Longrightarrow> rmt_session H t"
| threshold: "rmt_session H s \<Longrightarrow> rmtSetRxThreshold rmt x s = Some (v, t) \<Longrightarrow> rmt_session H t"
| isr: "rmt_session H s \<Longrightarrow> rmt_session H (rmt_isr s)"

definition owns_block :: "rmt_soc \<Rightarrow> nat \<times> nat \<Rightarrow> bool" where
  "owns_block s cb \<longleftrightarrow>
     (case cb of (c, b) \<Rightarrow>
        0 < b \<and> c + b < MAX_CHANNELS \<and> ro_channel (robj c s) = c \<and> ro_buffers (robj c s) = b
        \<and> (\<forall>k. c \<le> k \<and> k < c + b \<longrightarrow> ro_allocated (robj k s)))"

definition disjoint_blocks :: "(nat \<times> nat) set \<Rightarrow> bool" where
  "disjoint_blocks H \<longleftrightarrow>
     (\<forall>x\<in>H. \<forall>y\<in>H. x \<noteq> y \<longrightarrow> {fst x..<fst x + snd x} \<inter> {fst y..<fst y + snd y} = {})"

definition rmt_inv :: "(nat \<times> nat) set \<Rightarrow> rmt_soc \<Rightarrow> bool" where
  "rmt_inv H s \<longleftrightarrow>
     length (rmt_objects s) = MAX_CHANNELS \<and> (\<forall>x\<in>H. owns_block s x) \<and> disjoint_blocks H"

lemma layout_robj:
  assumes "layout t = layout s" and "k < length (rmt_objects s)"
  shows "ro_allocated (robj k t) = ro_allocated (robj k s)" "ro_channel (robj k t) = ro_channel (robj k s)"
    "ro_buffers (robj k t) = ro_buffers (robj k s)"
proof -
  have "length (rmt_objects t) = length (rmt_objects s)"
    using arg_cong [OF assms(1), of length] by (simp add: layout_def)
  moreover have "layout t ! k = layout s ! k"
    by (simp add: assms(1))
  ultimately show "ro_allocated (robj k t) = ro_allocated (robj k s)"
    "ro_channel (robj k t) = ro_channel (robj k s)" "ro_buffers (robj k t) = ro_buffers (robj k s)"
    using assms(2) by (simp_all add: layout_def robj_def)
qed

lemma rmt_inv_layout:
  assumes "layout t = layout s" and "rmt_inv H s"
  shows "rmt_inv H t"
proof -
  have len: "length (rmt_objects s) = MAX_CHANNELS" "length (rmt_objects t) = MAX_CHANNELS"
    using arg_cong [OF assms(1), of length] assms(2) by (simp_all add: layout_def rmt_inv_def)
  have "owns_block t x" if "owns_block s x" for x
    using that layout_robj [OF assms(1), unfolded len(1)]
    by (auto simp: owns_block_def split: prod.splits)
  with assms(2) len(2) show ?thesis
    by (simp add: rmt_inv_def)
qed

lemma length_Allocate [simp]: "length (rmt_objects (rmtAllocate i b s)) = length (rmt_objects s)"
  by (simp add: rmtAllocate_def)

lemma robj_Allocate:
  assumes "c < length (rmt_objects s)"
  shows "robj c (rmtAllocate i b s) =
    (let r = (if c = i then (robj c s)\<lparr>ro_buffers := b\<rparr> else robj c s)
     in if i \<le> c \<and> c < i + b then r\<lparr>ro_allocated := True\<rparr> else r)"
  using assms by (auto simp: rmtAllocate_eq robj_fold_upd robj_upd_obj Let_def)

lemma robj_cong: "rmt_objects t = rmt_objects s \<Longrightarrow> robj k t = robj k s"
  by (simp add: robj_def)

text \<open>What \<open>rmtInit\<close> found, read off its result.\<close>

lemma rmtInit_block:
  assumes "rmtInit desc block_ok mutex_ok h pin tx b s = Some (r, t)"
  obtains (failed) "r = None" "rmt_objects t = rmt_objects s"
  | (no_mutex) i where "r = None" "block_free (\<lambda>k. ro_allocated (robj k s)) i b" "i + b < MAX_CHANNELS"
      "rmt_objects t = rmt_objects (rmtAllocate i b s)"
  | (found) i where "r = Some i" "block_free (\<lambda>k. ro_allocated (robj k s)) i b" "i + b < MAX_CHANNELS"
      "rmt_objects t = rmt_objects (upd_obj i (\<lambda>r. r\<lparr>ro_pin := pin, ro_tx_not_rx := tx,
          ro_buffers := b, ro_channel := i\<rparr>) (rmtAllocate i b s))"
      "rmt_objlocks t = (rmt_objlocks s)(i := LiveSem)"
      "\<forall>c < i. \<not> block_free (\<lambda>k. ro_allocated (robj k s)) c b"
proof -
  let ?occ = "\<lambda>k. ro_allocated (robj k s)"
  obtain i j where find: "find_block ?occ b 0 0 = (i, j)"
    by fastforce
  have "rmt_block_lock s \<or> block_ok"
  proof (rule ccontr)
    assume "\<not> (rmt_block_lock s \<or> block_ok)"
    then have "rmtInit desc block_ok mutex_ok h pin tx b s = None"
      by (simp add: rmtInit_def)
    with assms show False
      by simp
  qed
  note init = rmtInit_cases [OF this find, of desc mutex_ok h pin tx]
  show ?thesis
  proof (cases "i = MAX_CHANNELS \<or> MAX_CHANNELS \<le> i + j \<or> j \<noteq> b")
    case True
    with init assms show ?thesis
      unfolding if_P [OF True] by (auto intro: failed)
  next
    case False
    have free: "block_free ?occ i b" "i + b < MAX_CHANNELS" and first: "\<forall>c < i. \<not> block_free ?occ c b"
      using find_block_spec [OF find] False by (auto split: if_splits)
    note init = init [unfolded if_not_P [OF False] assms]
    have dead: "rmt_objlocks s i \<noteq> DeadSem"
      using init by auto
    note init = init [unfolded if_not_P [OF dead]]
    show ?thesis
    proof (cases "rmt_objlocks s i = NoSem \<and> \<not> mutex_ok")
      case True
      from init [unfolded if_P [OF True]] have "r = None" "rmt_objects t = rmt_objects (rmtAllocate i b s)"
        by auto
      with free show ?thesis
        by (intro no_mutex)
    next
      case False
      from init [unfolded if_not_P [OF False]] have "r = Some i"
        "rmt_objects t = rmt_objects (upd_obj i (\<lambda>r. r\<lparr>ro_pin := pin, ro_tx_not_rx := tx,
          ro_buffers := b, ro_channel := i\<rparr>) (rmtAllocate i b s))"
        "rmt_objlocks t = (rmt_objlocks s)(i := LiveSem)"
        by auto
      with free first show ?thesis
        by (intro found)
    qed
  qed
qed

lemma owner_outside:
  assumes "owns_block s (c, b')" and "block_free (\<lambda>k. ro_allocated (robj k s)) i b" and "c \<le> k" and "k < c + b'"
  shows "\<not> (i \<le> k \<and> k < i + b)"
  using assms by (auto simp: owns_block_def block_free_def)

lemma rmt_inv_Allocate:
  assumes "rmt_inv H s" and "block_free (\<lambda>k. ro_allocated (robj k s)) i b" and "0 < b"
    and "rmt_objects t = rmt_objects (rmtAllocate i b s)"
  shows "rmt_inv H t"
proof -
  have len: "length (rmt_objects s) = MAX_CHANNELS"
    using assms(1) by (simp add: rmt_inv_def)
  have "owns_block t (c, b')" if own: "owns_block s (c, b')" for c b'
  proof -
    have out: "\<not> (i \<le> k \<and> k < i + b)" if "c \<le> k" "k < c + b'" for k
      using owner_outside [OF own assms(2) that] .
    have "robj k t = robj k s" if "c \<le> k" "k < c + b'" for k
    proof -
      have "k < MAX_CHANNELS"
        using own that by (simp add: owns_block_def)
      with out [OF that] assms(3) show ?thesis
        unfolding robj_cong [OF assms(4)] by (auto simp: robj_Allocate len Let_def)
    qed
    with own show ?thesis
      by (simp add: owns_block_def)
  qed
  with assms(1,4) show ?thesis
    by (auto simp: rmt_inv_def)
qed

lemma rmt_inv_init:
  assumes "rmt_inv H s" and "block_free (\<lambda>k. ro_allocated (robj k s)) i b" and "0 < b"
    and "i + b < MAX_CHANNELS"
    and "rmt_objects t = rmt_objects (upd_obj i (\<lambda>r. r\<lparr>ro_pin := pin, ro_tx_not_rx := tx,
          ro_buffers := b, ro_channel := i\<rparr>) (rmtAllocate i b s))"
  shows "rmt_inv (insert (i, b) H) t"
proof -
  let ?f = "\<lambda>r. r\<lparr>ro_pin := pin, ro_tx_not_rx := tx, ro_buffers := b, ro_channel := i\<rparr>"
  let ?u = "rmtAllocate i b s"
  have len: "length (rmt_objects s) = MAX_CHANNELS" "length (rmt_objects t) = MAX_CHANNELS"
    using assms(1,5) by (simp_all add: rmt_inv_def)
  have robj: "robj k t = (if k = i then ?f (robj i ?u) else robj k ?u)" if "k < MAX_CHANNELS" for k
    unfolding robj_cong [OF assms(5)] using that by (simp add: robj_upd_obj len)
  have u: "rmt_inv H ?u"
    by (rule rmt_inv_Allocate [OF assms(1-3)]) simp
  have "owns_block t (c, b')" if "(c, b') \<in> H" for c b'
  proof -
    have own: "owns_block s (c, b')" "owns_block ?u (c, b')"
      using that assms(1) u by (auto simp: rmt_inv_def)
    have "c < c + b'" "c + b' < MAX_CHANNELS"
      using own(1) by (simp_all add: owns_block_def)
    then have same: "robj k t = robj k ?u" if "c \<le> k" "k < c + b'" for k
      using owner_outside [OF own(1) assms(2) that] assms(3) that robj [of k] by auto
    from same [of c] \<open>c < c + b'\<close> have "robj c t = robj c ?u"
      by simp
    with own(2) show ?thesis
      by (simp add: owns_block_def same)
  qed
  moreover have "owns_block t (i, b)"
    using assms(3,4) by (auto simp: owns_block_def robj robj_Allocate len Let_def)
  moreover have "disjoint_blocks (insert (i, b) H)"
  proof -
    have "{c..<c + b'} \<inter> {i..<i + b} = {}" if "(c, b') \<in> H" for c b'
      using owner_outside [of s c b' i b] that assms(1,2) by (fastforce simp: rmt_inv_def)
    with assms(1) show ?thesis
      by (fastforce simp: rmt_inv_def disjoint_blocks_def)
  qed
  ultimately show ?thesis
    using len(2) by (auto simp: rmt_inv_def)
qed

lemma rmtDeinit_Some:
  assumes "rmtDeinit (Some c) s = Some (v, t)" and "ro_channel (robj c s) = c"
  shows "v" and "rmt_objects t = rmt_objects (upd_obj c (\<lambda>r. r\<lparr>ro_channel := 0, ro_buffers := 0\<rparr>)
      (fold (\<lambda>i. upd_obj i (\<lambda>r. r\<lparr>ro_allocated := False\<rparr>)) [c..<ro_buffers (robj c s) + c] s))"
    and "rmt_objlocks t = (rmt_objlocks s)(c := if rmt_objlocks s c = NoSem then NoSem else DeadSem)"
    and "rmt_block_lock t = rmt_block_lock s"
proof -
  let ?s1 = "if rmt_objlocks s c \<noteq> NoSem
    then ext (SemDelete (RmtLock c)) (s\<lparr>rmt_objlocks := (rmt_objlocks s)(c := DeadSem)\<rparr>) else s"
  let ?s2 = "if ro_data_alloc (robj c ?s1) then ext (FreeMem (ro_data_ptr (robj c ?s1))) ?s1 else ?s1"
  let ?s3 = "fold (\<lambda>i. upd_obj i (\<lambda>r. r\<lparr>ro_allocated := False\<rparr>)) [c..<ro_buffers (robj c s) + c] ?s2"
  have "rmt_objlocks s c \<noteq> DeadSem"
    using assms by (auto simp: rmtDeinit_def)
  then have eq: "rmtDeinit (Some c) s
      = Some (True, upd_obj c (\<lambda>r. r\<lparr>ro_channel := 0, ro_buffers := 0\<rparr>) ?s3)"
    using assms(2) by (simp add: rmtDeinit_def Let_def del: fold_simps)
  have t: "v" "t = upd_obj c (\<lambda>r. r\<lparr>ro_channel := 0, ro_buffers := 0\<rparr>) ?s3"
    using assms(1) unfolding eq by simp_all
  show "v"
    by (rule t(1))
  have objects: "rmt_objects ?s2 = rmt_objects s"
    by simp
  show "rmt_objects t = rmt_objects (upd_obj c (\<lambda>r. r\<lparr>ro_channel := 0, ro_buffers := 0\<rparr>)
      (fold (\<lambda>i. upd_obj i (\<lambda>r. r\<lparr>ro_allocated := False\<rparr>)) [c..<ro_buffers (robj c s) + c] s))"
    unfolding t(2) by (intro rmt_objects_upd_cong rmt_objects_fold_cong objects)
  have locks: "rmt_objlocks ?s3 = rmt_objlocks ?s2" "rmt_block_lock ?s3 = rmt_block_lock ?s2"
    by simp_all
  show "rmt_objlocks t = (rmt_objlocks s)(c := if rmt_objlocks s c = NoSem then NoSem else DeadSem)"
    unfolding t(2) by (auto simp: locks)
  show "rmt_block_lock t = rmt_block_lock s"
    unfolding t(2) by (simp add: locks)
qed

lemma disjoint_blocks_subset: "disjoint_blocks H \<Longrightarrow> G \<subseteq> H \<Longrightarrow> disjoint_blocks G"
  unfolding disjoint_blocks_def by blast

lemma disjoint_blocksD:
  "disjoint_blocks H \<Longrightarrow> (c, b) \<in> H \<Longrightarrow> (c', b') \<in> H \<Longrightarrow> (c, b) \<noteq> (c', b') \<Longrightarrow> c \<le> k \<Longrightarrow> k < c + b
     \<Longrightarrow> \<not> (c' \<le> k \<and> k < c' + b')"
  by (fastforce simp: disjoint_blocks_def)

lemma rmt_inv_deinit:
  assumes "rmt_inv H s" and "(c, b) \<in> H" and "rmtDeinit (Some c) s = Some (v, t)"
  shows "rmt_inv (H - {(c, b)}) t"
proof -
  let ?free = "\<lambda>r. r\<lparr>ro_allocated := False\<rparr>"
  let ?f = "fold (\<lambda>i. upd_obj i ?free) [c..<ro_buffers (robj c s) + c] s"
  have inv: "length (rmt_objects s) = MAX_CHANNELS" "disjoint_blocks H" "owns_block s (c, b)"
    using assms(1,2) by (auto simp: rmt_inv_def)
  then have c: "ro_channel (robj c s) = c" "ro_buffers (robj c s) = b" "0 < b" "c + b < MAX_CHANNELS"
    by (simp_all add: owns_block_def)
  note objs = rmtDeinit_Some(2) [OF assms(3) c(1)]
  have len: "length (rmt_objects t) = MAX_CHANNELS"
    unfolding objs by (simp add: inv(1))
  have same: "robj k t = robj k s" if "k < MAX_CHANNELS" "\<not> (c \<le> k \<and> k < c + b)" for k
    unfolding robj_cong [OF objs] using that c
    by (auto simp: robj_upd_obj robj_fold_upd inv(1) add.commute)
  have "owns_block t (c', b')" if other: "(c', b') \<in> H" "(c', b') \<noteq> (c, b)" for c' b'
  proof -
    have own: "owns_block s (c', b')"
      using assms(1) other(1) by (auto simp: rmt_inv_def)
    then have b': "0 < b'" "c' + b' < MAX_CHANNELS"
      by (simp_all add: owns_block_def)
    have "robj k t = robj k s" if "c' \<le> k" "k < c' + b'" for k
      using same [of k] disjoint_blocksD [OF inv(2) other(1) assms(2) other(2) that] that b' by simp
    with own b' show ?thesis
      by (simp add: owns_block_def)
  qed
  moreover have "disjoint_blocks (H - {(c, b)})"
    using inv(2) by (rule disjoint_blocks_subset) auto
  ultimately show ?thesis
    using len by (auto simp: rmt_inv_def)
qed

lemma rmt_session_inv: "rmt_session H s \<Longrightarrow> rmt_inv H s"
proof (induction rule: rmt_session.induct)
  case (boot m s)
  show ?case
    by (simp add: rmt_inv_def disjoint_blocks_def rmt_boot_def soc.defs MAX_CHANNELS_def)
next
  case (init H s b desc block_ok mutex_ok h pin tx c t)
  show ?case
    by (rule rmtInit_block [OF init.hyps(3)]) (use init rmt_inv_init in \<open>blast | simp\<close>)+
next
  case (init_fails H s b desc block_ok mutex_ok h pin tx t)
  show ?case
  proof (rule rmtInit_block [OF init_fails.hyps(3)])
    assume "rmt_objects t = rmt_objects s"
    then show ?thesis
      using rmt_inv_layout [OF layout_cong init_fails.IH] by simp
  next
    fix i
    assume "block_free (\<lambda>k. ro_allocated (robj k s)) i b" "rmt_objects t = rmt_objects (rmtAllocate i b s)"
    then show ?thesis
      using rmt_inv_Allocate [OF init_fails.IH _ init_fails.hyps(2)] by simp
  qed simp
next
  case (deinit H s c b v t)
  then show ?case
    by (intro rmt_inv_deinit)
qed (auto intro: rmt_inv_layout [OF layout_Write] rmt_inv_layout [OF layout_Read]
    rmt_inv_layout [OF layout_ReadAsync] rmt_inv_layout [OF layout_ReadData]
    rmt_inv_layout [OF layout_config(1)] rmt_inv_layout [OF layout_config(2)]
    rmt_inv_layout [OF layout_config(3)] rmt_inv_layout [OF layout_isr])

section \<open>Properties\<close>

text \<open>
  C18: Whatever is done with the driver from boot on (channels handed out and given back, data sent and
  received, interrupts), the live handles own channel blocks that do not overlap, every channel of such
  a block is marked allocated, and none of them is the last channel.
\<close>

theorem rmt_blocks_disjoint:
  assumes "rmt_session H s" and "(c, b) \<in> H"
  shows "c + b < MAX_CHANNELS \<and> ro_buffers (robj c s) = b
    \<and> (\<forall>k. c \<le> k \<and> k < c + b \<longrightarrow> ro_allocated (robj k s))
    \<and> (\<forall>c' b'. (c', b') \<in> H \<and> (c', b') \<noteq> (c, b) \<longrightarrow> {c..<c + b} \<inter> {c'..<c' + b'} = {})"
proof -
  have inv: "owns_block s (c, b)" "disjoint_blocks H"
    using rmt_session_inv [OF assms(1)] assms(2) by (auto simp: rmt_inv_def)
  show ?thesis
    using inv assms(2) by (fastforce simp: owns_block_def disjoint_blocks_def)
qed

text \<open>
  C19: When the two mutexes can be created and none was deleted, \<open>rmtInit\<close> always returns. It grants the
  lowest run of free channels of the wanted length, except one that would need the last channel; when
  there is none it returns a NULL handle. It leaves every mutex as free as it was.
\<close>

theorem rmtInit_first_fit:
  assumes "\<forall>c. rmt_objlocks s c \<noteq> DeadSem"
  shows "\<exists>t. rmtInit desc True True h pin tx b s =
      Some (if \<exists>c. block_free (\<lambda>k. ro_allocated (robj k s)) c b \<and> c + b < MAX_CHANNELS
            then Some (LEAST c. block_free (\<lambda>k. ro_allocated (robj k s)) c b) else None, t)
    \<and> (\<forall>l. held l t = held l s)"
proof -
  let ?free = "\<lambda>c. block_free (\<lambda>k. ro_allocated (robj k s)) c b"
  obtain i j where find: "find_block (\<lambda>k. ro_allocated (robj k s)) b 0 0 = (i, j)"
    by fastforce
  have spec: "if \<exists>c. ?free c \<and> c < MAX_CHANNELS
    then j = b \<and> ?free i \<and> i < MAX_CHANNELS \<and> (\<forall>c < i. \<not> ?free c) else i = MAX_CHANNELS"
    using find_block_spec [OF find] by simp
  have bad: "(i = MAX_CHANNELS \<or> MAX_CHANNELS \<le> i + j \<or> j \<noteq> b) \<longleftrightarrow> \<not> (\<exists>c. ?free c \<and> c + b < MAX_CHANNELS)"
  proof (cases "\<exists>c. ?free c \<and> c < MAX_CHANNELS")
    case True
    with spec have i: "j = b" "?free i" "i < MAX_CHANNELS" "\<forall>c. ?free c \<longrightarrow> i \<le> c"
      by (auto simp: not_less [symmetric])
    then show ?thesis
      by fastforce
  next
    case False
    then have "\<not> (\<exists>c. ?free c \<and> c + b < MAX_CHANNELS)"
      by (meson add_lessD1)
    with spec [unfolded if_not_P [OF False]] show ?thesis
      by blast
  qed
  have least: "(LEAST c. ?free c) = i" if "\<exists>c. ?free c \<and> c + b < MAX_CHANNELS"
  proof -
    from that have "\<exists>c. ?free c \<and> c < MAX_CHANNELS"
      by (meson add_lessD1)
    with spec have "?free i" "\<forall>c < i. \<not> ?free c"
      by auto
    then show ?thesis
      by (intro Least_equality) (auto simp: not_less [symmetric])
  qed
  have dead: "rmt_objlocks s i \<noteq> DeadSem"
    using assms by blast
  note init = rmtInit_cases [where block_ok = True, OF disjI2 [OF TrueI] find, of desc True h pin tx]
  show ?thesis
  proof (cases "\<exists>c. ?free c \<and> c + b < MAX_CHANNELS")
    case True
    with bad have "\<not> (i = MAX_CHANNELS \<or> MAX_CHANNELS \<le> i + j \<or> j \<noteq> b)"
      by blast
    from init [unfolded if_not_P [OF this] if_not_P [OF dead]] show ?thesis
      unfolding if_P [OF True] least [OF True] by auto
  next
    case False
    with bad have "i = MAX_CHANNELS \<or> MAX_CHANNELS \<le> i + j \<or> j \<noteq> b"
      by blast
    from init [unfolded if_P [OF this]] show ?thesis
      unfolding if_not_P [OF False] by auto
  qed
qed

definition rmt_fresh :: rmt_soc where
  "rmt_fresh = rmt_boot (\<lambda>_. 0) \<lparr>soc_regs = (\<lambda>_. 0), soc_trace = []\<rparr>"

lemma rmt_fresh [simp]:
  "length (rmt_objects rmt_fresh) = MAX_CHANNELS" "rmt_objlocks rmt_fresh c = NoSem"
  "c < MAX_CHANNELS \<Longrightarrow> robj c rmt_fresh = rmt_obj_init" "held l rmt_fresh = 0"
  by (simp_all add: rmt_fresh_def rmt_boot_def soc.defs robj_def held_def)

lemma block_free_fresh: "block_free (\<lambda>k. ro_allocated (robj k rmt_fresh)) c b \<longleftrightarrow> c + b \<le> MAX_CHANNELS"
  by (auto simp: block_free_def rmt_obj_init_def)

theorem rmtInit_first_fit_witness:
  "\<forall>desc h pin tx. \<exists>t. rmtInit desc True True h pin tx 3 rmt_fresh = Some (Some 0, t) \<and> held (RmtLock 0) t = 0"
proof (intro allI)
  fix desc h pin tx
  have least: "(LEAST c::nat. c + 3 \<le> MAX_CHANNELS) = 0"
    by (rule Least_eq_0) (simp add: MAX_CHANNELS_def)
  have room: "\<exists>c. c + 3 < MAX_CHANNELS"
    by (rule exI [of _ 0]) (simp add: MAX_CHANNELS_def)
  have "\<exists>c. c + 3 \<le> MAX_CHANNELS \<and> c + 3 < MAX_CHANNELS"
    using room less_imp_le by blast
  with rmtInit_first_fit [of rmt_fresh desc h pin tx 3] show
    "\<exists>t. rmtInit desc True True h pin tx 3 rmt_fresh = Some (Some 0, t) \<and> held (RmtLock 0) t = 0"
    unfolding block_free_fresh by (auto simp: least)
qed

text \<open>A successful \<open>rmtInit\<close> from the facts about the search.\<close>

lemma rmtInit_grants:
  assumes "block_free (\<lambda>k. ro_allocated (robj k s)) i b" and "i + b < MAX_CHANNELS"
    and "\<forall>c < i. \<not> block_free (\<lambda>k. ro_allocated (robj k s)) c b" and "rmt_objlocks s i \<noteq> DeadSem"
  obtains t where "rmtInit desc True True h pin tx b s = Some (Some i, t)"
    "rmt_objects t = rmt_objects (upd_obj i (\<lambda>r. r\<lparr>ro_pin := pin, ro_tx_not_rx := tx,
        ro_buffers := b, ro_channel := i\<rparr>) (rmtAllocate i b s))"
    "rmt_objlocks t = (rmt_objlocks s)(i := LiveSem)"
proof -
  obtain i' j where find: "find_block (\<lambda>k. ro_allocated (robj k s)) b 0 0 = (i', j)"
    by fastforce
  have "i < MAX_CHANNELS"
    using assms(2) by simp
  with find_block_spec [OF find] assms(1) have ij: "j = b" "block_free (\<lambda>k. ro_allocated (robj k s)) i' b"
    "\<forall>c < i'. \<not> block_free (\<lambda>k. ro_allocated (robj k s)) c b"
    by (auto split: if_splits)
  with assms(1,3) have i: "i' = i"
    by (metis linorder_neqE_nat)
  with ij assms(2) have good: "\<not> (i = MAX_CHANNELS \<or> MAX_CHANNELS \<le> i + j \<or> j \<noteq> b)"
    by auto
  have mutex: "\<not> (rmt_objlocks s i = NoSem \<and> \<not> True)"
    by simp
  note init = rmtInit_cases [where block_ok = True, OF disjI2 [OF TrueI] find, of desc True h pin tx,
      unfolded i if_not_P [OF good] if_not_P [OF assms(4)] if_not_P [OF mutex]]
  then show thesis
    using that by blast
qed

theorem rmt_blocks_disjoint_witness:
  "\<exists>t. rmt_session {(2, 1), (0, 2)} t \<and> {2..<2 + 1} \<inter> {0..<0 + 2::nat} = {} \<and> ro_buffers (robj 0 t) = 2"
proof -
  have "block_free (\<lambda>k. ro_allocated (robj k rmt_fresh)) 0 2" "0 + 2 < MAX_CHANNELS"
    by (auto simp: block_free_fresh MAX_CHANNELS_def)
  then obtain u where u: "rmtInit (\<lambda>_. undefined) True True 1 4 True 2 rmt_fresh = Some (Some 0, u)"
      "rmt_objects u = rmt_objects (upd_obj 0 (\<lambda>r. r\<lparr>ro_pin := 4, ro_tx_not_rx := True,
        ro_buffers := 2, ro_channel := 0\<rparr>) (rmtAllocate 0 2 rmt_fresh))"
      "rmt_objlocks u = (rmt_objlocks rmt_fresh)(0 := LiveSem)"
    by (rule rmtInit_grants [of rmt_fresh 0 2]) simp_all
  have occ: "ro_allocated (robj k u) \<longleftrightarrow> k < 2" if "k < MAX_CHANNELS" for k
    unfolding robj_cong [OF u(2)] using that
    by (simp add: robj_upd_obj robj_Allocate Let_def rmt_obj_init_def)
  have free: "block_free (\<lambda>k. ro_allocated (robj k u)) 2 1" "2 + 1 < MAX_CHANNELS"
    using occ [of 2] by (auto simp: block_free_def MAX_CHANNELS_def le_less_Suc_eq eval_nat_numeral)
  have "\<not> block_free (\<lambda>k. ro_allocated (robj k u)) c 1" if "c < 2" for c
    using that occ [of c] by (auto simp: block_free_def MAX_CHANNELS_def)
  with free u(3) obtain t where t: "rmtInit (\<lambda>_. undefined) True True 1 5 False 1 u = Some (Some 2, t)"
    by (elim rmtInit_grants [of u 2 1]) simp_all
  have "rmt_session {} rmt_fresh"
    unfolding rmt_fresh_def by (rule boot)
  then have "rmt_session {(0, 2)} u"
    by (rule init) (use u(1) in simp_all)
  then have session: "rmt_session {(2, 1), (0, 2)} t"
    by (rule init) (use t in simp_all)
  with rmt_blocks_disjoint [OF session, of 0 2] rmt_blocks_disjoint [OF session, of 2 1] show ?thesis
    by auto
qed



end
