(* ===== verification/RmtStream.thy ===== *)
theory RmtStream
  imports RmtAlloc
begin

text \<open>
  What the remote control driver sends. A short write puts the items and an end marker into the item
  memory of the channel; a long one streams them: every interrupt refills one half of the memory with
  the next 31 items of the caller's buffer, in order, until there are none left.
\<close>

section \<open>Filling item memory\<close>

lemma rd_item_ops [simp]:
  "rd (RmtMem m) (digitalWrite p x s) = rd (RmtMem m) s"
  "rd (RmtMem m) (setf (Rmt r) f v s) = rd (RmtMem m) s"
  "rd (RmtMem m) (int_enable w s) = rd (RmtMem m) s"
  "rd (RmtMem m) (int_disable w s) = rd (RmtMem m) s"
  "rd (RmtMem m) (int_clear w s) = rd (RmtMem m) s"
  "rd (RmtMem m) (wr (Rmt r) v s) = rd (RmtMem m) s"
  by (simp_all add: digitalWrite_def setf_def int_enable_def int_disable_def int_clear_def
      set_peri_reg_mask_def clear_peri_reg_mask_def)

lemma vars_ops [simp]:
  "rmt_objects (digitalWrite p x s) = rmt_objects s" "rmt_ram (digitalWrite p x s) = rmt_ram s"
  "rmt_objects (int_enable w s) = rmt_objects s" "rmt_ram (int_enable w s) = rmt_ram s"
  "rmt_objects (int_disable w s) = rmt_objects s" "rmt_ram (int_disable w s) = rmt_ram s"
  "rmt_objects (int_clear w s) = rmt_objects s" "rmt_ram (int_clear w s) = rmt_ram s"
  "rmt_objlocks (int_enable w s) = rmt_objlocks s" "rmt_objlocks (int_clear w s) = rmt_objlocks s"
  by (simp_all add: digitalWrite_def int_enable_def int_disable_def int_clear_def
      set_peri_reg_mask_def clear_peri_reg_mask_def)

lemma put_map:
  assumes "\<And>i s t. rmt_ram s = rmt_ram t \<Longrightarrow> g i s = g i t"
  shows "rmt_ram (exec (map (\<lambda>i s. wr (rmt_item ch (base + i)) (g i s) s) [0..<n]) s) = rmt_ram s"
    and "rmt_objects (exec (map (\<lambda>i s. wr (rmt_item ch (base + i)) (g i s) s) [0..<n]) s) = rmt_objects s"
    and "rmt_objlocks (exec (map (\<lambda>i s. wr (rmt_item ch (base + i)) (g i s) s) [0..<n]) s) = rmt_objlocks s"
    and "rd (RmtMem m) (exec (map (\<lambda>i s. wr (rmt_item ch (base + i)) (g i s) s) [0..<n]) s) =
      (if 64 * ch + base \<le> m \<and> m < 64 * ch + base + n then g (m - (64 * ch + base)) s else rd (RmtMem m) s)"
proof -
  let ?t = "\<lambda>n. exec (map (\<lambda>i s. wr (rmt_item ch (base + i)) (g i s) s) [0..<n]) s"
  show ram: "rmt_ram (?t n) = rmt_ram s" for n
    by (induction n) (simp_all add: exec_append)
  show "rmt_objects (?t n) = rmt_objects s"
    by (induction n) (simp_all add: exec_append)
  show "rmt_objlocks (?t n) = rmt_objlocks s"
    by (induction n) (simp_all add: exec_append)
  show "rd (RmtMem m) (?t n) =
      (if 64 * ch + base \<le> m \<and> m < 64 * ch + base + n then g (m - (64 * ch + base)) s else rd (RmtMem m) s)"
  proof (induction n)
    case (Suc n)
    have "g n (?t n) = g n s"
      by (rule assms) (rule ram)
    then show ?case
      using Suc by (auto simp: exec_append rmt_item_def MAX_DATA_PER_CHANNEL_def rd_wr)
  qed auto
qed

lemma chunk_cong: "rmt_ram s = rmt_ram t \<Longrightarrow> chunk_item p n i s = chunk_item p n i t"
  by (simp add: chunk_item_def data32_def)

lemma first_cong:
  assumes "\<And>i s t. rmt_ram s = rmt_ram t \<Longrightarrow> g i s = g i t" and "rmt_ram s = rmt_ram t"
  shows "first_item g i s = first_item g i t"
proof -
  have "g j s = g j t" for j
    using assms(2) by (rule assms(1))
  then show ?thesis
    by (simp add: first_item_def)
qed

lemma data32_cong: "rmt_ram s = rmt_ram t \<Longrightarrow> data32 p i s = data32 p i t"
  by (simp add: data32_def)

text \<open>
  One refill while there is data: the half gets the next 31 items of the buffer, padded, and the
  descriptor the rest of the buffer, or no buffer when this was the last chunk.
\<close>

definition rest_ptr :: "nat \<Rightarrow> nat \<Rightarrow> nat" where
  "rest_ptr p n = (if 31 < n then p + 124 else NULL)"

lemma fill_spec:
  fixes g ch base s
  defines "t \<equiv> exec (fill_items ch base g) s"
  assumes "\<And>i s t. rmt_ram s = rmt_ram t \<Longrightarrow> g i s = g i t"
  shows "rmt_ram t = rmt_ram s" and "rmt_objects t = rmt_objects s"
    and "rd (RmtMem m) t =
      (if 64 * ch + base \<le> m \<and> m < 64 * ch + base + 31 then g (m - (64 * ch + base)) s else rd (RmtMem m) s)"
  unfolding t_def fill_items_def using put_map [where g = g and ch = ch and base = base and n = half_tx_nr and s = s, OF assms(2)]
  by (simp_all add: half_tx_nr_def MAX_DATA_PER_ITTERATION_def)

lemma robj_ram_upd [simp]:
  "robj k (int_enable w s) = robj k s" "robj k (int_disable w s) = robj k s"
  "robj k (int_clear w s) = robj k s" "robj k (digitalWrite p x s) = robj k s"
  by (simp_all add: robj_def)

lemma item_upd_obj [simp]: "rd r (set_state k m s) = rd r s" "rd r (clear_state k m s) = rd r s"
    "rd r (advance_data k s) = rd r s" "rd r (end_data k s) = rd r s"
    "rmt_ram (set_state k m s) = rmt_ram s" "rmt_ram (clear_state k m s) = rmt_ram s"
    "rmt_ram (advance_data k s) = rmt_ram s" "rmt_ram (end_data k s) = rmt_ram s"
    "length (rmt_objects (set_state k m s)) = length (rmt_objects s)"
    "length (rmt_objects (clear_state k m s)) = length (rmt_objects s)"
    "length (rmt_objects (advance_data k s)) = length (rmt_objects s)"
    "length (rmt_objects (end_data k s)) = length (rmt_objects s)"
  by (simp_all add: set_state_def clear_state_def advance_data_def end_data_def)

lemma robj_states:
  assumes "k < length (rmt_objects s)"
  shows "ro_data_ptr (robj k (set_state k m s)) = ro_data_ptr (robj k s)"
    "ro_data_size (robj k (set_state k m s)) = ro_data_size (robj k s)"
    "ro_data_ptr (robj k (clear_state k m s)) = ro_data_ptr (robj k s)"
    "ro_data_size (robj k (clear_state k m s)) = ro_data_size (robj k s)"
    "ro_data_ptr (robj k (advance_data k s)) = ro_data_ptr (robj k s) + 124"
    "ro_data_size (robj k (advance_data k s)) = ro_data_size (robj k s) - 31"
    "ro_data_ptr (robj k (end_data k s)) = NULL"
    "ro_data_size (robj k (end_data k s)) = ro_data_size (robj k s)"
  using assms
  by (simp_all add: set_state_def clear_state_def advance_data_def end_data_def robj_upd_obj
      half_tx_nr_def MAX_DATA_PER_ITTERATION_def)

lemma tx_mem_second_spec:
  fixes ch s
  defines "t \<equiv> rmt_tx_mem_second ch s" and "p \<equiv> ro_data_ptr (robj ch s)" and "n \<equiv> ro_data_size (robj ch s)"
  assumes "p \<noteq> NULL" and "ch < length (rmt_objects s)"
  shows "rmt_ram t = rmt_ram s" and "length (rmt_objects t) = length (rmt_objects s)"
    and "ro_data_ptr (robj ch t) = rest_ptr p n" and "31 < n \<Longrightarrow> ro_data_size (robj ch t) = n - 31"
    and "rd (RmtMem m) t = (if 64 * ch + 31 \<le> m \<and> m < 64 * ch + 62
      then chunk_item p n (m - (64 * ch + 31)) s else rd (RmtMem m) s)"
proof -
  define u where "u = exec [setf (Rmt (rtx_lim ch)) tx_limit (of_nat (half_tx_nr + 2)),
    int_clear (INT_THR_EVNT ch), int_enable (INT_THR_EVNT ch), set_state ch E_FIRST_HALF]
    (digitalWrite 4 1 s)"
  have u: "rmt_ram u = rmt_ram s" "length (rmt_objects u) = length (rmt_objects s)"
      "ro_data_ptr (robj ch u) = p" "ro_data_size (robj ch u) = n" "rd (RmtMem m) u = rd (RmtMem m) s" for m
    using assms(5) by (simp_all add: u_def p_def n_def robj_states)
  have t: "t = digitalWrite 4 0 (if 31 < n
      then exec (fill_items ch 31 (data32 p) @ [advance_data ch]) u
      else exec (fill_items ch 31 (chunk_item p n) @ [end_data ch]) u)"
    unfolding t_def rmt_tx_mem_second_def Let_def robj_ram_upd u_def [symmetric] p_def [symmetric] u(3,4)
    using assms(4) by (simp add: half_tx_nr_def MAX_DATA_PER_ITTERATION_def)
  note fill = fill_spec [where g = "data32 p" and s = u and ch = ch and base = 31, OF data32_cong] fill_spec [where g = "chunk_item p n" and s = u and ch = ch and base = 31, OF chunk_cong]
  have rest: "rmt_ram t = rmt_ram s \<and> length (rmt_objects t) = length (rmt_objects s)
      \<and> ro_data_ptr (robj ch t) = rest_ptr p n \<and> (31 < n \<longrightarrow> ro_data_size (robj ch t) = n - 31)"
    using assms(5) by (simp add: t exec_append fill u robj_states rest_ptr_def robj_cong [OF fill(2)] robj_cong [OF fill(5)])
  show "rmt_ram t = rmt_ram s" "length (rmt_objects t) = length (rmt_objects s)"
    "ro_data_ptr (robj ch t) = rest_ptr p n" "31 < n \<Longrightarrow> ro_data_size (robj ch t) = n - 31"
    using rest by simp_all
  have "data32 p i u = data32 p i s" "chunk_item p n i u = chunk_item p n i s" for i
    by (rule data32_cong chunk_cong, rule u(1))+
  then show "rd (RmtMem m) t = (if 64 * ch + 31 \<le> m \<and> m < 64 * ch + 62
      then chunk_item p n (m - (64 * ch + 31)) s else rd (RmtMem m) s)"
    by (auto simp: t exec_append fill u chunk_item_def)
qed

lemma tx_mem_first_spec:
  fixes ch s
  defines "t \<equiv> rmt_tx_mem_first ch s" and "p \<equiv> ro_data_ptr (robj ch s)" and "n \<equiv> ro_data_size (robj ch s)"
  assumes "p \<noteq> NULL" and "ch < length (rmt_objects s)" and "0 < n"
  shows "rmt_ram t = rmt_ram s" and "length (rmt_objects t) = length (rmt_objects s)"
    and "ro_data_ptr (robj ch t) = rest_ptr p n" and "31 < n \<Longrightarrow> ro_data_size (robj ch t) = n - 31"
    and "rd (RmtMem m) t = (if 64 * ch \<le> m \<and> m < 64 * ch + 31
      then first_item (chunk_item p n) (m - 64 * ch) s else rd (RmtMem m) s)"
proof -
  define u where "u = exec [int_disable (INT_THR_EVNT ch), setf (Rmt (rtx_lim ch)) tx_limit 0] (digitalWrite 2 1 s)"
  let ?last = "\<lambda>i. if i = 0 then data32 p 0 else chunk_item p n i"
  have u: "rmt_ram u = rmt_ram s" "length (rmt_objects u) = length (rmt_objects s)"
      "ro_data_ptr (robj ch u) = p" "ro_data_size (robj ch u) = n" "rd (RmtMem m) u = rd (RmtMem m) s" for m
    using assms(5) by (simp_all add: u_def p_def n_def)
  have t: "t = digitalWrite 2 0 (if 31 < n
      then exec (fill_items ch 0 (first_item (data32 p)) @ [clear_state ch E_FIRST_HALF,
        int_disable (INT_THR_EVNT ch), setf (Rmt (rtx_lim ch)) tx_limit 0, advance_data ch]) u
      else exec (fill_items ch 0 (first_item ?last) @ [clear_state ch E_FIRST_HALF, end_data ch]) u)"
    unfolding t_def rmt_tx_mem_first_def Let_def robj_ram_upd u_def [symmetric] p_def [symmetric] u(3,4)
    using assms(4) by (simp add: half_tx_nr_def MAX_DATA_PER_ITTERATION_def)
  have cong: "?last i a = ?last i b" if "rmt_ram a = rmt_ram b" for i a b
    using data32_cong [OF that] chunk_cong [OF that] by simp
  note fill = fill_spec [where g = "first_item (data32 p)" and s = u and ch = ch and base = 0, OF first_cong [OF data32_cong]]
    fill_spec [where g = "first_item ?last" and s = u and ch = ch and base = 0, OF first_cong [OF cong]]
  have rest: "rmt_ram t = rmt_ram s \<and> length (rmt_objects t) = length (rmt_objects s)
      \<and> ro_data_ptr (robj ch t) = rest_ptr p n \<and> (31 < n \<longrightarrow> ro_data_size (robj ch t) = n - 31)"
    using assms(5) by (simp add: t exec_append fill u robj_states rest_ptr_def robj_cong [OF fill(2)] robj_cong [OF fill(5)])
  show "rmt_ram t = rmt_ram s" "length (rmt_objects t) = length (rmt_objects s)"
    "ro_data_ptr (robj ch t) = rest_ptr p n" "31 < n \<Longrightarrow> ro_data_size (robj ch t) = n - 31"
    using rest by simp_all
  have "data32 p i u = data32 p i s" "chunk_item p n i u = chunk_item p n i s" for i
    by (rule data32_cong chunk_cong, rule u(1))+
  then show "rd (RmtMem m) t = (if 64 * ch \<le> m \<and> m < 64 * ch + 31
      then first_item (chunk_item p n) (m - 64 * ch) s else rd (RmtMem m) s)"
    using assms(6) by (auto simp: t exec_append fill u chunk_item_def first_item_def)
qed

section \<open>Streams\<close>

text \<open>
  The refills of a stream: the threshold interrupt, which comes first, refills the first half, the end
  interrupt the second, and so on in turn.
\<close>

primrec refills :: "nat \<Rightarrow> nat \<Rightarrow> rmt_soc \<Rightarrow> rmt_soc" where
  "refills ch 0 s = s"
| "refills ch (Suc j) s = (if even j then isr_thr ch else isr_tx_end ch) (refills ch j s)"

lemma isr_thr_first:
  assumes "ch < length (rmt_objects s)"
  obtains u where "isr_thr ch s = rmt_tx_mem_first ch u" "rmt_ram u = rmt_ram s"
    "length (rmt_objects u) = length (rmt_objects s)" "ro_data_ptr (robj ch u) = ro_data_ptr (robj ch s)"
    "ro_data_size (robj ch u) = ro_data_size (robj ch s)" "\<And>m. rd (RmtMem m) u = rd (RmtMem m) s"
proof
  let ?c = "\<lambda>s. if ro_tx_state (robj ch s) AND E_SET_CONTI \<noteq> 0
    then exec [setf (Rmt (rconf1 ch)) tx_conti_mode 1,
               upd_obj ch (\<lambda>r. r\<lparr>ro_intr_mode := ro_intr_mode r AND NOT E_SET_CONTI\<rparr>)] s else s"
  let ?u = "?c (int_clear (INT_THR_EVNT ch) s)"
  show "isr_thr ch s = rmt_tx_mem_first ch ?u"
    by (simp add: isr_thr_def)
  show "rmt_ram ?u = rmt_ram s" "length (rmt_objects ?u) = length (rmt_objects s)"
    "\<And>m. rd (RmtMem m) ?u = rd (RmtMem m) s"
    by simp_all
  show "ro_data_ptr (robj ch ?u) = ro_data_ptr (robj ch s)" "ro_data_size (robj ch ?u) = ro_data_size (robj ch s)"
    using assms by (simp_all add: robj_upd_obj)
qed

text \<open>The item that refill \<open>j\<close> puts at index \<open>i\<close> of its half.\<close>

definition stream_item :: "nat \<Rightarrow> nat \<Rightarrow> nat \<Rightarrow> nat \<Rightarrow> rmt_soc \<Rightarrow> u32" where
  "stream_item p n j i s =
     (let v = (if 31 * j + i < n then data32 p (31 * j + i) s else PAD_ITEM)
      in if even j \<and> i = 0 then v - 1 else v)"

lemma chunk_shift:
  "rmt_ram t = rmt_ram s \<Longrightarrow> 31 * j < n
     \<Longrightarrow> chunk_item (p + 124 * j) (n - 31 * j) i t = (if 31 * j + i < n then data32 p (31 * j + i) s else PAD_ITEM)"
  by (simp add: chunk_item_def data32_def less_diff_conv algebra_simps)

lemma refill_step:
  assumes "ch < length (rmt_objects s)" and "ro_data_ptr (robj ch s) = p + 124 * j" and "p \<noteq> NULL"
    and "ro_data_size (robj ch s) = n - 31 * j" and "31 * j < n"
  defines "t \<equiv> (if even j then isr_thr ch else isr_tx_end ch) s"
  shows "rmt_ram t = rmt_ram s \<and> length (rmt_objects t) = length (rmt_objects s)
    \<and> ro_data_ptr (robj ch t) = (if 31 * Suc j < n then p + 124 * Suc j else NULL)
    \<and> (31 * Suc j < n \<longrightarrow> ro_data_size (robj ch t) = n - 31 * Suc j)
    \<and> (\<forall>i < 31. rd (rmt_item ch (31 * (j mod 2) + i)) t = stream_item p n j i s)"
proof -
  have ptr: "p + 124 * j \<noteq> NULL"
    using assms(3) by simp
  show ?thesis
  proof (cases "even j")
    case True
    obtain u where u: "isr_thr ch s = rmt_tx_mem_first ch u" "rmt_ram u = rmt_ram s"
      "length (rmt_objects u) = length (rmt_objects s)" "ro_data_ptr (robj ch u) = p + 124 * j"
      "ro_data_size (robj ch u) = n - 31 * j"
      using isr_thr_first [OF assms(1)] assms(2,4) by metis
    note spec = tx_mem_first_spec [where ch = ch and s = u, unfolded u(2-5), OF ptr assms(1)]
    show ?thesis
      using assms(5) True spec
      by (auto simp: t_def u(1) rest_ptr_def rmt_item_def MAX_DATA_PER_CHANNEL_def stream_item_def
          first_item_def chunk_shift [OF u(2)] even_iff_mod_2_eq_zero)
  next
    case False
    define u where "u = int_clear (INT_TX_END ch) s"
    have u: "isr_tx_end ch s = rmt_tx_mem_second ch u" "rmt_ram u = rmt_ram s"
      "length (rmt_objects u) = length (rmt_objects s)" "ro_data_ptr (robj ch u) = p + 124 * j"
      "ro_data_size (robj ch u) = n - 31 * j"
      using assms(2,4) by (simp_all add: isr_tx_end_def u_def)
    note spec = tx_mem_second_spec [where ch = ch and s = u, unfolded u(2-5), OF ptr assms(1)]
    have "j mod 2 = 1"
      using False by presburger
    then show ?thesis
      using assms(5) False spec
      by (auto simp: t_def u(1) rest_ptr_def rmt_item_def MAX_DATA_PER_CHANNEL_def stream_item_def
          chunk_shift [OF u(2)] Let_def)
  qed
qed

lemma stream_item_cong: "rmt_ram t = rmt_ram s \<Longrightarrow> stream_item p n j i t = stream_item p n j i s"
  by (simp add: stream_item_def data32_def)

lemma refills_spec:
  assumes "ch < length (rmt_objects s)" and "ro_data_ptr (robj ch s) = p" and "p \<noteq> NULL"
    and "ro_data_size (robj ch s) = n" and "0 < n"
  shows "31 * j < n \<Longrightarrow>
      rmt_ram (refills ch j s) = rmt_ram s \<and> length (rmt_objects (refills ch j s)) = length (rmt_objects s)
      \<and> ro_data_ptr (robj ch (refills ch j s)) = p + 124 * j
      \<and> ro_data_size (robj ch (refills ch j s)) = n - 31 * j"
    and "31 * j < n \<Longrightarrow>
      (ro_data_ptr (robj ch (refills ch (Suc j) s)) = NULL \<longleftrightarrow> n \<le> 31 * Suc j)
      \<and> (\<forall>i < 31. rd (rmt_item ch (31 * (j mod 2) + i)) (refills ch (Suc j) s) = stream_item p n j i s)"
proof -
  have inv: "rmt_ram (refills ch j s) = rmt_ram s \<and> length (rmt_objects (refills ch j s)) = length (rmt_objects s)
      \<and> ro_data_ptr (robj ch (refills ch j s)) = p + 124 * j
      \<and> ro_data_size (robj ch (refills ch j s)) = n - 31 * j" if "31 * j < n" for j
    using that
  proof (induction j)
    case (Suc j)
    then have j: "31 * j < n" "ch < length (rmt_objects (refills ch j s))"
      "ro_data_ptr (robj ch (refills ch j s)) = p + 124 * j"
      "ro_data_size (robj ch (refills ch j s)) = n - 31 * j"
      "rmt_ram (refills ch j s) = rmt_ram s" "length (rmt_objects (refills ch j s)) = length (rmt_objects s)"
      using assms(1) by simp_all
    from refill_step [OF j(2,3) assms(3) j(4,1)] Suc.prems j(5,6) show ?case
      by simp
  qed (use assms in simp)
  show "31 * j < n \<Longrightarrow>
      rmt_ram (refills ch j s) = rmt_ram s \<and> length (rmt_objects (refills ch j s)) = length (rmt_objects s)
      \<and> ro_data_ptr (robj ch (refills ch j s)) = p + 124 * j
      \<and> ro_data_size (robj ch (refills ch j s)) = n - 31 * j"
    by (rule inv)
  assume j: "31 * j < n"
  note inv = inv [OF j]
  have ch: "ch < length (rmt_objects (refills ch j s))"
    using inv assms(1) by simp
  have "stream_item p n j i (refills ch j s) = stream_item p n j i s" for i
    using inv by (intro stream_item_cong) simp
  with refill_step [OF ch _ assms(3) _ j] inv assms(3) show
    "(ro_data_ptr (robj ch (refills ch (Suc j) s)) = NULL \<longleftrightarrow> n \<le> 31 * Suc j)
      \<and> (\<forall>i < 31. rd (rmt_item ch (31 * (j mod 2) + i)) (refills ch (Suc j) s) = stream_item p n j i s)"
    by (simp add: not_less)
qed

section \<open>Writing\<close>

lemma put_items_spec:
  "rmt_ram (put_items ch p n s) = rmt_ram s" "rmt_objects (put_items ch p n s) = rmt_objects s"
  "rmt_objlocks (put_items ch p n s) = rmt_objlocks s"
  "rd (RmtMem m) (put_items ch p n s) =
     (if m = 64 * ch + n then 0
      else if 64 * ch \<le> m \<and> m < 64 * ch + n then data32 p (m - 64 * ch) s else rd (RmtMem m) s)"
  using put_map [where g = "data32 p" and ch = ch and base = 0 and n = n and s = s, OF data32_cong]
  by (simp_all add: put_items_def exec_append rmt_item_def MAX_DATA_PER_CHANNEL_def rd_wr)

lemma rmtSendOnce_spec:
  assumes "rmt_objlocks s ch = LiveSem" and "ro_channel (robj k s) = ch" and "p \<noteq> NULL" and "0 < n"
  obtains t where "rmtSendOnce (Some k) p n s = Some (True, t)" "rmt_ram t = rmt_ram s"
    "rmt_objects t = rmt_objects s" "getf (Rmt (rconf1 ch)) tx_start t = 1"
    "\<And>m. rd (RmtMem m) t =
     (if m = 64 * ch + n then 0
      else if 64 * ch \<le> m \<and> m < 64 * ch + n then data32 p (m - 64 * ch) s else rd (RmtMem m) s)"
proof
  let ?u = "put_items ch p n (setf (Rmt rapb_conf) fifo_mask 1 s)"
  let ?t = "ext (SemGive (RmtLock ch)) (exec [setf (Rmt (rconf1 ch)) mem_rd_rst 1,
      setf (Rmt (rconf1 ch)) tx_start 1] (ext (SemTake (RmtLock ch)) ?u))"
  have "rmt_guarded ch [setf (Rmt (rconf1 ch)) mem_rd_rst 1, setf (Rmt (rconf1 ch)) tx_start 1] ?u = Some ?t"
    using assms(1) by (subst rmt_guarded_eq) (auto simp: put_items_spec)
  with assms show "rmtSendOnce (Some k) p n s = Some (True, ?t)"
    by (simp add: rmtSendOnce_def on_rmt_def)
  show "rmt_ram ?t = rmt_ram s" "rmt_objects ?t = rmt_objects s"
    by (simp_all add: put_items_spec)
  show "getf (Rmt (rconf1 ch)) tx_start ?t = 1"
    by (simp add: getf_steps tx_start_def bf_get_put_same)
  show "rd (RmtMem m) ?t =
     (if m = 64 * ch + n then 0
      else if 64 * ch \<le> m \<and> m < 64 * ch + n then data32 p (m - 64 * ch) s else rd (RmtMem m) s)" for m
    by (simp add: put_items_spec data32_def)
qed

text \<open>
  C21: A write that fits the channel's memory puts the data there in order, ends it with an empty item and
  starts the transmitter. A write that just fits puts the end item into the first item of the next
  channel's memory, whoever owns it.
\<close>

theorem rmtWrite_short:
  assumes "rmt_objlocks s ch = LiveSem" and "ro_channel (robj k s) = ch" and "p \<noteq> NULL" and "0 < n"
    and "n \<le> 64 * ro_buffers (robj k s)"
  shows "\<exists>t. rmtWrite h (Some k) p n s = Some (True, t)
    \<and> (\<forall>i < n. rd (rmt_item ch i) t = data32 p i s) \<and> rd (rmt_item ch n) t = 0
    \<and> getf (Rmt (rconf1 ch)) tx_start t = 1
    \<and> (n = 64 * ro_buffers (robj k s) \<longrightarrow> rd (rmt_item (ch + ro_buffers (robj k s)) 0) t = 0)"
proof -
  obtain t where "rmtSendOnce (Some k) p n s = Some (True, t)" "getf (Rmt (rconf1 ch)) tx_start t = 1"
    "\<And>m. rd (RmtMem m) t =
     (if m = 64 * ch + n then 0
      else if 64 * ch \<le> m \<and> m < 64 * ch + n then data32 p (m - 64 * ch) s else rd (RmtMem m) s)"
    using rmtSendOnce_spec [OF assms(1-4)] by metis
  then show ?thesis
    using assms(5) by (auto simp: rmtWrite_def rmt_item_def MAX_DATA_PER_CHANNEL_def Let_def not_less)
qed

definition rmt_sender :: rmt_soc where
  "rmt_sender = (upd_obj 2 (\<lambda>r. r\<lparr>ro_channel := 2, ro_buffers := 1, ro_allocated := True\<rparr>) rmt_fresh)
     \<lparr>rmt_objlocks := (\<lambda>_. LiveSem), rmt_ram := (\<lambda>_. 7)\<rparr>"

lemma rmt_sender:
  "rmt_objlocks rmt_sender 2 = LiveSem" "ro_channel (robj 2 rmt_sender) = 2" "ro_buffers (robj 2 rmt_sender) = 1"
  "length (rmt_objects rmt_sender) = 8" "data32 p i rmt_sender = 0x07070707"
proof -
  have "robj 2 rmt_sender = robj 2 (upd_obj 2 (\<lambda>r. r\<lparr>ro_channel := 2, ro_buffers := 1, ro_allocated := True\<rparr>) rmt_fresh)"
    by (rule robj_cong) (simp add: rmt_sender_def)
  then show "ro_channel (robj 2 rmt_sender) = 2" "ro_buffers (robj 2 rmt_sender) = 1"
    by (simp_all add: robj_upd_obj MAX_CHANNELS_def)
  show "rmt_objlocks rmt_sender 2 = LiveSem" "length (rmt_objects rmt_sender) = 8"
    by (simp_all add: rmt_sender_def MAX_CHANNELS_def)
  have "load32 (\<lambda>_. 7) a = 0x07070707" for a
    unfolding load32_def by code_simp
  then show "data32 p i rmt_sender = 0x07070707"
    by (simp add: rmt_sender_def data32_def)
qed

theorem rmtWrite_short_witness:
  "\<exists>t. rmtWrite 0 (Some 2) 4096 64 rmt_sender = Some (True, t)
     \<and> rd (rmt_item 2 63) t = 0x07070707 \<and> rd (rmt_item 3 0) t = 0"
proof -
  have "(4096::nat) \<noteq> NULL" "(0::nat) < 64" "(64::nat) \<le> 64 * ro_buffers (robj 2 rmt_sender)"
    by (simp_all add: rmt_sender)
  from rmtWrite_short [OF rmt_sender(1,2) this, of 0] show ?thesis
    by (auto simp: rmt_sender)
qed

lemma stream_setup_spec:
  fixes k p n s h
  defines "t \<equiv> exec (stream_setup h k k p n) s"
  assumes "k < length (rmt_objects s)"
  shows "rmt_ram t = rmt_ram s" "length (rmt_objects t) = length (rmt_objects s)" "rmt_objlocks t = rmt_objlocks s"
    "ro_data_ptr (robj k t) = p + 248" "ro_data_size (robj k t) = n - 62" "ro_channel (robj k t) = ro_channel (robj k s)"
proof -
  have install: "rmt_ram (rmt_install h u) = rmt_ram u" "robj k (rmt_install h u) = robj k u" for u
    by (simp_all add: rmt_install_def robj_def)
  show "rmt_ram t = rmt_ram s" "length (rmt_objects t) = length (rmt_objects s)" "rmt_objlocks t = rmt_objlocks s"
    "ro_data_ptr (robj k t) = p + 248" "ro_data_size (robj k t) = n - 62" "ro_channel (robj k t) = ro_channel (robj k s)"
    using assms(2) by (simp_all add: t_def stream_setup_def install robj_upd_obj MAX_DATA_PER_ITTERATION_def)
qed

lemma stream_setup_locks:
  "f \<in> set (stream_setup h k c p n) \<Longrightarrow> rmt_objlocks (f s) = rmt_objlocks s"
  by (auto simp: stream_setup_def int_clear_def int_enable_def set_peri_reg_mask_def)

text \<open>
  C17: A write too long for the channel's memory is streamed without loss: the first 62 items go out at
  once, followed by an end marker, and refill \<open>j\<close> of the interrupts puts the items from \<open>62 + 31 j\<close> on,
  in order, into the half of the memory whose turn it is, with padding after the last one. The first item
  of every even refill is sent one tick short. The driver drops the caller's buffer exactly with the
  refill that sends the last item.
\<close>

theorem rmtWrite_streams:
  assumes "rmt_objlocks s k = LiveSem" and "ro_channel (robj k s) = k" and "k < length (rmt_objects s)"
    and "p \<noteq> NULL" and "0 < ro_buffers (robj k s)" and "64 * ro_buffers (robj k s) < n"
  shows "\<exists>t. rmtWrite h (Some k) p n s = Some (True, t)
    \<and> (\<forall>i < 62. rd (rmt_item k i) t = data32 p i s) \<and> rd (rmt_item k 62) t = 0
    \<and> (\<forall>j. 62 + 31 * j < n \<longrightarrow>
        (ro_data_ptr (robj k (refills k (Suc j) t)) = NULL \<longleftrightarrow> n \<le> 62 + 31 * Suc j)
        \<and> (\<forall>i < 31. rd (rmt_item k (31 * (j mod 2) + i)) (refills k (Suc j) t) =
             (let v = (if 62 + 31 * j + i < n then data32 p (62 + 31 * j + i) s else PAD_ITEM)
              in if even j \<and> i = 0 then v - 1 else v)))"
proof -
  let ?v = "ext (SemTake (RmtLock k)) s"
  define u where "u = ext (SemGive (RmtLock k)) (exec (stream_setup h k k p n) ?v)"
  have guarded: "rmt_guarded k (stream_setup h k k p n) s = Some u"
    using assms(1) by (subst rmt_guarded_eq) (auto simp: u_def stream_setup_locks)
  have k: "k < length (rmt_objects ?v)"
    using assms(3) by simp
  note prepared = stream_setup_spec [where h = h and p = p and n = n, OF k]
  have u: "rmt_ram u = rmt_ram s" "length (rmt_objects u) = length (rmt_objects s)" "rmt_objlocks u k = LiveSem"
    "ro_data_ptr (robj k u) = p + 248" "ro_data_size (robj k u) = n - 62" "ro_channel (robj k u) = k"
    using assms(1,2) by (simp_all add: u_def prepared)
  obtain t where t: "rmtSendOnce (Some k) p 62 u = Some (True, t)" "rmt_ram t = rmt_ram u"
    "rmt_objects t = rmt_objects u"
    "\<And>m. rd (RmtMem m) t =
     (if m = 64 * k + 62 then 0
      else if 64 * k \<le> m \<and> m < 64 * k + 62 then data32 p (m - 64 * k) u else rd (RmtMem m) u)"
    by (rule rmtSendOnce_spec [OF u(3,6) assms(4) zero_less_numeral]) (rule that)
  have n: "62 < n"
    using assms(5,6) by simp
  have wrote: "rmtWrite h (Some k) p n s = Some (True, t)"
    using assms(2,6) guarded t(1) by (simp add: rmtWrite_def Let_def MAX_DATA_PER_CHANNEL_def MAX_DATA_PER_ITTERATION_def)
  have items: "(\<forall>i < 62. rd (rmt_item k i) t = data32 p i s) \<and> rd (rmt_item k 62) t = 0"
    by (simp add: rmt_item_def MAX_DATA_PER_CHANNEL_def t(4) data32_def u(1))
  have chunk: "stream_item (p + 248) (n - 62) j i t =
      (let v = (if 62 + 31 * j + i < n then data32 p (62 + 31 * j + i) s else PAD_ITEM)
       in if even j \<and> i = 0 then v - 1 else v)" for j i
    using n by (auto simp: stream_item_def data32_def t(2) u(1) Let_def less_diff_conv algebra_simps)
  have rest: "(ro_data_ptr (robj k (refills k (Suc j) t)) = NULL \<longleftrightarrow> n \<le> 62 + 31 * Suc j)
        \<and> (\<forall>i < 31. rd (rmt_item k (31 * (j mod 2) + i)) (refills k (Suc j) t) =
             (let v = (if 62 + 31 * j + i < n then data32 p (62 + 31 * j + i) s else PAD_ITEM)
              in if even j \<and> i = 0 then v - 1 else v))" if j: "62 + 31 * j < n" for j
  proof -
    have "31 * j < n - 62" "k < length (rmt_objects t)" "ro_data_ptr (robj k t) = p + 248" "p + 248 \<noteq> NULL"
      "ro_data_size (robj k t) = n - 62" "0 < n - 62"
      using j n assms(3) u by (simp_all add: t(3) robj_cong [OF t(3)])
    from refills_spec(2) [OF this(2-6) this(1)] show ?thesis
      using n by (simp add: chunk le_diff_conv)
  qed
  show ?thesis
    using wrote items rest by blast
qed

theorem rmtWrite_streams_witness:
  "\<exists>t. rmtWrite 0 (Some 2) 4096 100 rmt_sender = Some (True, t)
     \<and> rd (rmt_item 2 0) (refills 2 1 t) = 0x07070706 \<and> rd (rmt_item 2 38) (refills 2 2 t) = PAD_ITEM
     \<and> ro_data_ptr (robj 2 (refills 2 2 t)) = NULL"
proof -
  have "(2::nat) < length (rmt_objects rmt_sender)" "(4096::nat) \<noteq> NULL" "0 < ro_buffers (robj 2 rmt_sender)"
    "64 * ro_buffers (robj 2 rmt_sender) < 100"
    by (simp_all add: rmt_sender)
  from rmtWrite_streams [OF rmt_sender(1,2) this, of 0] obtain t
    where t: "rmtWrite 0 (Some 2) 4096 100 rmt_sender = Some (True, t)"
    and all: "\<And>j. 62 + 31 * j < 100 \<Longrightarrow>
        (ro_data_ptr (robj 2 (refills 2 (Suc j) t)) = NULL \<longleftrightarrow> 100 \<le> 62 + 31 * Suc j)
        \<and> (\<forall>i < 31. rd (rmt_item 2 (31 * (j mod 2) + i)) (refills 2 (Suc j) t) =
             (let v = (if 62 + 31 * j + i < 100 then data32 4096 (62 + 31 * j + i) rmt_sender else PAD_ITEM)
              in if even j \<and> i = 0 then v - 1 else v))"
    by blast
  from all [of 0] all [of 1] have "rd (rmt_item 2 0) (refills 2 1 t) = 0x07070706"
    "rd (rmt_item 2 (31 + 7)) (refills 2 2 t) = PAD_ITEM" "ro_data_ptr (robj 2 (refills 2 2 t)) = NULL"
    by (auto simp: rmt_sender Let_def eval_nat_numeral simp del: refills.simps)
  with t show ?thesis
    by auto
qed

section \<open>The time base\<close>

text \<open>
  The tick \<open>rmtSetTick\<close> chooses is the coarser of the two the clocks allow below the wanted one: never
  longer than asked for, at most 12.5 ns shorter within the range of the APB clock (3.2 us) and at most
  1 us shorter within that of the reference clock (256 us). It is not the nearest one.
\<close>

theorem rmtSetTick_below:
  assumes "0 \<le> tick"
  shows "fst (rmtSetTick (Some k) tick s) \<le> tick
    \<and> fst (rmtSetTick (Some k) tick s) =
        max (25 / 2 * of_int (min 256 \<lfloor>tick / (25 / 2)\<rfloor>)) (1000 * of_int (min 256 \<lfloor>tick / 1000\<rfloor>))
    \<and> (tick < 3200 \<longrightarrow> tick - fst (rmtSetTick (Some k) tick s) < 25 / 2)
    \<and> (tick < 256000 \<longrightarrow> tick - fst (rmtSetTick (Some k) tick s) < 1000)"
proof -
  define a where "a = 25 / 2 * (of_int (min 256 \<lfloor>tick / (25 / 2)\<rfloor>) :: rat)"
  define r where "r = 1000 * (of_int (min 256 \<lfloor>tick / 1000\<rfloor>) :: rat)"
  have trunc: "C_trunc (LIMIT x 256) = min 256 \<lfloor>x\<rfloor>" if "0 \<le> x" for x
    using that by (auto simp: C_trunc_def LIMIT_def min_def le_floor_iff floor_less_iff le_less_trans)
  have floor: "of_int \<lfloor>x\<rfloor> \<le> x" "x < of_int \<lfloor>x\<rfloor> + 1" for x :: rat
    by linarith+
  have a: "a \<le> tick" "tick < 3200 \<Longrightarrow> tick - a < 25 / 2"
    using floor [of "tick / (25 / 2)"] by (auto simp: a_def min_def le_floor_iff floor_less_iff not_le)
  have r: "r \<le> tick" "tick < 256000 \<Longrightarrow> tick - r < 1000"
    using floor [of "tick / 1000"] by (auto simp: r_def min_def le_floor_iff floor_less_iff not_le)
  have "fst (rmtSetTick (Some k) tick s) = (if ABS_diff a tick < ABS_diff r tick then a else r)"
    using assms by (simp add: rmtSetTick_def Let_def trunc a_def r_def)
  also have "\<dots> = max a r"
    using a(1) r(1) by (auto simp: ABS_diff_def max_def)
  finally have "fst (rmtSetTick (Some k) tick s) = max a r" .
  with a r show ?thesis
    unfolding a_def [symmetric] r_def [symmetric] by (auto simp: max_def)
qed

theorem rmtSetTick_below_witness:
  "fst (rmtSetTick (Some 0) 1999 rmt_fresh) \<le> 1999 \<and> 1999 - fst (rmtSetTick (Some 0) 1999 rmt_fresh) < 25 / 2"
proof -
  have "(0::rat) \<le> 1999" "(1999::rat) < 3200"
    by simp_all
  with rmtSetTick_below [of 1999 0 rmt_fresh] show ?thesis
    by blast
qed

end
