(* ===== verification/I2c.thy ===== *)
theory I2c
  imports Gpio CMem Mutex
begin

text \<open>
  The I2C driver \<^verbatim>\<open>esp32-hal-i2c.c\<close>: two bus controllers that execute a list of at most 16 commands.
  A transaction is a queue of elements, each an address with a buffer to send or to fill; the driver
  turns the queue into commands, refills them when the controller reaches an \<open>END\<close> command, and moves
  bytes between the buffers and the two hardware FIFOs from its interrupt. A handle is \<^verbatim>\<open>NULL\<close> or an
  entry of \<^verbatim>\<open>_i2c_bus_array\<close>.

  The queue pointer \<^verbatim>\<open>dq\<close> is NULL exactly while the queue is empty, and \<^verbatim>\<open>queueCount\<close> is its length.
  Buffers are addresses in \<open>i2c_ram\<close>. Log messages and the debug dumps, which are compiled out, are
  left out, as is the request to switch tasks at the end of the interrupt.
\<close>

section \<open>State and registers\<close>

type_synonym i16 = "16 word"

text \<open>
  One queue element: the buffer and the bit fields of its control word. Lengths and positions are the
  code's 16-bit counters; each is only raised below the length or lowered by what it holds.
\<close>

record dq_elem =
  dq_data :: nat
  dq_length :: nat
  dq_position :: nat
  dq_cmdBytesNeeded :: nat
  ct_addr :: u16
  ct_mode :: nat
  ct_stop :: bool
  ct_startCmdSent :: bool
  ct_addrCmdSent :: bool
  ct_dataCmdSent :: bool
  ct_stopCmdSent :: bool
  ct_addrReq :: nat
  ct_addrSent :: nat
  dq_queueEvent :: ptr

datatype i2c_stage = STAGE_NONE | I2C_STARTUP | I2C_RUNNING | I2C_DONE
datatype i2c_mode = I2C_NONE | I2C_MASTER | I2C_SLAVE | I2C_MASTERSLAVE

datatype i2c_error =
    NO_ERROR | I2C_OK | I2C_ERROR | I2C_ADDR_NAK | I2C_DATA_NAK | I2C_ARBITRATION | I2C_TIMEOUT

datatype i2c_err_t =
    I2C_ERROR_OK | I2C_ERROR_DEV | I2C_ERROR_ACK | I2C_ERROR_TIMEOUT | I2C_ERROR_BUS | I2C_ERROR_BUSY
  | I2C_ERROR_MEMORY | I2C_ERROR_CONTINUE | I2C_ERROR_NO_BEGIN

record i2c_obj =
  ob_sda :: int
  ob_scl :: int
  ob_mode :: i2c_mode
  ob_stage :: i2c_stage
  ob_error :: i2c_error
  ob_event :: ptr
  ob_intr :: ptr
  ob_dq :: "dq_elem list"
  ob_queuePos :: nat
  ob_errorByteCnt :: i16
  ob_errorQueue :: nat
  ob_exitCode :: u32
  ob_debugFlags :: u32

record i2c_soc = soc +
  i2c_lock :: "nat \<Rightarrow> bool"
  i2c_bus :: "nat \<Rightarrow> i2c_obj"
  i2c_ram :: mem

type_synonym i2c_t = "nat option"

definition i2c_obj_init :: i2c_obj where
  "i2c_obj_init =
     \<lparr>ob_sda = -1, ob_scl = -1, ob_mode = I2C_NONE, ob_stage = STAGE_NONE, ob_error = NO_ERROR,
      ob_event = NULL, ob_intr = NULL, ob_dq = [], ob_queuePos = 0, ob_errorByteCnt = 0,
      ob_errorQueue = 0, ob_exitCode = 0, ob_debugFlags = 0\<rparr>"

definition i2c_boot :: "mem \<Rightarrow> soc \<Rightarrow> i2c_soc" where
  "i2c_boot m s = soc.extend s
     \<lparr>i2c_lock = (\<lambda>_. False), i2c_bus = (\<lambda>_. i2c_obj_init), i2c_ram = m\<rparr>"

text \<open>
  The controller as the driver sees it: what it does before a reading of its status, on a store to the
  FIFO register, and on a reading of it; and what the bus does to the pins before a reading of them.
\<close>

record i2c_hw =
  hw_status :: "nat \<Rightarrow> regfile \<Rightarrow> regfile"
  hw_push :: "nat \<Rightarrow> regfile \<Rightarrow> regfile"
  hw_pop :: "nat \<Rightarrow> regfile \<Rightarrow> regfile"
  hw_pins :: "regfile \<Rightarrow> regfile"

definition I2C_SCL_IDX :: "nat \<Rightarrow> u8" where
  "I2C_SCL_IDX p = (if p = 0 then 29 else if p = 1 then 95 else 0)"

definition I2C_SDA_IDX :: "nat \<Rightarrow> u8" where
  "I2C_SDA_IDX p = (if p = 0 then 30 else if p = 1 then 96 else 0)"

definition APB_CLK_HZ :: u32 where "APB_CLK_HZ = 80000000"

definition EVENT_ERROR_NAK :: u32 where "EVENT_ERROR_NAK = BIT 0"
definition EVENT_ERROR :: u32 where "EVENT_ERROR = BIT 1"
definition EVENT_ERROR_BUS_BUSY :: u32 where "EVENT_ERROR_BUS_BUSY = BIT 2"
definition EVENT_DONE :: u32 where "EVENT_DONE = BIT 4"
definition EVENT_ERROR_PREV :: u32 where "EVENT_ERROR_PREV = BIT 6"
definition EVENT_ERROR_TIMEOUT :: u32 where "EVENT_ERROR_TIMEOUT = BIT 7"
definition EVENT_ERROR_ARBITRATION :: u32 where "EVENT_ERROR_ARBITRATION = BIT 8"
definition EVENT_ERROR_DATA_NAK :: u32 where "EVENT_ERROR_DATA_NAK = BIT 9"
definition EVENT_MASK :: u32 where "EVENT_MASK = 0x3F"

lemmas i2c_events =
  EVENT_ERROR_NAK_def EVENT_ERROR_def EVENT_ERROR_BUS_BUSY_def EVENT_DONE_def EVENT_ERROR_PREV_def
  EVENT_ERROR_TIMEOUT_def EVENT_ERROR_ARBITRATION_def EVENT_ERROR_DATA_NAK_def EVENT_MASK_def

definition I2C_CMD_RSTART :: u32 where "I2C_CMD_RSTART = 0"
definition I2C_CMD_WRITE :: u32 where "I2C_CMD_WRITE = 1"
definition I2C_CMD_READ :: u32 where "I2C_CMD_READ = 2"
definition I2C_CMD_STOP :: u32 where "I2C_CMD_STOP = 3"
definition I2C_CMD_END :: u32 where "I2C_CMD_END = 4"

lemmas i2c_cmds =
  I2C_CMD_RSTART_def I2C_CMD_WRITE_def I2C_CMD_READ_def I2C_CMD_STOP_def I2C_CMD_END_def

definition c_byte_num :: bfield where "c_byte_num = (0, 8)"
definition c_ack_en :: bfield where "c_ack_en = (8, 1)"
definition c_ack_exp :: bfield where "c_ack_exp = (9, 1)"
definition c_ack_val :: bfield where "c_ack_val = (10, 1)"
definition c_op_code :: bfield where "c_op_code = (11, 3)"
definition sda_force_out :: bfield where "sda_force_out = (0, 1)"
definition scl_force_out :: bfield where "scl_force_out = (1, 1)"
definition ms_mode :: bfield where "ms_mode = (4, 1)"
definition trans_start :: bfield where "trans_start = (5, 1)"
definition clk_en :: bfield where "clk_en = (8, 1)"
definition bus_busy :: bfield where "bus_busy = (4, 1)"
definition rx_fifo_cnt :: bfield where "rx_fifo_cnt = (8, 6)"
definition tx_fifo_cnt :: bfield where "tx_fifo_cnt = (18, 6)"
definition tout :: bfield where "tout = (0, 20)"
definition rx_fifo_full_thrhd :: bfield where "rx_fifo_full_thrhd = (0, 5)"
definition tx_fifo_empty_thrhd :: bfield where "tx_fifo_empty_thrhd = (5, 5)"
definition nonfifo_en :: bfield where "nonfifo_en = (10, 1)"
definition fifo_addr_cfg_en :: bfield where "fifo_addr_cfg_en = (11, 1)"
definition rx_fifo_rst :: bfield where "rx_fifo_rst = (12, 1)"
definition tx_fifo_rst :: bfield where "tx_fifo_rst = (13, 1)"
definition nonfifo_tx_thres :: bfield where "nonfifo_tx_thres = (20, 6)"
definition i_rx_full :: bfield where "i_rx_full = (0, 1)"
definition i_tx_empty :: bfield where "i_tx_empty = (1, 1)"
definition i_end_detect :: bfield where "i_end_detect = (3, 1)"
definition i_slave_tran_comp :: bfield where "i_slave_tran_comp = (4, 1)"
definition i_trans_complete :: bfield where "i_trans_complete = (7, 1)"
definition i_time_out :: bfield where "i_time_out = (8, 1)"
definition i_trans_start :: bfield where "i_trans_start = (9, 1)"
definition scl_period :: bfield where "scl_period = (0, 14)"
definition scl_time :: bfield where "scl_time = (0, 10)"
definition stop_time :: bfield where "stop_time = (0, 14)"

lemmas i2c_cmd_fields = c_byte_num_def c_ack_en_def c_ack_exp_def c_ack_val_def c_op_code_def
lemmas i2c_fields =
  sda_force_out_def scl_force_out_def ms_mode_def trans_start_def clk_en_def bus_busy_def
  rx_fifo_cnt_def tx_fifo_cnt_def tout_def rx_fifo_full_thrhd_def tx_fifo_empty_thrhd_def
  nonfifo_en_def fifo_addr_cfg_en_def rx_fifo_rst_def tx_fifo_rst_def nonfifo_tx_thres_def
  i_rx_full_def i_tx_empty_def i_end_detect_def i_slave_tran_comp_def i_trans_complete_def
  i_time_out_def i_trans_start_def scl_period_def scl_time_def stop_time_def

definition upd_bus :: "nat \<Rightarrow> (i2c_obj \<Rightarrow> i2c_obj) \<Rightarrow> 'a i2c_soc_scheme \<Rightarrow> 'a i2c_soc_scheme" where
  "upd_bus n f s = s\<lparr>i2c_bus := (i2c_bus s)(n := f (i2c_bus s n))\<rparr>"

definition dq_at :: "nat \<Rightarrow> nat \<Rightarrow> 'a i2c_soc_scheme \<Rightarrow> dq_elem" where
  "dq_at n a s = ob_dq (i2c_bus s n) ! a"

definition queueCount :: "nat \<Rightarrow> 'a i2c_soc_scheme \<Rightarrow> nat" where
  "queueCount n s = length (ob_dq (i2c_bus s n))"

definition queuePos :: "nat \<Rightarrow> 'a i2c_soc_scheme \<Rightarrow> nat" where
  "queuePos n s = ob_queuePos (i2c_bus s n)"

definition upd_dq ::
  "nat \<Rightarrow> nat \<Rightarrow> (dq_elem \<Rightarrow> dq_elem) \<Rightarrow> 'a i2c_soc_scheme \<Rightarrow> 'a i2c_soc_scheme" where
  "upd_dq n a f = upd_bus n (\<lambda>b. b\<lparr>ob_dq := (ob_dq b)[a := f (ob_dq b ! a)]\<rparr>)"

section \<open>The command list\<close>

definition cmd_word :: "u32 \<Rightarrow> u32 \<Rightarrow> bool \<Rightarrow> bool \<Rightarrow> bool \<Rightarrow> u32" where
  "cmd_word op_code byte_num ack_val ack_exp ack_check =
     bf_put c_op_code op_code (bf_put c_byte_num byte_num (bf_put c_ack_val (of_flag ack_val)
       (bf_put c_ack_exp (of_flag ack_exp) (bf_put c_ack_en (of_flag ack_check) 0))))"

definition i2cSetCmd ::
  "nat \<Rightarrow> nat \<Rightarrow> u32 \<Rightarrow> u32 \<Rightarrow> bool \<Rightarrow> bool \<Rightarrow> bool \<Rightarrow> 'a i2c_soc_scheme \<Rightarrow> 'a i2c_soc_scheme" where
  "i2cSetCmd n index op_code byte_num ack_val ack_exp ack_check =
     wr (I2c n (icommand index)) (cmd_word op_code byte_num ack_val ack_exp ack_check)"

text \<open>The local variables of \<^verbatim>\<open>fillCmdQueue\<close> extend the state while it runs.\<close>

record i2c_fill = i2c_soc +
  v_cmdIdx :: nat
  v_qp :: nat
  v_done :: bool
  v_ena_rx :: bool
  v_ena_tx :: bool

definition tdq :: "nat \<Rightarrow> i2c_fill \<Rightarrow> dq_elem" where
  "tdq n s = dq_at n (v_qp s) s"

definition upd_tdq :: "nat \<Rightarrow> (dq_elem \<Rightarrow> dq_elem) \<Rightarrow> i2c_fill \<Rightarrow> i2c_fill" where
  "upd_tdq n f s = upd_dq n (v_qp s) f s"

text \<open>\<^verbatim>\<open>i2cSetCmd(i2c, cmdIdx++, ...)\<close>\<close>

definition add_cmd :: "nat \<Rightarrow> u32 \<Rightarrow> u32 \<Rightarrow> bool \<Rightarrow> bool \<Rightarrow> i2c_fill \<Rightarrow> i2c_fill" where
  "add_cmd n op_code byte_num ack_val ack_check s =
     (i2cSetCmd n (v_cmdIdx s) op_code byte_num ack_val False ack_check s)
       \<lparr>v_cmdIdx := v_cmdIdx s + 1\<rparr>"

definition full_now :: "i2c_fill \<Rightarrow> i2c_fill" where
  "full_now s = s\<lparr>v_done := 14 < v_cmdIdx s\<rparr>"

definition fill_start :: "nat \<Rightarrow> i2c_fill \<Rightarrow> i2c_fill" where
  "fill_start n s =
     (if \<not> ct_startCmdSent (tdq n s) \<and> v_cmdIdx s < 14
      then upd_tdq n (\<lambda>e. e\<lparr>ct_startCmdSent := True\<rparr>) (add_cmd n I2C_CMD_RSTART 0 False False s)
      else s)"

definition fill_addr :: "nat \<Rightarrow> i2c_fill \<Rightarrow> i2c_fill" where
  "fill_addr n s =
     (if \<not> v_done s \<and> ct_startCmdSent (tdq n s) \<and> \<not> ct_addrCmdSent (tdq n s)
      then exec [\<lambda>s. add_cmd n I2C_CMD_WRITE (of_nat (ct_addrReq (tdq n s))) False True s,
                 upd_tdq n (\<lambda>e. e\<lparr>ct_addrCmdSent := True\<rparr>),
                 full_now,
                 \<lambda>s. s\<lparr>v_ena_tx := True\<rparr>] s
      else s)"

definition blkSize :: "dq_elem \<Rightarrow> nat" where
  "blkSize e = (if 255 < dq_cmdBytesNeeded e then 255 else dq_cmdBytesNeeded e - ct_mode e)"

definition add_block :: "nat \<Rightarrow> i2c_fill \<Rightarrow> i2c_fill" where
  "add_block n s =
     (let blk = blkSize (tdq n s);
          s = upd_tdq n (\<lambda>e. e\<lparr>dq_cmdBytesNeeded := dq_cmdBytesNeeded e - blk\<rparr>) s;
          s = (if ct_mode (tdq n s) = 1
               then (add_cmd n I2C_CMD_READ (of_nat blk) False False s)\<lparr>v_ena_rx := True\<rparr>
               else (add_cmd n I2C_CMD_WRITE (of_nat blk) False True s)\<lparr>v_ena_tx := True\<rparr>)
      in full_now s)"

lemma v_cmdIdx_ops [simp]:
  "v_cmdIdx (upd_tdq n f s) = v_cmdIdx s"
  "v_cmdIdx (add_cmd n op b av ac s) = v_cmdIdx s + 1"
  "v_cmdIdx (full_now s) = v_cmdIdx s"
  "v_done (full_now s) = (14 < v_cmdIdx s)"
  by (simp_all add: upd_tdq_def upd_dq_def upd_bus_def add_cmd_def full_now_def)

lemma v_cmdIdx_block [simp]:
  "v_cmdIdx (add_block n s) = v_cmdIdx s + 1" "v_done (add_block n s) = (13 < v_cmdIdx s)"
  by (auto simp: add_block_def Let_def)

function data_blocks :: "nat \<Rightarrow> i2c_fill \<Rightarrow> i2c_fill" where
  "data_blocks n s =
     (if ct_mode (tdq n s) < dq_cmdBytesNeeded (tdq n s) \<and> \<not> v_done s
      then data_blocks n (add_block n s) else s)"
  by auto
termination
  by (relation "measure (\<lambda>(n, s). (15 - v_cmdIdx s) + of_bool (\<not> v_done s))") auto

declare data_blocks.simps [simp del]

definition fill_last_read :: "nat \<Rightarrow> i2c_fill \<Rightarrow> i2c_fill" where
  "fill_last_read n s =
     (if \<not> v_done s \<and> ct_mode (tdq n s) = 1 \<and> dq_cmdBytesNeeded (tdq n s) = 1
      then exec [add_cmd n I2C_CMD_READ 1 True False,
                 upd_tdq n (\<lambda>e. e\<lparr>dq_cmdBytesNeeded := 0\<rparr>),
                 full_now,
                 \<lambda>s. s\<lparr>v_ena_rx := True\<rparr>] s
      else s)"

definition fill_stop :: "nat \<Rightarrow> i2c_fill \<Rightarrow> i2c_fill" where
  "fill_stop n s =
     (if \<not> v_done s \<and> ct_dataCmdSent (tdq n s) \<and> \<not> ct_stopCmdSent (tdq n s)
      then upd_tdq n (\<lambda>e. e\<lparr>ct_stopCmdSent := True\<rparr>)
             (if ct_stop (tdq n s) then full_now (add_cmd n I2C_CMD_STOP 0 False False s) else s)
      else s)"

definition fill_data :: "nat \<Rightarrow> i2c_fill \<Rightarrow> i2c_fill" where
  "fill_data n s =
     (if \<not> v_done s \<and> ct_addrCmdSent (tdq n s)
      then exec [data_blocks n,
                 fill_last_read n,
                 upd_tdq n (\<lambda>e. e\<lparr>ct_dataCmdSent := dq_cmdBytesNeeded e = 0\<rparr>),
                 fill_stop n] s
      else s)"

text \<open>
  A START must not stand before the END: the last READ or WRITE is stretched by a command for no bytes,
  and what follows it moves up by one.
\<close>

definition is_transfer :: "u32 \<Rightarrow> bool" where
  "is_transfer c \<longleftrightarrow> bf_get c_op_code c = 1 \<or> bf_get c_op_code c = 2"

primrec stretch :: "nat \<Rightarrow> nat \<Rightarrow> 'a i2c_soc_scheme \<Rightarrow> 'a i2c_soc_scheme" where
  "stretch n 0 s =
     (let s = wr (I2c n (icommand 1)) (rd (I2c n (icommand 0)) s) s
      in if is_transfer (rd (I2c n (icommand 0)) s) then setf (I2c n (icommand 0)) c_byte_num 0 s else s)"
| "stretch n (Suc i) s =
     (let s = wr (I2c n (icommand (Suc i + 1))) (rd (I2c n (icommand (Suc i))) s) s
      in if is_transfer (rd (I2c n (icommand (Suc i))) s)
         then setf (I2c n (icommand (Suc i))) c_byte_num 0 s else stretch n i s)"

definition fill_stretch :: "nat \<Rightarrow> i2c_fill \<Rightarrow> i2c_fill" where
  "fill_stretch n s =
     (if v_cmdIdx s = 14 \<and> \<not> ct_startCmdSent (tdq n s)
      then (stretch n 13 (s\<lparr>v_cmdIdx := 15\<rparr>))\<lparr>v_done := True\<rparr> else s)"

definition fill_end :: "nat \<Rightarrow> i2c_fill \<Rightarrow> i2c_fill" where
  "fill_end n s =
     (if v_cmdIdx s = 15
      then exec [add_cmd n I2C_CMD_END 0 False False,
                 setf (I2c n iint_ena) i_end_detect 1,
                 setf (I2c n iint_clr) i_end_detect 1,
                 \<lambda>s. s\<lparr>v_done := True\<rparr>] s
      else s)"

definition fill_next :: "nat \<Rightarrow> i2c_fill \<Rightarrow> i2c_fill" where
  "fill_next n s =
     (if \<not> v_done s \<and> ct_stopCmdSent (tdq n s)
      then let s = s\<lparr>v_qp := v_qp s + 1\<rparr>
           in if v_qp s < queueCount n s then s else s\<lparr>v_done := True\<rparr>
      else s)"

definition fill_element :: "nat \<Rightarrow> i2c_fill \<Rightarrow> i2c_fill" where
  "fill_element n =
     exec [fill_start n, fill_addr n, fill_data n, fill_stretch n, fill_end n, fill_next n]"

partial_function (option) fill_loop :: "nat \<Rightarrow> i2c_fill \<Rightarrow> i2c_fill option" where
  "fill_loop n s = (if v_done s then Some s else fill_loop n (fill_element n s))"

text \<open>The first element from \<open>qp\<close> on that still needs commands, or the length of the queue.\<close>

fun first_open :: "dq_elem list \<Rightarrow> nat \<Rightarrow> nat" where
  "first_open [] qp = qp"
| "first_open (e # es) qp = (if ct_stopCmdSent e then first_open es (qp + 1) else qp)"

definition fillCmdQueue :: "nat \<Rightarrow> bool \<Rightarrow> i2c_soc \<Rightarrow> i2c_soc option" where
  "fillCmdQueue n INTS s =
     (let qp = first_open (drop (queuePos n s) (ob_dq (i2c_bus s n))) (queuePos n s)
      in case fill_loop n (i2c_soc.extend s
               \<lparr>v_cmdIdx = 0, v_qp = qp, v_done = (\<not> qp < queueCount n s), v_ena_rx = False, v_ena_tx = False\<rparr>)
         of None \<Rightarrow> None
          | Some u \<Rightarrow> Some (exec
              [\<lambda>s. if INTS \<and> v_ena_rx u then setf (I2c n iint_ena) i_rx_full 1 s else s,
               \<lambda>s. if INTS \<and> v_ena_tx u then setf (I2c n iint_ena) i_tx_empty 1 s else s]
              (i2c_soc.truncate u)))"

section \<open>The FIFOs\<close>

text \<open>Reading the status, and moving a byte through the FIFO register.\<close>

definition poll :: "i2c_hw \<Rightarrow> nat \<Rightarrow> 'a soc_scheme \<Rightarrow> 'a soc_scheme" where
  "poll H n = on_regs (hw_status H n)"

definition tx_cnt :: "nat \<Rightarrow> 'a soc_scheme \<Rightarrow> nat" where
  "tx_cnt n s = unat (getf (I2c n istatus) tx_fifo_cnt s)"

definition rx_cnt :: "nat \<Rightarrow> 'a soc_scheme \<Rightarrow> nat" where
  "rx_cnt n s = unat (getf (I2c n istatus) rx_fifo_cnt s)"

definition push_fifo :: "i2c_hw \<Rightarrow> nat \<Rightarrow> u8 \<Rightarrow> 'a soc_scheme \<Rightarrow> 'a soc_scheme" where
  "push_fifo H n b s = on_regs (hw_push H n) (wr (I2c n ififo_data) (ucast b) s)"

definition fifo_byte :: "nat \<Rightarrow> 'a soc_scheme \<Rightarrow> u8" where
  "fifo_byte n s = ucast (rd (I2c n ififo_data) s)"

definition pop_fifo :: "i2c_hw \<Rightarrow> nat \<Rightarrow> 'a soc_scheme \<Rightarrow> 'a soc_scheme" where
  "pop_fifo H n = on_regs (hw_pop H n)"

definition addr_hi :: "u16 \<Rightarrow> u8" where "addr_hi a = ucast (drop_bit 8 a AND 0xFF)"
definition addr_lo :: "u16 \<Rightarrow> u8" where "addr_lo a = ucast (a AND 0xFF)"

definition push_addr :: "i2c_hw \<Rightarrow> nat \<Rightarrow> nat \<Rightarrow> u8 \<Rightarrow> i2c_soc \<Rightarrow> i2c_soc" where
  "push_addr H n a b s =
     upd_dq n a (\<lambda>e. e\<lparr>ct_addrSent := ct_addrSent e + 1\<rparr>) (push_fifo H n b s)"

text \<open>The element is only reached while the FIFO is not full.\<close>

definition tx_addr :: "i2c_hw \<Rightarrow> nat \<Rightarrow> nat \<Rightarrow> i2c_soc \<Rightarrow> i2c_soc" where
  "tx_addr H n a s =
     (let e = dq_at n a s in
      if ct_addrSent e < ct_addrReq e then
        if ct_addrReq e = 2 then
          let s = (if ct_addrSent e = 0 then push_addr H n a (addr_hi (ct_addr e)) s else s);
              s = poll H n s
          in if ct_addrSent (dq_at n a s) = 1 \<and> tx_cnt n s < 31
             then push_addr H n a (addr_lo (ct_addr e)) s else s
        else if ct_addrSent e = 0 then push_addr H n a (addr_lo (ct_addr e)) s else s
      else s)"

text \<open>At most \<open>moveCnt\<close> bytes of the element's buffer.\<close>

primrec tx_bytes :: "i2c_hw \<Rightarrow> nat \<Rightarrow> nat \<Rightarrow> nat \<Rightarrow> i2c_soc \<Rightarrow> i2c_soc" where
  "tx_bytes H n a 0 s = s"
| "tx_bytes H n a (Suc moveCnt) s =
     (let e = dq_at n a s in
      if dq_position e < dq_length e
      then tx_bytes H n a moveCnt
             (upd_dq n a (\<lambda>e. e\<lparr>dq_position := dq_position e + 1\<rparr>)
               (push_fifo H n (i2c_ram s (dq_data e + dq_position e)) s))
      else s)"

text \<open>\<open>moveCnt\<close> is unsigned: more than 32 bytes in the FIFO would leave room for nearly \<open>2 ^ 32\<close>.\<close>

definition room :: "nat \<Rightarrow> 'a soc_scheme \<Rightarrow> nat" where
  "room n s = unat (32 - getf (I2c n istatus) tx_fifo_cnt s)"

definition tx_data :: "i2c_hw \<Rightarrow> nat \<Rightarrow> nat \<Rightarrow> i2c_soc \<Rightarrow> i2c_soc" where
  "tx_data H n a s =
     (if ct_addrSent (dq_at n a s) = ct_addrReq (dq_at n a s)
      then let s = poll H n s in tx_bytes H n a (room n s) s else s)"

text \<open>The elements from \<^verbatim>\<open>queuePos\<close> on, in order; false when the FIFO filled up before the last.\<close>

fun tx_elements :: "i2c_hw \<Rightarrow> nat \<Rightarrow> bool \<Rightarrow> nat list \<Rightarrow> i2c_soc \<Rightarrow> bool \<times> i2c_soc" where
  "tx_elements H n rxSeen [] s = (True, s)"
| "tx_elements H n rxSeen (a # as) s =
     (let s = tx_addr H n a s;
          write = (ct_mode (dq_at n a s) = 0);
          s = (if write then tx_data H n a s
               else if \<not> rxSeen \<and> queuePos n s < a then upd_bus n (\<lambda>b. b\<lparr>ob_queuePos := a\<rparr>) s
               else s);
          s = poll H n s
      in if tx_cnt n s < 31 then tx_elements H n (rxSeen \<or> \<not> write) as s else (False, s))"

definition fillTxFifo :: "i2c_hw \<Rightarrow> nat \<Rightarrow> i2c_soc \<Rightarrow> i2c_soc" where
  "fillTxFifo H n s =
     (let as = [queuePos n s..<queueCount n s];
          s = poll H n s;
          (all, s) = (if tx_cnt n s < 31 then tx_elements H n False as s else (as = [], s))
      in setf (I2c n iint_clr) i_tx_empty 1
           (if all then setf (I2c n iint_ena) i_tx_empty 0 s else s))"

text \<open>
  The code's search for the next element with room also reads the element behind the last one; what it
  reads there does not matter, because the index ends the loop.
\<close>

fun rx_slot :: "dq_elem list \<Rightarrow> nat \<Rightarrow> nat" where
  "rx_slot [] qp = qp"
| "rx_slot (e # es) qp = (if dq_length e \<le> dq_position e then rx_slot es (qp + 1) else qp)"

definition store_byte :: "i2c_hw \<Rightarrow> nat \<Rightarrow> nat \<Rightarrow> i2c_soc \<Rightarrow> i2c_soc" where
  "store_byte H n a s =
     (let e = dq_at n a s; d = fifo_byte n s
      in upd_dq n a (\<lambda>e. e\<lparr>dq_position := dq_position e + 1\<rparr>)
           ((pop_fifo H n s)\<lparr>i2c_ram := (i2c_ram s)(dq_data e + dq_position e := d)\<rparr>))"

partial_function (option) rx_loop :: "i2c_hw \<Rightarrow> nat \<Rightarrow> nat \<Rightarrow> i2c_soc \<Rightarrow> i2c_soc option" where
  "rx_loop H n moveCnt s =
     (if 0 < moveCnt \<and> queuePos n s < queueCount n s then
        let qp = rx_slot (drop (queuePos n s) (ob_dq (i2c_bus s n))) (queuePos n s);
            s = upd_bus n (\<lambda>b. b\<lparr>ob_queuePos := qp\<rparr>) s
        in if queueCount n s \<le> qp then Some ((pop_fifo H n ^^ moveCnt) s)
           else if ct_mode (dq_at n qp s) = 1 then
             let fits = min moveCnt (dq_length (dq_at n qp s) - dq_position (dq_at n qp s));
                 s = poll H n ((store_byte H n qp ^^ fits) s)
             in rx_loop H n (rx_cnt n s) s
           else Some ((pop_fifo H n ^^ moveCnt) s)
      else Some s)"

definition emptyRxFifo :: "i2c_hw \<Rightarrow> nat \<Rightarrow> i2c_soc \<Rightarrow> i2c_soc option" where
  "emptyRxFifo H n s = (let s = poll H n s in rx_loop H n (rx_cnt n s) s)"

section \<open>The interrupt\<close>

definition exit_error :: "u32 \<Rightarrow> i2c_error" where
  "exit_error eventCode =
     (if eventCode = EVENT_DONE then I2C_OK
      else if eventCode = EVENT_ERROR_NAK then I2C_ADDR_NAK
      else if eventCode = EVENT_ERROR_DATA_NAK then I2C_DATA_NAK
      else if eventCode = EVENT_ERROR_TIMEOUT then I2C_TIMEOUT
      else if eventCode = EVENT_ERROR_ARBITRATION then I2C_ARBITRATION
      else I2C_ERROR)"

definition i2cIsrExit :: "i2c_hw \<Rightarrow> nat \<Rightarrow> u32 \<Rightarrow> bool \<Rightarrow> i2c_soc \<Rightarrow> i2c_soc option" where
  "i2cIsrExit H n eventCode fatal s =
     (let exitCode = EVENT_DONE OR eventCode OR (if fatal then EVENT_ERROR else 0);
          s = upd_bus n (\<lambda>b. b\<lparr>ob_error := exit_error eventCode\<rparr>) s
      in run
        [\<lambda>s. if queuePos n s < queueCount n s \<and> ct_mode (dq_at n (queuePos n s) s) = 1
             then emptyRxFifo H n s else Some s,
         stmt (wr (I2c n iint_ena) 0),
         stmt (wr (I2c n iint_clr) 0x1FFF),
         stmt (upd_bus n (\<lambda>b. b\<lparr>ob_stage := I2C_DONE, ob_exitCode := exitCode\<rparr>)),
         stmt (\<lambda>s. ext (EventSet (ob_event (i2c_bus s n)) exitCode) s)] s)"

text \<open>
  The byte an error concerns, from the bytes moved so far. The counters are 16 bits wide and signed.
\<close>

definition bytes_moved :: "dq_elem list \<Rightarrow> i16" where
  "bytes_moved dq = fold (\<lambda>e c. c + of_nat (ct_addrSent e) + of_nat (dq_position e)) dq 0"

fun err_scan :: "dq_elem list \<Rightarrow> nat \<Rightarrow> i16 \<Rightarrow> nat \<times> i16" where
  "err_scan [] q bc = (q, bc)"
| "err_scan (e # es) q bc =
     (if 0 < sint bc then
        if sint bc \<le> int (ct_addrSent e) then (q, -1)
        else let bc = bc - of_nat (ct_addrSent e) in
             if sint bc < int (dq_length e) then (q, bc)
             else err_scan es (q + 1) (bc - of_nat (dq_length e))
      else (q, bc))"

definition i2c_update_error_byte_cnt :: "i2c_hw \<Rightarrow> nat \<Rightarrow> i2c_soc \<Rightarrow> i2c_soc" where
  "i2c_update_error_byte_cnt H n s =
     (let c = bytes_moved (ob_dq (i2c_bus s n));
          s = poll H n s;
          c = c - of_nat (tx_cnt n s);
          s = poll H n s;
          c = c + of_nat (rx_cnt n s);
          (q, bc) = err_scan (ob_dq (i2c_bus s n)) 0 c
      in upd_bus n (\<lambda>b. b\<lparr>ob_errorByteCnt := bc, ob_errorQueue := q\<rparr>) s)"

definition I_RXFIFO_FULL :: u32 where "I_RXFIFO_FULL = BIT 0"
definition I_TXFIFO_EMPTY :: u32 where "I_TXFIFO_EMPTY = BIT 1"
definition I_RXFIFO_OVF :: u32 where "I_RXFIFO_OVF = BIT 2"
definition I_END_DETECT :: u32 where "I_END_DETECT = BIT 3"
definition I_SLAVE_TRAN_COMP :: u32 where "I_SLAVE_TRAN_COMP = BIT 4"
definition I_ARBITRATION_LOST :: u32 where "I_ARBITRATION_LOST = BIT 5"
definition I_MASTER_TRAN_COMP :: u32 where "I_MASTER_TRAN_COMP = BIT 6"
definition I_TRANS_COMPLETE :: u32 where "I_TRANS_COMPLETE = BIT 7"
definition I_TIME_OUT :: u32 where "I_TIME_OUT = BIT 8"
definition I_TRANS_START :: u32 where "I_TRANS_START = BIT 9"
definition I_ACK_ERR :: u32 where "I_ACK_ERR = BIT 10"

lemmas i2c_ints =
  I_RXFIFO_FULL_def I_TXFIFO_EMPTY_def I_RXFIFO_OVF_def I_END_DETECT_def I_SLAVE_TRAN_COMP_def
  I_ARBITRATION_LOST_def I_MASTER_TRAN_COMP_def I_TRANS_COMPLETE_def I_TIME_OUT_def
  I_TRANS_START_def I_ACK_ERR_def

definition isr_trans_start :: "nat \<Rightarrow> i2c_soc \<Rightarrow> i2c_soc" where
  "isr_trans_start n = exec
     [\<lambda>s. if ob_stage (i2c_bus s n) = I2C_STARTUP then upd_bus n (\<lambda>b. b\<lparr>ob_stage := I2C_RUNNING\<rparr>) s else s,
      setf (I2c n iint_ena) i_trans_start 1,
      setf (I2c n iint_clr) i_trans_start 1]"

definition isr_rx_full :: "i2c_hw \<Rightarrow> nat \<Rightarrow> i2c_soc \<Rightarrow> i2c_soc option" where
  "isr_rx_full H n = run
     [emptyRxFifo H n,
      stmt (setf (I2c n iint_clr) i_rx_full 1),
      stmt (setf (I2c n iint_ena) i_rx_full 1)]"

definition isr_ack_err :: "i2c_hw \<Rightarrow> nat \<Rightarrow> i2c_soc \<Rightarrow> i2c_soc option" where
  "isr_ack_err H n s =
     (if ob_mode (i2c_bus s n) = I2C_MASTER then
        let s = i2c_update_error_byte_cnt H n s
        in if sint (ob_errorByteCnt (i2c_bus s n)) < 0
           then i2cIsrExit H n EVENT_ERROR_NAK True s
           else i2cIsrExit H n EVENT_ERROR_DATA_NAK True s
      else Some s)"

definition isr_end_detect :: "nat \<Rightarrow> i2c_soc \<Rightarrow> i2c_soc option" where
  "isr_end_detect n = run
     [stmt (setf (I2c n iint_ena) i_end_detect 0),
      stmt (setf (I2c n iint_clr) i_end_detect 1),
      stmt (setf (I2c n ictr) trans_start 0),
      fillCmdQueue n True,
      stmt (setf (I2c n ictr) trans_start 1)]"

text \<open>
  The body of the handler's loop, as conditional statements on the bits still to be served. The bits of
  interrupts it does not know, and of the slave interrupt, stay set.
\<close>

definition when_bit :: "u32 \<Rightarrow> u32 \<Rightarrow> (i2c_soc \<Rightarrow> i2c_soc option) \<Rightarrow> i2c_soc \<Rightarrow> i2c_soc option" where
  "when_bit act b f s = (if act AND b \<noteq> 0 then f s else Some s)"

definition isr_unhandled :: "nat \<Rightarrow> u32 \<Rightarrow> i2c_soc \<Rightarrow> i2c_soc" where
  "isr_unhandled n act = exec
     [wr (I2c n iint_clr) act,
      \<lambda>s. wr (I2c n iint_ena) (rd (I2c n iint_ena) s AND NOT act) s]"

definition isr_fifos :: "i2c_hw \<Rightarrow> nat \<Rightarrow> u32 \<Rightarrow> i2c_soc \<Rightarrow> i2c_soc option" where
  "isr_fifos H n act = run
     [when_bit act I_TRANS_START (stmt (isr_trans_start n)),
      when_bit act I_TXFIFO_EMPTY (stmt (fillTxFifo H n)),
      when_bit act I_RXFIFO_FULL (isr_rx_full H n)]"

definition isr_rest :: "nat \<Rightarrow> u32 \<Rightarrow> i2c_soc \<Rightarrow> i2c_soc option" where
  "isr_rest n act = run
     [when_bit act I_SLAVE_TRAN_COMP (stmt (setf (I2c n iint_clr) i_slave_tran_comp 1)),
      when_bit act I_END_DETECT (isr_end_detect n)]"

definition isr_time_out :: "i2c_hw \<Rightarrow> nat \<Rightarrow> i2c_soc \<Rightarrow> i2c_soc option" where
  "isr_time_out H n = run [stmt (setf (I2c n iint_clr) i_time_out 1), isr_rx_full H n]"

text \<open>One pass of the loop; no bits are left when the handler returns from inside it.\<close>

definition isr_pass :: "i2c_hw \<Rightarrow> nat \<Rightarrow> u32 \<Rightarrow> i2c_soc \<Rightarrow> (u32 \<times> i2c_soc) option" where
  "isr_pass H n act s =
     (case isr_fifos H n act s of
        None \<Rightarrow> None
      | Some s \<Rightarrow>
          let act = act AND NOT (I_TRANS_START OR I_TXFIFO_EMPTY OR I_RXFIFO_FULL) in
          if act AND I_ACK_ERR \<noteq> 0 then map_option (Pair 0) (isr_ack_err H n s)
          else (case when_bit act I_TIME_OUT (isr_time_out H n) s of
              None \<Rightarrow> None
            | Some s \<Rightarrow>
                let act = act AND NOT I_TIME_OUT in
                if act AND I_TRANS_COMPLETE \<noteq> 0
                then map_option (Pair 0)
                       (i2cIsrExit H n EVENT_DONE False (setf (I2c n iint_clr) i_trans_complete 1 s))
                else if act AND I_ARBITRATION_LOST \<noteq> 0
                then map_option (Pair 0) (i2cIsrExit H n EVENT_ERROR_ARBITRATION True s)
                else (case isr_rest n act s of
                    None \<Rightarrow> None
                  | Some s \<Rightarrow>
                      let act = act AND NOT I_END_DETECT
                      in Some (act, if act \<noteq> 0 then isr_unhandled n act s else s))))"

partial_function (option) isr_loop :: "i2c_hw \<Rightarrow> nat \<Rightarrow> u32 \<Rightarrow> i2c_soc \<Rightarrow> i2c_soc option" where
  "isr_loop H n act s =
     (if act \<noteq> 0
      then (case isr_pass H n act s of None \<Rightarrow> None | Some (act, s) \<Rightarrow> isr_loop H n act s)
      else Some s)"

definition i2c_isr :: "i2c_hw \<Rightarrow> nat \<Rightarrow> i2c_soc \<Rightarrow> i2c_soc option" where
  "i2c_isr H n s =
     (if ob_stage (i2c_bus s n) = I2C_DONE
      then Some (wr (I2c n iint_clr) 0x1FFF (wr (I2c n iint_ena) 0 s))
      else isr_loop H n (rd (I2c n iint_status) s AND 0x7FF) s)"

section \<open>The queue\<close>

definition is_10bit :: "u16 \<Rightarrow> bool" where
  "is_10bit a \<longleftrightarrow> a AND 0xFC00 = 0x7800"

definition new_elem :: "nat \<Rightarrow> u16 \<Rightarrow> nat \<Rightarrow> u16 \<Rightarrow> bool \<Rightarrow> bool \<Rightarrow> ptr \<Rightarrow> dq_elem" where
  "new_elem mode addr data len sendStop dataOnly event =
     \<lparr>dq_data = data, dq_length = unat len, dq_position = 0, dq_cmdBytesNeeded = unat len,
      ct_addr = addr, ct_mode = mode, ct_stop = sendStop,
      ct_startCmdSent = dataOnly, ct_addrCmdSent = dataOnly, ct_dataCmdSent = False,
      ct_stopCmdSent = False,
      ct_addrReq = (if dataOnly then 0 else if is_10bit addr then 2 else 1), ct_addrSent = 0,
      dq_queueEvent = event\<rparr>"

text \<open>\<open>mem_ok\<close>: the queue can be allocated or enlarged.\<close>

definition i2cAddQueue ::
  "bool \<Rightarrow> i2c_t \<Rightarrow> nat \<Rightarrow> u16 \<Rightarrow> nat \<Rightarrow> u16 \<Rightarrow> bool \<Rightarrow> bool \<Rightarrow> ptr \<Rightarrow> i2c_soc \<Rightarrow> i2c_err_t \<times> i2c_soc" where
  "i2cAddQueue mem_ok i2c mode addr data len sendStop dataOnly event s =
     (case i2c of
        None \<Rightarrow> (I2C_ERROR_DEV, s)
      | Some n \<Rightarrow>
          let s = (if event \<noteq> NULL then ext (EventClear event EVENT_MASK) s else s)
          in if mem_ok
             then (I2C_ERROR_OK,
                   upd_bus n (\<lambda>b. b\<lparr>ob_dq := ob_dq b @ [new_elem mode addr data len sendStop dataOnly event]\<rparr>) s)
             else (I2C_ERROR_MEMORY, s))"

definition i2cAddQueueWrite ::
  "bool \<Rightarrow> i2c_t \<Rightarrow> u16 \<Rightarrow> nat \<Rightarrow> u16 \<Rightarrow> bool \<Rightarrow> ptr \<Rightarrow> i2c_soc \<Rightarrow> i2c_err_t \<times> i2c_soc" where
  "i2cAddQueueWrite mem_ok i2c addr data len sendStop event =
     i2cAddQueue mem_ok i2c 0 addr data len sendStop False event"

text \<open>\<open>mem_ok'\<close> is the outcome of the second allocation of a ten-bit read.\<close>

definition i2cAddQueueRead ::
  "bool \<Rightarrow> bool \<Rightarrow> i2c_t \<Rightarrow> u16 \<Rightarrow> nat \<Rightarrow> u16 \<Rightarrow> bool \<Rightarrow> ptr \<Rightarrow> i2c_soc \<Rightarrow> i2c_err_t \<times> i2c_soc" where
  "i2cAddQueueRead mem_ok mem_ok' i2c addr data len sendStop event s =
     (if is_10bit addr then
        case i2cAddQueue mem_ok i2c 0 addr NULL 0 False False event s of
          (err, s) \<Rightarrow>
            if err = I2C_ERROR_OK
            then i2cAddQueue mem_ok' i2c 1 (drop_bit 8 addr) data len sendStop False event s
            else (err, s)
      else i2cAddQueue mem_ok i2c 1 addr data len sendStop False event s)"

definition i2cFlush :: "i2c_t \<Rightarrow> i2c_soc \<Rightarrow> i2c_err_t \<times> i2c_soc" where
  "i2cFlush i2c s =
     (case i2c of
        None \<Rightarrow> (I2C_ERROR_DEV, s)
      | Some n \<Rightarrow> (I2C_ERROR_OK, upd_bus n (\<lambda>b. b\<lparr>ob_dq := [], ob_queuePos := 0\<rparr>) s))"

section \<open>Frequency\<close>

definition i2c_take :: "nat \<Rightarrow> i2c_soc \<Rightarrow> i2c_soc option" where
  "i2c_take n s = (if i2c_lock s n then Some (ext (SemTake (I2cLock n)) s) else None)"

definition i2c_give :: "nat \<Rightarrow> i2c_soc \<Rightarrow> i2c_soc option" where
  "i2c_give n s = (if i2c_lock s n then Some (ext (SemGive (I2cLock n)) s) else None)"

definition i2c_guarded :: "nat \<Rightarrow> (i2c_soc \<Rightarrow> i2c_soc option) list \<Rightarrow> i2c_soc \<Rightarrow> i2c_soc option" where
  "i2c_guarded n = guarded (i2c_take n) (i2c_give n)"

text \<open>The threshold of both FIFOs: more room for the interrupt the faster the bus.\<close>

definition fifo_threshold :: "u32 \<Rightarrow> u32" where
  "fifo_threshold clk_speed = (let a = clk_speed div 50000 + 1 in if 24 < a then 24 else a)"

definition frequency_stores :: "nat \<Rightarrow> u32 \<Rightarrow> (i2c_soc \<Rightarrow> i2c_soc) list" where
  "frequency_stores n clk_speed =
     (let period = APB_CLK_HZ div clk_speed div 2;
          halfPeriod = period div 2;
          quarterPeriod = period div 4;
          a = fifo_threshold clk_speed
      in [\<lambda>s. wr (I2c n ififo_conf) (bf_put tx_fifo_empty_thrhd a (bf_put rx_fifo_full_thrhd (32 - a)
                 (rd (I2c n ififo_conf) s))) s,
          setf (I2c n iscl_low) scl_period period,
          setf (I2c n iscl_high) scl_period period,
          setf (I2c n istart_hold) scl_time halfPeriod,
          setf (I2c n irstart_setup) scl_time halfPeriod,
          setf (I2c n istop_hold) stop_time halfPeriod,
          setf (I2c n istop_setup) scl_time halfPeriod,
          setf (I2c n isda_hold) scl_time quarterPeriod,
          setf (I2c n isda_sample) scl_time quarterPeriod])"

text \<open>A frequency of 0 divides by zero.\<close>

definition i2cSetFrequency :: "i2c_t \<Rightarrow> u32 \<Rightarrow> i2c_soc \<Rightarrow> (i2c_err_t \<times> i2c_soc) option" where
  "i2cSetFrequency i2c clk_speed s =
     (case i2c of
        None \<Rightarrow> Some (I2C_ERROR_DEV, s)
      | Some n \<Rightarrow>
          if clk_speed = 0 then None
          else map_option (Pair I2C_ERROR_OK) (i2c_guarded n (map stmt (frequency_stores n clk_speed)) s))"

definition i2cGetFrequency :: "i2c_t \<Rightarrow> i2c_soc \<Rightarrow> u32" where
  "i2cGetFrequency i2c s =
     (case i2c of
        None \<Rightarrow> 0
      | Some n \<Rightarrow>
          let old_count = getf (I2c n iscl_low) scl_period s + getf (I2c n iscl_high) scl_period s
          in if 0 < old_count then APB_CLK_HZ div old_count else 0)"

section \<open>Pins and start-up\<close>

text \<open>Pin numbers are signed bytes; the pin functions take them as unsigned ones.\<close>

definition pin8 :: "int \<Rightarrow> u8" where "pin8 p = of_int p"

definition line_high :: "i2c_hw \<Rightarrow> int \<Rightarrow> i2c_soc \<Rightarrow> bool \<times> i2c_soc" where
  "line_high H p s = (let s = on_regs (hw_pins H) s in (digitalRead (unat (pin8 p)) s \<noteq> 0, s))"

text \<open>\<^verbatim>\<open>!digitalRead(sda) || !digitalRead(scl)\<close>, negated: both lines are high.\<close>

definition lines_free :: "i2c_hw \<Rightarrow> int \<Rightarrow> int \<Rightarrow> i2c_soc \<Rightarrow> bool \<times> i2c_soc" where
  "lines_free H sda scl s =
     (case line_high H sda s of (False, s) \<Rightarrow> (False, s) | (True, s) \<Rightarrow> line_high H scl s)"

primrec clock_out :: "i2c_hw \<Rightarrow> int \<Rightarrow> int \<Rightarrow> nat \<Rightarrow> i2c_soc \<Rightarrow> i2c_soc" where
  "clock_out H sda scl 0 s = s"
| "clock_out H sda scl (Suc k) s =
     (let s = digitalWrite (unat (pin8 scl)) 1 (digitalWrite (unat (pin8 scl)) 0 s)
      in case line_high H sda s of (True, s) \<Rightarrow> s | (False, s) \<Rightarrow> clock_out H sda scl k s)"

definition i2cCheckLineState ::
  "(nat \<Rightarrow> rtc_gpio_desc_t) \<Rightarrow> i2c_hw \<Rightarrow> int \<Rightarrow> int \<Rightarrow> i2c_soc \<Rightarrow> bool \<times> i2c_soc" where
  "i2cCheckLineState desc H sda scl s =
     (if sda < 0 \<or> scl < 0 then (False, s)
      else
        let s = exec [digitalWrite (unat (pin8 sda)) 1,
                      digitalWrite (unat (pin8 scl)) 1,
                      pinMode desc (unat (pin8 sda)) (PULLUP OR OPEN_DRAIN OR INPUT),
                      pinMode desc (unat (pin8 scl)) (PULLUP OR OPEN_DRAIN OR OUTPUT)] s;
            (free, s) = lines_free H sda scl s;
            s = (if free then s else clock_out H sda scl 9 (digitalWrite (unat (pin8 scl)) 1 s))
        in lines_free H sda scl s)"

definition attach_line :: "(nat \<Rightarrow> rtc_gpio_desc_t) \<Rightarrow> int \<Rightarrow> u8 \<Rightarrow> i2c_soc \<Rightarrow> i2c_soc" where
  "attach_line desc p idx = exec
     [digitalWrite (unat (pin8 p)) 1,
      pinMode desc (unat (pin8 p)) (OPEN_DRAIN OR PULLUP OR INPUT OR OUTPUT),
      pinMatrixOutAttach (pin8 p) idx False False,
      pinMatrixInAttach (pin8 p) idx False]"

definition detach_line :: "(nat \<Rightarrow> rtc_gpio_desc_t) \<Rightarrow> int \<Rightarrow> u8 \<Rightarrow> i2c_soc \<Rightarrow> i2c_soc" where
  "detach_line desc p idx = exec
     [pinMatrixOutDetach (pin8 p) False False,
      pinMatrixInDetach idx False False,
      pinMode desc (unat (pin8 p)) (INPUT OR PULLUP)]"

definition on_i2c :: "i2c_t \<Rightarrow> (nat \<Rightarrow> i2c_soc \<Rightarrow> i2c_soc) \<Rightarrow> i2c_soc \<Rightarrow> i2c_err_t \<times> i2c_soc" where
  "on_i2c i2c f s = (case i2c of None \<Rightarrow> (I2C_ERROR_DEV, s) | Some n \<Rightarrow> (I2C_ERROR_OK, f n s))"

definition i2cAttachSCL ::
  "(nat \<Rightarrow> rtc_gpio_desc_t) \<Rightarrow> i2c_t \<Rightarrow> int \<Rightarrow> i2c_soc \<Rightarrow> i2c_err_t \<times> i2c_soc" where
  "i2cAttachSCL desc i2c scl = on_i2c i2c (\<lambda>n. attach_line desc scl (I2C_SCL_IDX n))"

definition i2cDetachSCL ::
  "(nat \<Rightarrow> rtc_gpio_desc_t) \<Rightarrow> i2c_t \<Rightarrow> int \<Rightarrow> i2c_soc \<Rightarrow> i2c_err_t \<times> i2c_soc" where
  "i2cDetachSCL desc i2c scl = on_i2c i2c (\<lambda>n. detach_line desc scl (I2C_SCL_IDX n))"

definition i2cAttachSDA ::
  "(nat \<Rightarrow> rtc_gpio_desc_t) \<Rightarrow> i2c_t \<Rightarrow> int \<Rightarrow> i2c_soc \<Rightarrow> i2c_err_t \<times> i2c_soc" where
  "i2cAttachSDA desc i2c sda = on_i2c i2c (\<lambda>n. attach_line desc sda (I2C_SDA_IDX n))"

definition i2cDetachSDA ::
  "(nat \<Rightarrow> rtc_gpio_desc_t) \<Rightarrow> i2c_t \<Rightarrow> int \<Rightarrow> i2c_soc \<Rightarrow> i2c_err_t \<times> i2c_soc" where
  "i2cDetachSDA desc i2c sda = on_i2c i2c (\<lambda>n. detach_line desc sda (I2C_SDA_IDX n))"

definition i2cReleaseISR :: "nat \<Rightarrow> i2c_soc \<Rightarrow> i2c_soc" where
  "i2cReleaseISR n s =
     (if ob_intr (i2c_bus s n) \<noteq> NULL
      then upd_bus n (\<lambda>b. b\<lparr>ob_intr := NULL\<rparr>) (ext (IntrFree (ob_intr (i2c_bus s n))) s) else s)"

definition i2c_power :: "nat \<Rightarrow> u32" where
  "i2c_power n = (if n = 0 then BIT 7 else BIT 18)"

definition detach_lines :: "(nat \<Rightarrow> rtc_gpio_desc_t) \<Rightarrow> nat \<Rightarrow> i2c_soc \<Rightarrow> i2c_soc" where
  "detach_lines desc n = exec
     [\<lambda>s. if 0 \<le> ob_sda (i2c_bus s n) then snd (i2cDetachSDA desc (Some n) (ob_sda (i2c_bus s n)) s) else s,
      \<lambda>s. if 0 \<le> ob_scl (i2c_bus s n) then snd (i2cDetachSCL desc (Some n) (ob_scl (i2c_bus s n)) s) else s]"

definition attach_lines :: "(nat \<Rightarrow> rtc_gpio_desc_t) \<Rightarrow> nat \<Rightarrow> i2c_soc \<Rightarrow> i2c_soc" where
  "attach_lines desc n = exec
     [\<lambda>s. if 0 \<le> ob_sda (i2c_bus s n) then snd (i2cAttachSDA desc (Some n) (ob_sda (i2c_bus s n)) s) else s,
      \<lambda>s. if 0 \<le> ob_scl (i2c_bus s n) then snd (i2cAttachSCL desc (Some n) (ob_scl (i2c_bus s n)) s) else s]"

definition init_stores :: "nat \<Rightarrow> (i2c_soc \<Rightarrow> i2c_soc) list" where
  "init_stores n =
     [set_peri_reg_mask DPORT_PERIP_RST_EN_REG (i2c_power n),
      set_peri_reg_mask DPORT_PERIP_CLK_EN_REG (i2c_power n),
      clear_peri_reg_mask DPORT_PERIP_RST_EN_REG (i2c_power n),
      wr (I2c n ictr) 0,
      setf (I2c n ictr) ms_mode 1,
      setf (I2c n ictr) sda_force_out 1,
      setf (I2c n ictr) scl_force_out 1,
      setf (I2c n ictr) clk_en 1,
      setf (I2c n itout) tout 400000,
      setf (I2c n ififo_conf) nonfifo_en 0,
      wr (I2c n islave_addr) 0]"

definition init_frequency :: "nat \<Rightarrow> u32 \<Rightarrow> i2c_soc \<Rightarrow> u32" where
  "init_frequency n frequency s =
     (if frequency \<noteq> 0 then frequency
      else if i2cGetFrequency (Some n) s \<noteq> 0 then i2cGetFrequency (Some n) s else 100000)"

text \<open>
  The new frequency is fixed after the interrupt was released and before the hardware is reset;
  \<open>mutex_ok\<close>: the mutex can be created.
\<close>

definition i2cInit ::
  "(nat \<Rightarrow> rtc_gpio_desc_t) \<Rightarrow> i2c_hw \<Rightarrow> bool \<Rightarrow> nat \<Rightarrow> int \<Rightarrow> int \<Rightarrow> u32 \<Rightarrow> i2c_soc
     \<Rightarrow> (i2c_t \<times> i2c_soc) option" where
  "i2cInit desc H mutex_ok n sda scl frequency s =
     (if 1 < n then Some (None, s)
      else
        let s = upd_bus n (\<lambda>b. b\<lparr>ob_sda := sda, ob_scl := scl\<rparr>) (detach_lines desc n s)
        in if \<not> i2c_lock s n \<and> \<not> mutex_ok then Some (None, s)
           else
             let s = s\<lparr>i2c_lock := (i2c_lock s)(n := True)\<rparr>;
                 frequency = init_frequency n frequency (i2cReleaseISR n s)
             in case i2c_guarded n (stmt (i2cReleaseISR n) # map stmt (init_stores n)) s of
                  None \<Rightarrow> None
                | Some s \<Rightarrow>
                    (case i2cSetFrequency (Some n) frequency s of
                       None \<Rightarrow> None
                     | Some (_, s) \<Rightarrow>
                         (case i2cCheckLineState desc H (ob_sda (i2c_bus s n)) (ob_scl (i2c_bus s n)) s of
                            (False, s) \<Rightarrow> Some (None, s)
                          | (True, s) \<Rightarrow> Some (Some n, attach_lines desc n s))))"

text \<open>A NULL handle is dereferenced.\<close>

definition i2cRelease :: "(nat \<Rightarrow> rtc_gpio_desc_t) \<Rightarrow> i2c_t \<Rightarrow> i2c_soc \<Rightarrow> i2c_soc option" where
  "i2cRelease desc i2c =
     (case i2c of
        None \<Rightarrow> (\<lambda>s. None)
      | Some n \<Rightarrow> i2c_guarded n
          [stmt (detach_lines desc n),
           stmt (i2cReleaseISR n),
           stmt (\<lambda>s. if ob_event (i2c_bus s n) \<noteq> NULL
                     then upd_bus n (\<lambda>b. b\<lparr>ob_event := NULL\<rparr>) (ext (EventDelete (ob_event (i2c_bus s n))) s)
                     else s),
           stmt (\<lambda>s. snd (i2cFlush (Some n) s)),
           stmt (set_peri_reg_mask DPORT_PERIP_RST_EN_REG (i2c_power n)),
           stmt (clear_peri_reg_mask DPORT_PERIP_CLK_EN_REG (i2c_power n))])"

section \<open>Processing the queue\<close>

text \<open>
  The address as it goes onto the bus. The ten-bit form uses the logical \<open>||\<close> where a bitwise \<open>|\<close> is
  meant, so it is 1.
\<close>

definition wire_addr :: "dq_elem \<Rightarrow> u16" where
  "wire_addr e =
     (if ct_addrReq e = 2 then
        let taddr = (drop_bit 7 (ct_addr e) AND 0xFE) OR of_nat (ct_mode e)
        in if push_bit 8 taddr \<noteq> 0 \<or> ct_addr e AND 0xFF \<noteq> 0 then 1 else 0
      else (push_bit 1 (ct_addr e) AND 0xFE) OR of_nat (ct_mode e))"

definition totalBytes :: "dq_elem list \<Rightarrow> u32" where
  "totalBytes dq = fold (\<lambda>e t. t + of_nat (dq_length e + ct_addrReq e)) dq 0"

definition proc_reset :: "nat \<Rightarrow> (i2c_soc \<Rightarrow> i2c_soc) list" where
  "proc_reset n =
     [upd_bus n (\<lambda>b. b\<lparr>ob_mode := I2C_MASTER\<rparr>),
      setf (I2c n ictr) trans_start 0,
      setf (I2c n itout) tout 0xFFFFF,
      wr (I2c n iint_clr) 0x1FFF,
      setf (I2c n ictr) ms_mode 1,
      upd_bus n (\<lambda>b. b\<lparr>ob_errorByteCnt := 0, ob_errorQueue := 0,
                        ob_dq := map (\<lambda>e. e\<lparr>ct_addr := wire_addr e\<rparr>) (ob_dq b), ob_queuePos := 0\<rparr>)]"

definition INTERRUPTS_ENABLED :: u32 where
  "INTERRUPTS_ENABLED =
     I_ACK_ERR OR I_TRANS_START OR I_TIME_OUT OR I_TRANS_COMPLETE OR I_ARBITRATION_LOST
     OR I_SLAVE_TRAN_COMP OR I_END_DETECT OR I_RXFIFO_OVF OR I_TXFIFO_EMPTY OR I_RXFIFO_FULL"

definition fifo_conf_reset :: "u32 \<Rightarrow> u32" where
  "fifo_conf_reset f =
     bf_put fifo_addr_cfg_en 0 (bf_put nonfifo_tx_thres 31 (bf_put nonfifo_en 0
       (bf_put tx_fifo_rst 1 (bf_put rx_fifo_rst 1 f))))"

definition proc_arm :: "nat \<Rightarrow> (i2c_soc \<Rightarrow> i2c_soc) list" where
  "proc_arm n =
     [upd_bus n (\<lambda>b. b\<lparr>ob_exitCode := 0\<rparr>),
      \<lambda>s. let f = fifo_conf_reset (rd (I2c n ififo_conf) s)
          in wr (I2c n ififo_conf) (bf_put tx_fifo_rst 0 (bf_put rx_fifo_rst 0 f)) (wr (I2c n ififo_conf) f s),
      upd_bus n (\<lambda>b. b\<lparr>ob_stage := I2C_STARTUP\<rparr>),
      wr (I2c n iint_ena) INTERRUPTS_ENABLED]"

definition ETS_I2C_INTR_SOURCE :: "nat \<Rightarrow> nat" where
  "ETS_I2C_INTR_SOURCE n = (if n = 0 then 49 else 50)"

definition error_reason :: "i2c_error \<Rightarrow> i2c_err_t" where
  "error_reason e =
     (case e of
        I2C_OK \<Rightarrow> I2C_ERROR_OK
      | I2C_ERROR \<Rightarrow> I2C_ERROR_DEV
      | I2C_ADDR_NAK \<Rightarrow> I2C_ERROR_ACK
      | I2C_DATA_NAK \<Rightarrow> I2C_ERROR_ACK
      | I2C_ARBITRATION \<Rightarrow> I2C_ERROR_BUS
      | I2C_TIMEOUT \<Rightarrow> I2C_ERROR_TIMEOUT
      | NO_ERROR \<Rightarrow> I2C_ERROR_DEV)"

text \<open>The result, the event bits for the elements, and the shutdown after a gross timeout.\<close>

definition proc_result :: "i2c_hw \<Rightarrow> nat \<Rightarrow> u32 \<Rightarrow> i2c_soc \<Rightarrow> i2c_err_t \<times> u32 \<times> i2c_soc" where
  "proc_result H n eBits s =
     (if eBits AND EVENT_DONE \<noteq> 0 then (error_reason (ob_error (i2c_bus s n)), eBits, s)
      else
        let s = exec [upd_bus n (\<lambda>b. b\<lparr>ob_stage := I2C_DONE\<rparr>),
                      wr (I2c n iint_ena) 0,
                      wr (I2c n iint_clr) 0x1FFF,
                      i2c_update_error_byte_cnt H n] s
        in if ob_errorByteCnt (i2c_bus s n) = 0 \<and> ob_errorQueue (i2c_bus s n) = 0
           then (I2C_ERROR_BUSY, eBits OR EVENT_ERROR_BUS_BUSY OR EVENT_ERROR OR EVENT_DONE, s)
           else (I2C_ERROR_TIMEOUT, eBits OR EVENT_ERROR_TIMEOUT OR EVENT_ERROR OR EVENT_DONE, s))"

definition element_bits :: "nat \<Rightarrow> u32 \<Rightarrow> nat \<Rightarrow> u32" where
  "element_bits pos eBits b =
     (if b < pos then EVENT_DONE else if b = pos then eBits else eBits OR EVENT_ERROR_PREV)"

definition notify :: "nat \<Rightarrow> u32 \<Rightarrow> i2c_soc \<Rightarrow> i2c_soc" where
  "notify n eBits s =
     fold (\<lambda>b s. if dq_queueEvent (dq_at n b s) \<noteq> NULL
                 then ext (EventSet (dq_queueEvent (dq_at n b s)) (element_bits (queuePos n s) eBits b)) s
                 else s) [0..<queueCount n s] s"

definition readCount :: "dq_elem list \<Rightarrow> u32" where
  "readCount dq = fold (\<lambda>e c. if ct_mode e = 1 then c + of_nat (dq_position e) else c) dq 0"

text \<open>
  What happens while the task waits: interrupts, each after a step \<open>h\<close> of the hardware. The bits
  \<^verbatim>\<open>xEventGroupWaitBits\<close> returns are replaced by the exit code where they differ from it.
\<close>

definition bus_activity :: "i2c_hw \<Rightarrow> nat \<Rightarrow> (regfile \<Rightarrow> regfile) list \<Rightarrow> i2c_soc \<Rightarrow> i2c_soc option" where
  "bus_activity H n hs = run (map (\<lambda>h s. i2c_isr H n (on_regs h s)) hs)"

text \<open>
  After the transfer was started: wait, evaluate, notify. The time-out given to the wait is computed
  from the frequency, so a frequency of 0 divides by zero.
\<close>

definition proc_wait ::
  "i2c_hw \<Rightarrow> (regfile \<Rightarrow> regfile) list \<Rightarrow> nat \<Rightarrow> u16 \<Rightarrow> i2c_soc \<Rightarrow> (i2c_err_t \<times> i2c_soc) option" where
  "proc_wait H hs n timeOutMillis s =
     (let freq = i2cGetFrequency (Some n) s in
      if freq = 0 then None
      else
        let ticks = totalBytes (ob_dq (i2c_bus s n)) * 10 * 1000 div freq + ucast timeOutMillis;
            s = ext (EventWait (ob_event (i2c_bus s n)) ticks) (setf (I2c n ictr) trans_start 1 s)
        in case bus_activity H n hs s of
             None \<Rightarrow> None
           | Some s \<Rightarrow>
               let eBits = ob_exitCode (i2c_bus s n);
                   s = (if eBits AND EVENT_ERROR \<noteq> 0 \<or> eBits AND EVENT_DONE = 0
                        then i2c_update_error_byte_cnt H n s else s)
               in case proc_result H n eBits s of
                    (reason, eBits, s) \<Rightarrow> Some (reason, notify n eBits s))"

text \<open>
  \<open>ev\<close> is the event group created when there is none, \<open>h\<close> the interrupt handle and \<open>intr_ok\<close> whether
  the interrupt could be allocated. The count of bytes read is the second result.
\<close>

definition i2cProcQueue ::
  "i2c_hw \<Rightarrow> (regfile \<Rightarrow> regfile) list \<Rightarrow> ptr \<Rightarrow> ptr \<Rightarrow> bool \<Rightarrow> i2c_t \<Rightarrow> u16 \<Rightarrow> i2c_soc
     \<Rightarrow> (i2c_err_t \<times> u32 \<times> i2c_soc) option" where
  "i2cProcQueue H hs ev h intr_ok i2c timeOutMillis s =
     (case i2c of
        None \<Rightarrow> Some (I2C_ERROR_DEV, 0, s)
      | Some n \<Rightarrow>
          let s = poll H n s in
          if getf (I2c n istatus) bus_busy s \<noteq> 0 then Some (I2C_ERROR_BUSY, 0, s)
          else case i2c_take n s of
            None \<Rightarrow> None
          | Some s \<Rightarrow>
              let s = upd_bus n (\<lambda>b. b\<lparr>ob_stage := I2C_DONE,
                        ob_event := (if ob_event b = NULL then ev else ob_event b)\<rparr>) s
              in if ob_event (i2c_bus s n) = NULL
                 then map_option (\<lambda>s. (I2C_ERROR_MEMORY, 0, s)) (i2c_give n s)
                 else case fillCmdQueue n False
                        (exec (proc_reset n) (ext (EventClear (ob_event (i2c_bus s n)) 0xFF) s)) of
                   None \<Rightarrow> None
                 | Some s \<Rightarrow>
                     let s = exec (proc_arm n) s;
                         install = (ob_intr (i2c_bus s n) = NULL);
                         s = (if install then ext (IntrAlloc (ETS_I2C_INTR_SOURCE n)) s else s)
                     in if install \<and> \<not> intr_ok
                        then map_option (\<lambda>s. (I2C_ERROR_MEMORY, 0, s)) (i2c_give n s)
                        else case proc_wait H hs n timeOutMillis
                               (if install then upd_bus n (\<lambda>b. b\<lparr>ob_intr := h\<rparr>) s else s) of
                          None \<Rightarrow> None
                        | Some (reason, s) \<Rightarrow>
                            map_option (\<lambda>t. (reason, readCount (ob_dq (i2c_bus s n)), t)) (i2c_give n s))"

text \<open>
  The environment of one call of \<open>i2cWrite\<close> or \<open>i2cRead\<close>: what the allocators return, and the bus
  activity during the first attempt and during the second one after the bus was found busy.
\<close>

record i2c_env =
  en_mem :: bool
  en_mem' :: bool
  en_mutex :: bool
  en_event :: ptr
  en_intr :: ptr
  en_intr_ok :: bool
  en_first :: "(regfile \<Rightarrow> regfile) list"
  en_second :: "(regfile \<Rightarrow> regfile) list"

definition i2c_process ::
  "(nat \<Rightarrow> rtc_gpio_desc_t) \<Rightarrow> i2c_hw \<Rightarrow> i2c_env \<Rightarrow> nat \<Rightarrow> u16 \<Rightarrow> i2c_soc
     \<Rightarrow> (i2c_err_t \<times> u32 \<times> i2c_soc) option" where
  "i2c_process desc H E n timeOutMillis s =
     (case i2cProcQueue H (en_first E) (en_event E) (en_intr E) (en_intr_ok E) (Some n) timeOutMillis s of
        None \<Rightarrow> None
      | Some (err, cnt, s) \<Rightarrow>
          (case (if err = I2C_ERROR_BUSY then
                   case i2cInit desc H (en_mutex E) n (ob_sda (i2c_bus s n)) (ob_scl (i2c_bus s n)) 0 s of
                     None \<Rightarrow> None
                   | Some (None, s) \<Rightarrow> Some (err, cnt, s)
                   | Some (Some _, s) \<Rightarrow>
                       i2cProcQueue H (en_second E) (en_event E) (en_intr E) (en_intr_ok E) (Some n)
                         timeOutMillis s
                 else Some (err, cnt, s)) of
             None \<Rightarrow> None
           | Some (err, cnt, s) \<Rightarrow> Some (err, cnt, snd (i2cFlush (Some n) s))))"

definition i2cWrite ::
  "(nat \<Rightarrow> rtc_gpio_desc_t) \<Rightarrow> i2c_hw \<Rightarrow> i2c_env \<Rightarrow> i2c_t \<Rightarrow> u16 \<Rightarrow> nat \<Rightarrow> u16 \<Rightarrow> bool \<Rightarrow> u16 \<Rightarrow> i2c_soc
     \<Rightarrow> (i2c_err_t \<times> i2c_soc) option" where
  "i2cWrite desc H E i2c addr buff len sendStop timeOutMillis s =
     (case i2cAddQueueWrite (en_mem E) i2c addr buff len sendStop NULL s of
        (last_error, s) \<Rightarrow>
          (case i2c of
             Some n \<Rightarrow>
               if last_error \<noteq> I2C_ERROR_OK then Some (last_error, s)
               else if sendStop
               then map_option (\<lambda>(err, cnt, s). (err, s)) (i2c_process desc H E n timeOutMillis s)
               else Some (I2C_ERROR_CONTINUE, s)
           | None \<Rightarrow> Some (last_error, s)))"

text \<open>The count of a read that is not processed yet is not stored: 0 stands for no store.\<close>

definition i2cRead ::
  "(nat \<Rightarrow> rtc_gpio_desc_t) \<Rightarrow> i2c_hw \<Rightarrow> i2c_env \<Rightarrow> i2c_t \<Rightarrow> u16 \<Rightarrow> nat \<Rightarrow> u16 \<Rightarrow> bool \<Rightarrow> u16 \<Rightarrow> i2c_soc
     \<Rightarrow> (i2c_err_t \<times> u32 \<times> i2c_soc) option" where
  "i2cRead desc H E i2c addr buff len sendStop timeOutMillis s =
     (case i2cAddQueueRead (en_mem E) (en_mem' E) i2c addr buff len sendStop NULL s of
        (last_error, s) \<Rightarrow>
          (case i2c of
             Some n \<Rightarrow>
               if last_error \<noteq> I2C_ERROR_OK then Some (last_error, 0, s)
               else if sendStop then i2c_process desc H E n timeOutMillis s
               else Some (I2C_ERROR_CONTINUE, 0, s)
           | None \<Rightarrow> Some (last_error, 0, s)))"

definition i2cDebug :: "i2c_t \<Rightarrow> u32 \<Rightarrow> u32 \<Rightarrow> i2c_soc \<Rightarrow> u32 \<times> i2c_soc" where
  "i2cDebug i2c setBits resetBits s =
     (case i2c of
        None \<Rightarrow> (0, s)
      | Some n \<Rightarrow>
          let f = (ob_debugFlags (i2c_bus s n) OR setBits) AND NOT resetBits
          in (f, upd_bus n (\<lambda>b. b\<lparr>ob_debugFlags := f\<rparr>) s))"

definition i2cGetStatus :: "i2c_hw \<Rightarrow> i2c_t \<Rightarrow> i2c_soc \<Rightarrow> u32 \<times> i2c_soc" where
  "i2cGetStatus H i2c s =
     (case i2c of
        None \<Rightarrow> (0, s)
      | Some n \<Rightarrow> (let s = poll H n s in (rd (I2c n istatus) s, s)))"

end
