(* ===== verification/I2cCmd.thy ===== *)
theory I2cCmd
  imports I2c
begin

text \<open>
  The command list of the I2C driver. The commands a queue needs are specified element by element, with
  no regard to the 16 places of the hardware list; \<open>fillCmdQueue\<close> always returns and implements this
  specification piecewise: what it writes continues what it wrote before.
\<close>

section \<open>The specification\<close>

definition transfer_cmd :: "nat \<Rightarrow> nat \<Rightarrow> u32" where
  "transfer_cmd m b = (if m = 1 then cmd_word I2C_CMD_READ (of_nat b) False False False
    else cmd_word I2C_CMD_WRITE (of_nat b) False False True)"

definition blk :: "nat \<Rightarrow> nat \<Rightarrow> nat" where
  "blk m k = (if 255 < k then 255 else k - m)"

function block_cmds :: "nat \<Rightarrow> nat \<Rightarrow> u32 list" where
  "block_cmds m k = (if m < k then transfer_cmd m (blk m k) # block_cmds m (k - blk m k) else [])"
  by auto
termination
  by (relation "measure snd") (auto simp: blk_def)

declare block_cmds.simps [simp del]

text \<open>
  A transfer of \<open>k\<close> bytes in blocks of at most 255; the last byte of a read gets a command of its own,
  which does not acknowledge it.
\<close>

definition data_cmds :: "nat \<Rightarrow> nat \<Rightarrow> u32 list" where
  "data_cmds m k = block_cmds m k
     @ (if m = 1 \<and> 0 < k then [cmd_word I2C_CMD_READ 1 True False False] else [])"

definition start_cmds :: "dq_elem \<Rightarrow> u32 list" where
  "start_cmds e = (if ct_startCmdSent e then [] else [cmd_word I2C_CMD_RSTART 0 False False False])"

definition addr_cmds :: "dq_elem \<Rightarrow> u32 list" where
  "addr_cmds e = (if ct_addrCmdSent e then []
     else [cmd_word I2C_CMD_WRITE (of_nat (ct_addrReq e)) False False True])"

definition stop_cmds :: "dq_elem \<Rightarrow> u32 list" where
  "stop_cmds e = (if ct_stop e \<and> \<not> ct_stopCmdSent e then [cmd_word I2C_CMD_STOP 0 False False False] else [])"

definition pending_cmds :: "dq_elem \<Rightarrow> u32 list" where
  "pending_cmds e = start_cmds e @ addr_cmds e @ data_cmds (ct_mode e) (dq_cmdBytesNeeded e) @ stop_cmds e"

definition queue_cmds :: "nat \<Rightarrow> i2c_soc \<Rightarrow> u32 list" where
  "queue_cmds n s = concat (map pending_cmds (drop (queuePos n s) (ob_dq (i2c_bus s n))))"

definition cmd_at :: "nat \<Rightarrow> nat \<Rightarrow> 'a soc_scheme \<Rightarrow> u32" where
  "cmd_at n i s = rd (I2c n (icommand i)) s"

text \<open>A transfer of no bytes does nothing on the bus.\<close>

definition dummy :: "u32 \<Rightarrow> bool" where
  "dummy c \<longleftrightarrow> is_transfer c \<and> bf_get c_byte_num c = 0"

definition wf_elem :: "dq_elem \<Rightarrow> bool" where
  "wf_elem e \<longleftrightarrow> ct_mode e \<le> 1 \<and> (ct_addrCmdSent e \<longrightarrow> ct_startCmdSent e)
     \<and> (\<not> ct_addrCmdSent e \<longrightarrow> 0 < ct_addrReq e \<and> ct_addrReq e < 256)
     \<and> (ct_stopCmdSent e \<longrightarrow> ct_addrCmdSent e \<and> dq_cmdBytesNeeded e = 0)"

definition wf_queue :: "nat \<Rightarrow> 'a i2c_soc_scheme \<Rightarrow> bool" where
  "wf_queue n s \<longleftrightarrow> (\<forall>e\<in>set (ob_dq (i2c_bus s n)). wf_elem e)"

section \<open>Command words\<close>

lemma cmd_word_fields:
  "bf_get c_op_code (cmd_word op b av ae ac) = take_bit 3 op"
  "bf_get c_byte_num (cmd_word op b av ae ac) = take_bit 8 b"
  by (simp_all add: cmd_word_def i2c_cmd_fields bf_get_put_same bf_get_put_other bf_disjoint_def)

abbreviation rstart :: u32 where
  "rstart \<equiv> cmd_word I2C_CMD_RSTART 0 False False False"

lemma cmd_word_op:
  assumes "cmd_word op b av ae ac = cmd_word op' b' av' ae' ac'"
  shows "take_bit 3 op = take_bit 3 op'"
  using arg_cong [OF assms, of "bf_get c_op_code"] by (simp add: cmd_word_fields)

lemma not_rstart:
  "cmd_word I2C_CMD_WRITE b av ae ac \<noteq> rstart" "cmd_word I2C_CMD_READ b av ae ac \<noteq> rstart"
  "cmd_word I2C_CMD_STOP b av ae ac \<noteq> rstart"
  by (rule notI, drule cmd_word_op, simp add: i2c_cmds)+

lemma transfer_not_rstart: "transfer_cmd m b \<noteq> rstart"
  by (simp add: transfer_cmd_def not_rstart)

lemmas no_start [simp] = not_rstart not_rstart [symmetric] transfer_not_rstart transfer_not_rstart [symmetric]

lemma set_drop_single [simp]: "x \<in> set (drop k [w]) \<longleftrightarrow> k = 0 \<and> x = w"
  by (cases k) auto

lemma dummy_cmd_word:
  "dummy (cmd_word op b av ae ac) \<longleftrightarrow> (take_bit 3 op = 1 \<or> take_bit 3 op = 2) \<and> take_bit 8 b = 0"
  by (simp add: dummy_def is_transfer_def cmd_word_fields)

lemma take_bit_8_nat: "0 < b \<Longrightarrow> b < 256 \<Longrightarrow> take_bit 8 (of_nat b :: u32) \<noteq> 0"
proof -
  assume b: "0 < b" "b < 256"
  then have "unat (take_bit 8 (of_nat b :: u32)) = b"
    by (simp add: unsigned_take_bit_eq unat_of_nat take_bit_nat_eq_self)
  with b(1) show ?thesis
    by auto
qed

lemma blk_bounds: "m \<le> 1 \<Longrightarrow> m < k \<Longrightarrow> 0 < blk m k \<and> blk m k < 256 \<and> m \<le> k - blk m k"
  by (auto simp: blk_def)

lemma transfer_real: "0 < b \<Longrightarrow> b < 256 \<Longrightarrow> \<not> dummy (transfer_cmd m b)"
  by (simp add: transfer_cmd_def dummy_cmd_word take_bit_8_nat)

lemma block_cmds_real: "m \<le> 1 \<Longrightarrow> c \<in> set (block_cmds m k) \<Longrightarrow> \<not> dummy c"
proof (induction m k rule: block_cmds.induct)
  case (1 m k)
  show ?case
  proof (cases "m < k")
    case True
    with "1.prems"(2) have "c = transfer_cmd m (blk m k) \<or> c \<in> set (block_cmds m (k - blk m k))"
      by (simp add: block_cmds.simps [of m k])
    with True "1.prems"(1) "1.IH" blk_bounds [of m k] transfer_real show ?thesis
      by blast
  next
    case False
    with "1.prems" show ?thesis
      by (simp add: block_cmds.simps)
  qed
qed

lemma pending_real: "wf_elem e \<Longrightarrow> c \<in> set (pending_cmds e) \<Longrightarrow> \<not> dummy c"
  using block_cmds_real [of "ct_mode e" c "dq_cmdBytesNeeded e"]
  by (auto simp: pending_cmds_def start_cmds_def addr_cmds_def data_cmds_def stop_cmds_def wf_elem_def
      dummy_cmd_word take_bit_8_nat i2c_cmds split: if_splits)

lemma pending_closed: "wf_elem e \<Longrightarrow> ct_stopCmdSent e \<Longrightarrow> pending_cmds e = []"
  by (simp add: wf_elem_def pending_cmds_def start_cmds_def addr_cmds_def data_cmds_def stop_cmds_def
      block_cmds.simps)

section \<open>The views of a fill\<close>

definition cmds :: "nat \<Rightarrow> i2c_fill \<Rightarrow> u32 list" where
  "cmds n s = map (\<lambda>i. cmd_at n i s) [0..<v_cmdIdx s]"

lemma length_cmds [simp]: "length (cmds n s) = v_cmdIdx s"
  by (simp add: cmds_def)

definition dq_len :: "nat \<Rightarrow> i2c_fill \<Rightarrow> nat" where
  "dq_len n s = length (ob_dq (i2c_bus s n))"

text \<open>The elements before and behind the current one.\<close>

definition others :: "nat \<Rightarrow> i2c_fill \<Rightarrow> dq_elem list \<times> dq_elem list" where
  "others n s = (take (v_qp s) (ob_dq (i2c_bus s n)), drop (Suc (v_qp s)) (ob_dq (i2c_bus s n)))"

lemma i2c_vars_wr [simp]:
  "i2c_bus (wr r v s) = i2c_bus s" "i2c_bus (setf r f v s) = i2c_bus s" "i2c_bus (ext c s) = i2c_bus s"
  "i2c_lock (wr r v s) = i2c_lock s" "i2c_lock (setf r f v s) = i2c_lock s" "i2c_lock (ext c s) = i2c_lock s"
  "i2c_ram (wr r v s) = i2c_ram s" "i2c_ram (setf r f v s) = i2c_ram s" "i2c_ram (ext c s) = i2c_ram s"
  by (simp_all add: wr_def setf_def ext_def)

lemma fill_vars_wr [simp]:
  "v_cmdIdx (wr r v s) = v_cmdIdx s" "v_qp (wr r v s) = v_qp s" "v_done (wr r v s) = v_done s"
  "v_cmdIdx (setf r f v s) = v_cmdIdx s" "v_qp (setf r f v s) = v_qp s" "v_done (setf r f v s) = v_done s"
  by (simp_all add: wr_def setf_def)

lemma fill_vars_upd [simp]:
  "v_qp (upd_tdq n f s) = v_qp s" "v_done (upd_tdq n f s) = v_done s"
  "v_qp (add_cmd n op b av ac s) = v_qp s" "v_done (add_cmd n op b av ac s) = v_done s"
  "v_qp (full_now s) = v_qp s"
  by (simp_all add: upd_tdq_def upd_dq_def upd_bus_def add_cmd_def full_now_def i2cSetCmd_def)

lemma bus_fill [simp]:
  "i2c_bus (add_cmd n op b av ac s) = i2c_bus s" "i2c_bus (full_now s) = i2c_bus s"
  by (simp_all add: add_cmd_def full_now_def i2cSetCmd_def)

lemma dq_len_fill [simp]:
  "dq_len n (upd_tdq n f s) = dq_len n s" "dq_len n (add_cmd n op b av ac s) = dq_len n s"
  "dq_len n (full_now s) = dq_len n s"
  "dq_len n (s\<lparr>v_ena_rx := x\<rparr>) = dq_len n s" "dq_len n (s\<lparr>v_ena_tx := x\<rparr>) = dq_len n s"
  "dq_len n (s\<lparr>v_done := x\<rparr>) = dq_len n s" "dq_len n (s\<lparr>v_cmdIdx := k\<rparr>) = dq_len n s"
  by (simp_all add: dq_len_def upd_tdq_def upd_dq_def upd_bus_def)

lemma others_fill [simp]:
  "others n (upd_tdq n f s) = others n s" "others n (add_cmd n op b av ac s) = others n s"
  "others n (full_now s) = others n s"
  "others n (s\<lparr>v_ena_rx := x\<rparr>) = others n s" "others n (s\<lparr>v_ena_tx := x\<rparr>) = others n s"
  by (simp_all add: others_def upd_tdq_def upd_dq_def upd_bus_def)

lemma tdq_fill [simp]:
  "tdq n (add_cmd n op b av ac s) = tdq n s" "tdq n (full_now s) = tdq n s"
  "tdq n (s\<lparr>v_ena_rx := x\<rparr>) = tdq n s" "tdq n (s\<lparr>v_ena_tx := x\<rparr>) = tdq n s"
  by (simp_all add: tdq_def dq_at_def)

lemma tdq_upd [simp]: "v_qp s < dq_len n s \<Longrightarrow> tdq n (upd_tdq n f s) = f (tdq n s)"
  by (simp add: tdq_def dq_at_def dq_len_def upd_tdq_def upd_dq_def upd_bus_def)

lemma cmd_at_fill [simp]:
  "cmd_at n i (upd_tdq n f s) = cmd_at n i s" "cmd_at n i (full_now s) = cmd_at n i s"
  "cmd_at n i (s\<lparr>v_ena_rx := x\<rparr>) = cmd_at n i s" "cmd_at n i (s\<lparr>v_ena_tx := x\<rparr>) = cmd_at n i s"
  by (simp_all add: cmd_at_def rd_def upd_tdq_def upd_dq_def upd_bus_def full_now_def)

lemma cmds_fill [simp]:
  "cmds n (upd_tdq n f s) = cmds n s" "cmds n (full_now s) = cmds n s"
  "cmds n (s\<lparr>v_ena_rx := x\<rparr>) = cmds n s" "cmds n (s\<lparr>v_ena_tx := x\<rparr>) = cmds n s"
  by (simp_all add: cmds_def)

lemma cmds_add [simp]:
  "cmds n (add_cmd n op b av ac s) = cmds n s @ [cmd_word op b av False ac]"
proof -
  have "cmd_at n i (add_cmd n op b av ac s) =
      (if i = v_cmdIdx s then cmd_word op b av False ac else cmd_at n i s)" for i
    by (simp add: cmd_at_def add_cmd_def i2cSetCmd_def rd_def wr_def)
  then show ?thesis
    by (simp add: cmds_def)
qed

text \<open>
  A statement keeps the commands it does not touch: what is written, followed by what the current
  element still needs, stays the same.
\<close>

definition same_cmds :: "nat \<Rightarrow> i2c_fill \<Rightarrow> i2c_fill \<Rightarrow> bool" where
  "same_cmds n s t \<longleftrightarrow> cmds n t @ pending_cmds (tdq n t) = cmds n s @ pending_cmds (tdq n s)
     \<and> others n t = others n s \<and> v_qp t = v_qp s \<and> dq_len n t = dq_len n s \<and> v_cmdIdx s \<le> v_cmdIdx t"

lemma same_cmds_refl [simp]: "same_cmds n s s"
  by (simp add: same_cmds_def)

lemma same_cmds_trans [trans]: "same_cmds n s t \<Longrightarrow> same_cmds n t u \<Longrightarrow> same_cmds n s u"
  by (simp add: same_cmds_def)

text \<open>The state of an element while it is being filled; no START is written behind place 13.\<close>

definition open_elem :: "nat \<Rightarrow> i2c_fill \<Rightarrow> bool" where
  "open_elem n s \<longleftrightarrow> v_qp s < dq_len n s \<and> wf_elem (tdq n s) \<and> v_cmdIdx s \<le> 15
     \<and> (\<not> v_done s \<longrightarrow> v_cmdIdx s \<le> 14) \<and> rstart \<notin> set (drop 14 (cmds n s))"

lemma fill_start_ok:
  assumes "open_elem n s" and "\<not> v_done s"
  defines "t \<equiv> fill_start n s"
  shows "same_cmds n s t \<and> open_elem n t \<and> \<not> v_done t
    \<and> (ct_startCmdSent (tdq n t) \<or> v_cmdIdx t = 14 \<and> \<not> ct_addrCmdSent (tdq n t) \<and> t = s)"
  using assms(1,2)
  by (auto simp: t_def fill_start_def same_cmds_def open_elem_def wf_elem_def pending_cmds_def start_cmds_def
      addr_cmds_def stop_cmds_def)

lemma fill_addr_ok:
  assumes "open_elem n s" and "\<not> v_done s"
    and "ct_startCmdSent (tdq n s) \<or> v_cmdIdx s = 14 \<and> \<not> ct_addrCmdSent (tdq n s)"
  defines "t \<equiv> fill_addr n s"
  shows "same_cmds n s t \<and> open_elem n t \<and> (v_done t \<longrightarrow> v_cmdIdx t = 15 \<and> ct_startCmdSent (tdq n t))
    \<and> (\<not> v_done t \<longrightarrow> ct_addrCmdSent (tdq n t) \<or> v_cmdIdx t = 14 \<and> \<not> ct_startCmdSent (tdq n t) \<and> t = s)"
proof (cases "ct_startCmdSent (tdq n s) \<and> \<not> ct_addrCmdSent (tdq n s)")
  case True
  with assms(1-3) show ?thesis
    by (auto simp: t_def fill_addr_def same_cmds_def open_elem_def wf_elem_def pending_cmds_def start_cmds_def
        addr_cmds_def stop_cmds_def)
next
  case False
  with assms(2) have "t = s"
    by (auto simp: t_def fill_addr_def)
  with False assms(1-3) show ?thesis
    by (auto simp: open_elem_def)
qed

lemma data_cmds_step:
  assumes "m \<le> 1" and "m < k"
  shows "data_cmds m k = transfer_cmd m (blk m k) # data_cmds m (k - blk m k)"
  using blk_bounds [OF assms] assms by (auto simp: data_cmds_def block_cmds.simps [of m k])

lemma add_block_ok:
  assumes "open_elem n s" and "\<not> v_done s" and "ct_addrCmdSent (tdq n s)"
    and "ct_mode (tdq n s) < dq_cmdBytesNeeded (tdq n s)"
  defines "t \<equiv> add_block n s"
  shows "same_cmds n s t \<and> open_elem n t \<and> ct_addrCmdSent (tdq n t) \<and> (v_done t \<longrightarrow> v_cmdIdx t = 15)
    \<and> ct_mode (tdq n t) \<le> dq_cmdBytesNeeded (tdq n t)"
proof -
  let ?e = "tdq n s"
  let ?b = "blk (ct_mode ?e) (dq_cmdBytesNeeded ?e)"
  have b: "blkSize ?e = ?b"
    by (simp add: blkSize_def blk_def)
  have len: "v_qp s < dq_len n s"
    using assms(1) by (simp add: open_elem_def)
  have m: "ct_mode ?e \<le> 1"
    using assms(1) by (simp add: open_elem_def wf_elem_def)
  have view: "tdq n t = ?e\<lparr>dq_cmdBytesNeeded := dq_cmdBytesNeeded ?e - ?b\<rparr>"
    "cmds n t = cmds n s @ [transfer_cmd (ct_mode ?e) ?b]" "others n t = others n s" "v_qp t = v_qp s"
    "dq_len n t = dq_len n s" "v_cmdIdx t = v_cmdIdx s + 1" "v_done t = (13 < v_cmdIdx s)"
    using len by (auto simp: t_def add_block_def Let_def b transfer_cmd_def)
  have "pending_cmds ?e = transfer_cmd (ct_mode ?e) ?b # pending_cmds (tdq n t)"
    using assms(1,3) data_cmds_step [OF m assms(4)] view(1)
    by (simp add: pending_cmds_def start_cmds_def addr_cmds_def stop_cmds_def open_elem_def wf_elem_def)
  moreover have "wf_elem (tdq n t)"
    using assms(1,3,4) view(1) by (auto simp: open_elem_def wf_elem_def)
  moreover have "ct_mode (tdq n t) \<le> dq_cmdBytesNeeded (tdq n t)"
    using blk_bounds [OF m assms(4)] view(1) by simp
  ultimately show ?thesis
    using view assms(1,2,3) by (auto simp: same_cmds_def open_elem_def)
qed

lemma data_blocks_ok:
  assumes "open_elem n s" and "\<not> v_done s" and "ct_addrCmdSent (tdq n s)"
  shows "same_cmds n s (data_blocks n s) \<and> open_elem n (data_blocks n s)
    \<and> ct_addrCmdSent (tdq n (data_blocks n s))
    \<and> (if v_done (data_blocks n s) then v_cmdIdx (data_blocks n s) = 15
       else dq_cmdBytesNeeded (tdq n (data_blocks n s)) \<le> ct_mode (tdq n (data_blocks n s)))"
  using assms
proof (induction n s rule: data_blocks.induct)
  case (1 n s)
  show ?case
  proof (cases "ct_mode (tdq n s) < dq_cmdBytesNeeded (tdq n s)")
    case True
    note step = add_block_ok [OF "1.prems" True]
    have eq: "data_blocks n s = data_blocks n (add_block n s)"
      using True "1.prems"(2) by (subst data_blocks.simps) simp
    show ?thesis
    proof (cases "v_done (add_block n s)")
      case True
      then have "data_blocks n (add_block n s) = add_block n s"
        by (subst data_blocks.simps) simp
      with step True show ?thesis
        unfolding eq by simp
    next
      case False
      have "ct_mode (tdq n s) < dq_cmdBytesNeeded (tdq n s) \<and> \<not> v_done s"
        using True "1.prems"(2) by simp
      from "1.IH" [OF this] step False show ?thesis
        unfolding eq using same_cmds_trans by blast
    qed
  next
    case False
    then have "data_blocks n s = s"
      by (subst data_blocks.simps) simp
    with "1.prems" False show ?thesis
      by (simp add: not_less)
  qed
qed

lemma data_cmds_0 [simp]: "data_cmds m 0 = []"
  by (simp add: data_cmds_def block_cmds.simps)

lemma data_cmds_last: "data_cmds (Suc 0) (Suc 0) = [cmd_word I2C_CMD_READ 1 True False False]"
  by (simp add: data_cmds_def block_cmds.simps)

lemma last_read_ok:
  assumes "open_elem n s" and "ct_addrCmdSent (tdq n s)"
    and "if v_done s then v_cmdIdx s = 15 else dq_cmdBytesNeeded (tdq n s) \<le> ct_mode (tdq n s)"
  defines "t \<equiv> fill_last_read n s"
  shows "same_cmds n s t \<and> open_elem n t \<and> ct_addrCmdSent (tdq n t)
    \<and> (if v_done t then v_cmdIdx t = 15 else dq_cmdBytesNeeded (tdq n t) = 0)"
proof (cases "\<not> v_done s \<and> ct_mode (tdq n s) = 1 \<and> dq_cmdBytesNeeded (tdq n s) = 1")
  case True
  with assms(1,2) show ?thesis
    by (auto simp: t_def fill_last_read_def same_cmds_def open_elem_def wf_elem_def pending_cmds_def
        start_cmds_def addr_cmds_def stop_cmds_def data_cmds_last)
next
  case False
  then have "t = s"
    by (auto simp: t_def fill_last_read_def)
  moreover have "dq_cmdBytesNeeded (tdq n s) = 0" if "\<not> v_done s"
    using that False assms(1,3) by (auto simp: open_elem_def wf_elem_def)
  ultimately show ?thesis
    using assms by simp
qed

lemma data_flag_ok:
  fixes n s
  defines "t \<equiv> upd_tdq n (\<lambda>e. e\<lparr>ct_dataCmdSent := dq_cmdBytesNeeded e = 0\<rparr>) s"
  assumes "open_elem n s"
  shows "same_cmds n s t \<and> open_elem n t \<and> ct_addrCmdSent (tdq n t) = ct_addrCmdSent (tdq n s)
    \<and> v_done t = v_done s \<and> v_cmdIdx t = v_cmdIdx s
    \<and> dq_cmdBytesNeeded (tdq n t) = dq_cmdBytesNeeded (tdq n s)
    \<and> ct_dataCmdSent (tdq n t) = (dq_cmdBytesNeeded (tdq n s) = 0)"
  using assms(2)
  by (simp add: t_def same_cmds_def open_elem_def wf_elem_def pending_cmds_def start_cmds_def addr_cmds_def
      stop_cmds_def)

lemma fill_stop_ok:
  assumes "open_elem n s" and "ct_addrCmdSent (tdq n s)"
    and "ct_dataCmdSent (tdq n s) = (dq_cmdBytesNeeded (tdq n s) = 0)"
    and "if v_done s then v_cmdIdx s = 15 else dq_cmdBytesNeeded (tdq n s) = 0"
  defines "t \<equiv> fill_stop n s"
  shows "same_cmds n s t \<and> open_elem n t \<and> ct_addrCmdSent (tdq n t)
    \<and> (if v_done t then v_cmdIdx t = 15 else ct_stopCmdSent (tdq n t))"
  using assms(1-4)
  by (auto simp: t_def fill_stop_def same_cmds_def open_elem_def wf_elem_def pending_cmds_def start_cmds_def
      addr_cmds_def stop_cmds_def)

lemma fill_data_ok:
  assumes "open_elem n s" and "\<not> v_done s" and "ct_addrCmdSent (tdq n s)"
  defines "t \<equiv> fill_data n s"
  shows "same_cmds n s t \<and> open_elem n t \<and> ct_addrCmdSent (tdq n t)
    \<and> (if v_done t then v_cmdIdx t = 15 else ct_stopCmdSent (tdq n t))"
proof -
  define u where "u = data_blocks n s"
  define v where "v = fill_last_read n u"
  define w where "w = upd_tdq n (\<lambda>e. e\<lparr>ct_dataCmdSent := dq_cmdBytesNeeded e = 0\<rparr>) v"
  have u: "same_cmds n s u \<and> open_elem n u \<and> ct_addrCmdSent (tdq n u)
    \<and> (if v_done u then v_cmdIdx u = 15 else dq_cmdBytesNeeded (tdq n u) \<le> ct_mode (tdq n u))"
    unfolding u_def by (rule data_blocks_ok [OF assms(1-3)])
  then have v: "same_cmds n u v \<and> open_elem n v \<and> ct_addrCmdSent (tdq n v)
    \<and> (if v_done v then v_cmdIdx v = 15 else dq_cmdBytesNeeded (tdq n v) = 0)"
    unfolding v_def by (intro last_read_ok) blast+
  have w: "same_cmds n v w \<and> open_elem n w \<and> ct_addrCmdSent (tdq n w)
    \<and> (if v_done w then v_cmdIdx w = 15 else dq_cmdBytesNeeded (tdq n w) = 0)
    \<and> ct_dataCmdSent (tdq n w) = (dq_cmdBytesNeeded (tdq n w) = 0)"
    using data_flag_ok [of n v] v by (simp add: w_def)
  then have "same_cmds n w (fill_stop n w) \<and> open_elem n (fill_stop n w) \<and> ct_addrCmdSent (tdq n (fill_stop n w))
    \<and> (if v_done (fill_stop n w) then v_cmdIdx (fill_stop n w) = 15 else ct_stopCmdSent (tdq n (fill_stop n w)))"
    by (intro fill_stop_ok) blast+
  moreover have "t = fill_stop n w"
    using assms(2,3) by (simp add: t_def fill_data_def u_def v_def w_def)
  moreover have "same_cmds n s w"
    using u v w same_cmds_trans by blast
  ultimately show ?thesis
    using same_cmds_trans by metis
qed

section \<open>Stretching\<close>

lemma cmd_at_wr [simp]:
  "cmd_at n k (wr (I2c n (icommand i)) v s) = (if k = i then v else cmd_at n k s)"
  "cmd_at n k (setf (I2c n (icommand i)) f v s) = (if k = i then bf_put f v (cmd_at n i s) else cmd_at n k s)"
  by (simp_all add: cmd_at_def setf_def rd_wr)

lemma is_transfer_byte_num [simp]: "is_transfer (bf_put c_byte_num v c) = is_transfer c"
  by (simp add: is_transfer_def i2c_cmd_fields bf_get_put_other bf_disjoint_def)

lemma dummy_byte_num: "dummy (bf_put c_byte_num 0 c) = is_transfer c"
  by (simp add: dummy_def i2c_cmd_fields bf_get_put_same) (simp add: i2c_cmd_fields [symmetric])

abbreviation real :: "u32 list \<Rightarrow> u32 list" where
  "real cs \<equiv> filter (\<lambda>c. \<not> dummy c) cs"

lemma stretch_frame [simp]:
  "i2c_bus (stretch n i s) = i2c_bus s"
  "k > i + 1 \<Longrightarrow> cmd_at n k (stretch n i s) = cmd_at n k s"
  by (induction i arbitrary: s) (simp_all add: Let_def)

lemma stretch_vars [simp]:
  "v_cmdIdx (stretch n i s) = v_cmdIdx s" "v_qp (stretch n i s) = v_qp s"
  by (induction i arbitrary: s) (simp_all add: Let_def)

lemma stretch_real:
  assumes "\<exists>k \<le> i. is_transfer (cmd_at n k s)"
  shows "real (map (\<lambda>k. cmd_at n k (stretch n i s)) [0..<i + 2]) = real (map (\<lambda>k. cmd_at n k s) [0..<i + 1])
    \<and> cmd_at n (i + 1) (stretch n i s) = cmd_at n i s"
  using assms
proof (induction i arbitrary: s)
  case 0
  then have t: "is_transfer (cmd_at n 0 s)"
    by simp
  then show ?case
    by (simp add: Let_def cmd_at_def [symmetric] dummy_byte_num eval_nat_numeral)
next
  case (Suc i)
  let ?s = "wr (I2c n (icommand (Suc i + 1))) (cmd_at n (Suc i) s) s"
  show ?case
  proof (cases "is_transfer (cmd_at n (Suc i) s)")
    case True
    define t where "t = setf (I2c n (icommand (Suc i))) c_byte_num 0 ?s"
    have eq: "stretch n (Suc i) s = t"
      using True by (simp add: t_def Let_def cmd_at_def [symmetric])
    have low: "map (\<lambda>k. cmd_at n k t) [0..<Suc i] = map (\<lambda>k. cmd_at n k s) [0..<Suc i]"
      unfolding t_def by (rule map_cong) auto
    have vals: "cmd_at n (Suc i) t = bf_put c_byte_num 0 (cmd_at n (Suc i) s)"
      "cmd_at n (Suc (Suc i)) t = cmd_at n (Suc i) s"
      by (simp_all add: t_def)
    have upts: "[0..<Suc i + 2] = [0..<Suc i] @ [Suc i, Suc (Suc i)]" "[0..<Suc i + 1] = [0..<Suc i] @ [Suc i]"
      by simp_all
    have "dummy (cmd_at n (Suc i) t)"
      unfolding vals using True by (simp add: dummy_byte_num)
    then show ?thesis
      unfolding eq upts map_append filter_append low using vals(2) by simp
  next
    case False
    then have eq: "stretch n (Suc i) s = stretch n i ?s"
      unfolding stretch.simps Let_def cmd_at_def by (simp add: rd_wr)
    obtain k where k: "k \<le> Suc i" "is_transfer (cmd_at n k s)"
      using Suc.prems by blast
    then have "k \<le> i"
      using False by (cases "k = Suc i") simp_all
    then have "is_transfer (cmd_at n k ?s)"
      using k(2) by simp
    with \<open>k \<le> i\<close> have "\<exists>k \<le> i. is_transfer (cmd_at n k ?s)"
      by blast
    note IH = Suc.IH [OF this]
    have same: "map (\<lambda>k. cmd_at n k ?s) [0..<i + 1] = map (\<lambda>k. cmd_at n k s) [0..<i + 1]"
      by (rule map_cong) auto
    have top: "cmd_at n (Suc i + 1) (stretch n i ?s) = cmd_at n (Suc i) s"
      by simp
    have upts: "[0..<Suc i + 2] = [0..<i + 2] @ [Suc i + 1]" "[0..<Suc i + 1] = [0..<i + 1] @ [Suc i]"
      by simp_all
    show ?thesis
      unfolding eq upts map_append filter_append conjunct1 [OF IH] same by (simp only: top list.map simp_thms)
  qed
qed

section \<open>One element\<close>

definition elem_queue :: "nat \<Rightarrow> i2c_fill \<Rightarrow> u32 list" where
  "elem_queue n s = concat (map pending_cmds (drop (v_qp s) (ob_dq (i2c_bus s n))))"

lemma elem_queue_split:
  "v_qp s < dq_len n s \<Longrightarrow> elem_queue n s = pending_cmds (tdq n s) @ concat (map pending_cmds (snd (others n s)))"
  by (simp add: elem_queue_def others_def tdq_def dq_at_def dq_len_def flip: Cons_nth_drop_Suc)

text \<open>Elements before the current one are finished, elements behind it are untouched.\<close>

definition shape :: "nat \<Rightarrow> i2c_fill \<Rightarrow> bool" where
  "shape n s \<longleftrightarrow> (\<forall>e\<in>set (fst (others n s)). ct_stopCmdSent e \<and> wf_elem e)
     \<and> (\<forall>e\<in>set (snd (others n s)). \<not> ct_startCmdSent e \<and> wf_elem e)"

text \<open>
  The invariant of the loop, for the commands \<open>P\<close> still needed when it began: the commands written and
  those still needed make up \<open>P\<close>, the last one written is no START, and a transfer was written unless
  at most one command was.
\<close>

definition fill_inv :: "nat \<Rightarrow> u32 list \<Rightarrow> i2c_fill \<Rightarrow> bool" where
  "fill_inv n P s \<longleftrightarrow> open_elem n s \<and> shape n s \<and> cmds n s @ elem_queue n s = P
     \<and> (cmds n s = [] \<or> \<not> ct_startCmdSent (tdq n s) \<and> last (cmds n s) \<noteq> rstart)
     \<and> ((\<exists>c\<in>set (cmds n s). is_transfer c) \<or> v_cmdIdx s \<le> 1)"

definition fill_final :: "nat \<Rightarrow> u32 list \<Rightarrow> i2c_fill \<Rightarrow> bool" where
  "fill_final n P s \<longleftrightarrow> shape n s \<and> v_qp s \<le> dq_len n s
     \<and> (v_qp s < dq_len n s \<longrightarrow> wf_elem (tdq n s))
     \<and> real (map (\<lambda>i. cmd_at n i s) [0..<min 15 (v_cmdIdx s)]) @ elem_queue n s = P
     \<and> (elem_queue n s \<noteq> [] \<longrightarrow> 15 \<le> v_cmdIdx s)
     \<and> (15 \<le> v_cmdIdx s \<longrightarrow> cmd_at n 15 s = cmd_word I2C_CMD_END 0 False False False
          \<and> cmd_at n 14 s \<noteq> cmd_word I2C_CMD_RSTART 0 False False False)"

lemma transfer_addr: "\<not> ct_addrCmdSent e \<Longrightarrow> \<exists>c\<in>set (pending_cmds e). is_transfer c"
  by (simp add: pending_cmds_def addr_cmds_def is_transfer_def cmd_word_fields i2c_cmds)

lemma pending_transfer:
  assumes "wf_elem e"
  shows "(\<exists>c\<in>set (pending_cmds e). is_transfer c) \<or> length (pending_cmds e) \<le> 1"
proof (cases "ct_addrCmdSent e")
  case False
  then show ?thesis
    using transfer_addr by blast
next
  case True
  then have start: "start_cmds e = []" "addr_cmds e = []"
    using assms by (auto simp: wf_elem_def start_cmds_def addr_cmds_def)
  show ?thesis
  proof (cases "data_cmds (ct_mode e) (dq_cmdBytesNeeded e)")
    case Nil
    with start show ?thesis
      by (simp add: pending_cmds_def stop_cmds_def)
  next
    case (Cons c cs)
    then have "is_transfer c"
      by (auto simp: data_cmds_def block_cmds.simps [of "ct_mode e" "dq_cmdBytesNeeded e"] transfer_cmd_def is_transfer_def
          cmd_word_fields i2c_cmds split: if_splits)
    with start Cons show ?thesis
      by (simp add: pending_cmds_def)
  qed
qed

lemma fill_element_steps:
  assumes "open_elem n s" and "\<not> v_done s"
  obtains t where "fill_element n s = fill_next n (fill_end n (fill_stretch n t))"
    "same_cmds n s t" "open_elem n t"
    "if v_done t then v_cmdIdx t = 15 \<and> ct_startCmdSent (tdq n t)
     else ct_stopCmdSent (tdq n t) \<and> ct_startCmdSent (tdq n t) \<or> v_cmdIdx t = 14 \<and> \<not> ct_startCmdSent (tdq n t) \<and> t = s"
proof
  define a where "a = fill_start n s"
  define b where "b = fill_addr n a"
  define c where "c = fill_data n b"
  show "fill_element n s = fill_next n (fill_end n (fill_stretch n c))"
    by (simp add: fill_element_def a_def b_def c_def)
  have a: "same_cmds n s a \<and> open_elem n a \<and> \<not> v_done a
    \<and> (ct_startCmdSent (tdq n a) \<or> v_cmdIdx a = 14 \<and> \<not> ct_addrCmdSent (tdq n a) \<and> a = s)"
    unfolding a_def by (rule fill_start_ok [OF assms])
  then have b: "same_cmds n a b \<and> open_elem n b \<and> (v_done b \<longrightarrow> v_cmdIdx b = 15 \<and> ct_startCmdSent (tdq n b))
    \<and> (\<not> v_done b \<longrightarrow> ct_addrCmdSent (tdq n b) \<or> v_cmdIdx b = 14 \<and> \<not> ct_startCmdSent (tdq n b) \<and> b = s)"
    unfolding b_def using fill_addr_ok [of n a] by (metis (no_types, lifting))
  have sb: "same_cmds n s b"
    using a b same_cmds_trans by blast
  have started: "ct_startCmdSent (tdq n x)" if "open_elem n x" "ct_addrCmdSent (tdq n x)" for x
    using that by (simp add: open_elem_def wf_elem_def)
  have steps: "same_cmds n s c \<and> open_elem n c
    \<and> (if v_done c then v_cmdIdx c = 15 \<and> ct_startCmdSent (tdq n c)
       else ct_stopCmdSent (tdq n c) \<and> ct_startCmdSent (tdq n c) \<or> v_cmdIdx c = 14 \<and> \<not> ct_startCmdSent (tdq n c) \<and> c = s)"
  proof (cases "\<not> v_done b \<and> ct_addrCmdSent (tdq n b)")
    case True
    then have "same_cmds n b c \<and> open_elem n c \<and> ct_addrCmdSent (tdq n c)
      \<and> (if v_done c then v_cmdIdx c = 15 else ct_stopCmdSent (tdq n c))"
      unfolding c_def using b by (intro fill_data_ok) blast+
    with sb started show ?thesis
      using same_cmds_trans by (metis (full_types))
  next
    case False
    then have "c = b"
      by (auto simp: c_def fill_data_def)
    with False b sb show ?thesis
      by auto
  qed
  show "same_cmds n s c"
    by (rule conjunct1 [OF steps])
  show "open_elem n c"
    by (rule conjunct1 [OF conjunct2 [OF steps]])
  show "if v_done c then v_cmdIdx c = 15 \<and> ct_startCmdSent (tdq n c)
     else ct_stopCmdSent (tdq n c) \<and> ct_startCmdSent (tdq n c) \<or> v_cmdIdx c = 14 \<and> \<not> ct_startCmdSent (tdq n c) \<and> c = s"
    by (rule conjunct2 [OF conjunct2 [OF steps]])
qed

lemma last_pending:
  assumes "wf_elem e" and "pending_cmds e \<noteq> []"
  shows "last (pending_cmds e) \<noteq> rstart"
proof -
  have blocks: "rstart \<notin> set (block_cmds m k)" for m k
    by (induction m k rule: block_cmds.induct) (subst block_cmds.simps, auto)
  then have rest: "rstart \<notin> set (addr_cmds e @ data_cmds (ct_mode e) (dq_cmdBytesNeeded e) @ stop_cmds e)"
    by (auto simp: addr_cmds_def data_cmds_def stop_cmds_def split: if_splits)
  have "addr_cmds e \<noteq> []" if "start_cmds e \<noteq> []"
    using that assms(1) by (auto simp: start_cmds_def addr_cmds_def wf_elem_def split: if_splits)
  with assms(2) have "addr_cmds e @ data_cmds (ct_mode e) (dq_cmdBytesNeeded e) @ stop_cmds e \<noteq> []"
    by (auto simp: pending_cmds_def)
  with rest show ?thesis
    unfolding pending_cmds_def by (metis last_appendR last_in_set)
qed

lemma shape_others: "others n t = others n s \<Longrightarrow> shape n t = shape n s"
  by (simp add: shape_def)

lemma same_cmds_queue:
  "same_cmds n s t \<Longrightarrow> v_qp s < dq_len n s \<Longrightarrow> cmds n t @ elem_queue n t = cmds n s @ elem_queue n s"
  by (simp add: same_cmds_def elem_queue_split)

lemma fill_end_ok:
  fixes n s
  defines "t \<equiv> fill_end n s"
  assumes "v_cmdIdx s = 15"
  shows "v_done t" "v_cmdIdx t = 16" "others n t = others n s" "v_qp t = v_qp s" "dq_len n t = dq_len n s"
    "tdq n t = tdq n s" "elem_queue n t = elem_queue n s" "cmd_at n 15 t = cmd_word I2C_CMD_END 0 False False False"
    "i < 15 \<Longrightarrow> cmd_at n i t = cmd_at n i s"
proof -
  have bus: "i2c_bus t = i2c_bus s" "v_qp t = v_qp s"
    using assms(2) by (simp_all add: t_def fill_end_def)
  then show "others n t = others n s" "v_qp t = v_qp s" "dq_len n t = dq_len n s"
    "tdq n t = tdq n s" "elem_queue n t = elem_queue n s"
    by (simp_all add: others_def dq_len_def tdq_def dq_at_def elem_queue_def)
  show "v_done t" "v_cmdIdx t = 16" "cmd_at n 15 t = cmd_word I2C_CMD_END 0 False False False"
    "i < 15 \<Longrightarrow> cmd_at n i t = cmd_at n i s"
    using assms(2) by (simp_all add: t_def fill_end_def cmd_at_def add_cmd_def i2cSetCmd_def rd_def wr_def setf_def)
qed

lemma final_end:
  assumes "v_cmdIdx u = 15" and "shape n u" and "v_qp u < dq_len n u" and "wf_elem (tdq n u)"
    and "real (map (\<lambda>i. cmd_at n i u) [0..<15]) @ elem_queue n u = P" and "cmd_at n 14 u \<noteq> rstart"
  shows "fill_final n P (fill_end n u)"
proof -
  note e = fill_end_ok [where n = n, OF assms(1)]
  have "map (\<lambda>i. cmd_at n i (fill_end n u)) [0..<15] = map (\<lambda>i. cmd_at n i u) [0..<15]"
    by (rule map_cong) (use e(9) in auto)
  with assms e show ?thesis
    by (simp add: fill_final_def shape_others [OF e(3)] del: map_eq_conv)
qed

lemma fill_next_done [simp]: "v_done s \<Longrightarrow> fill_next n s = s"
  by (simp add: fill_next_def)

lemma element_full:
  assumes "fill_inv n P s" and "real P = P" and "same_cmds n s t" and "open_elem n t"
    and "v_cmdIdx t = 15" and "ct_startCmdSent (tdq n t)"
  shows "fill_final n P (fill_next n (fill_end n (fill_stretch n t)))"
proof -
  have qp: "v_qp s < dq_len n s" "v_qp t < dq_len n t" "others n t = others n s"
    using assms(1,3,4) by (auto simp: fill_inv_def open_elem_def same_cmds_def)
  have P: "cmds n t @ elem_queue n t = P"
    using same_cmds_queue [OF assms(3) qp(1)] assms(1) by (simp add: fill_inv_def)
  have "real (cmds n t) = cmds n t"
    using assms(2) P by (metis (no_types, lifting) filter_append filter_id_conv set_append Un_iff)
  then have real: "real (map (\<lambda>i. cmd_at n i t) [0..<15]) @ elem_queue n t = P"
    using P assms(5) by (simp add: cmds_def del: map_eq_conv)
  have "cmds n t ! 14 \<in> set (drop 14 (cmds n t))"
    using assms(5) by (auto simp: in_set_conv_nth intro!: exI [of _ 0])
  then have "cmd_at n 14 t \<noteq> rstart"
    using assms(4,5) by (auto simp: open_elem_def cmds_def)
  moreover have "shape n t" "wf_elem (tdq n t)"
    using assms(1,4) qp(3) by (auto simp: fill_inv_def shape_others [OF qp(3)] open_elem_def)
  ultimately have "fill_final n P (fill_end n t)"
    using assms(5) qp(2) real by (intro final_end)
  moreover have "fill_stretch n t = t"
    using assms(5) by (simp add: fill_stretch_def)
  ultimately show ?thesis
    using fill_end_ok(1) [OF assms(5)] by simp
qed

lemma element_stretched:
  assumes "fill_inv n P s" and "real P = P" and "v_cmdIdx s = 14" and "\<not> ct_startCmdSent (tdq n s)"
  shows "fill_final n P (fill_next n (fill_end n (fill_stretch n s)))"
proof -
  define u where "u = (stretch n 13 (s\<lparr>v_cmdIdx := 15\<rparr>))\<lparr>v_done := True\<rparr>"
  let ?w = "stretch n 13 (s\<lparr>v_cmdIdx := 15\<rparr>)"
  have P: "cmds n s @ elem_queue n s = P" "v_qp s < dq_len n s" "shape n s" "wf_elem (tdq n s)"
    using assms(1) by (auto simp: fill_inv_def open_elem_def)
  have at: "cmd_at n i (s\<lparr>v_cmdIdx := 15\<rparr>) = cmd_at n i s" "cmd_at n i (s\<lparr>v_done := True\<rparr>) = cmd_at n i s"
    for i and s :: i2c_fill
    by (simp_all add: cmd_at_def rd_def)
  have real14: "real (cmds n s) = cmds n s"
    using assms(2) P(1) by (metis (no_types, lifting) filter_append filter_id_conv set_append Un_iff)
  have "\<exists>c\<in>set (cmds n s). is_transfer c"
    using assms(1,3) by (auto simp: fill_inv_def)
  then have "\<exists>k\<le>13. is_transfer (cmd_at n k (s\<lparr>v_cmdIdx := 15\<rparr>))"
    using assms(3) by (auto simp: cmds_def at) (metis less_Suc_eq_le eval_nat_numeral(2,3) BitM.simps)
  note st = stretch_real [OF this, unfolded at]
  have u: "v_cmdIdx u = 15" "i2c_bus u = i2c_bus s" "v_qp u = v_qp s"
    by (simp_all add: u_def)
  have view: "others n u = others n s" "dq_len n u = dq_len n s" "tdq n u = tdq n s" "elem_queue n u = elem_queue n s"
    using u by (simp_all add: others_def dq_len_def tdq_def dq_at_def elem_queue_def)
  have "real (map (\<lambda>i. cmd_at n i u) [0..<15]) = real (cmds n s)"
    using conjunct1 [OF st] assms(3) by (simp add: u_def at cmds_def del: map_eq_conv)
  then have real: "real (map (\<lambda>i. cmd_at n i u) [0..<15]) @ elem_queue n u = P"
    using P(1) by (simp only: real14 view)
  have "cmd_at n 14 u = last (cmds n s)"
    using conjunct2 [OF st] assms(3) by (simp add: u_def at cmds_def last_map)
  then have "cmd_at n 14 u \<noteq> rstart"
    using assms(1,3,4) by (auto simp: fill_inv_def simp flip: length_0_conv)
  moreover have "shape n u" "v_qp u < dq_len n u" "wf_elem (tdq n u)"
    using P(2-4) by (simp_all add: shape_others [OF view(1)] view u)
  ultimately have "fill_final n P (fill_end n u)"
    using u(1) real by (intro final_end)
  moreover have "fill_stretch n s = u"
    using assms(3,4) by (simp add: fill_stretch_def u_def)
  ultimately show ?thesis
    using fill_end_ok(1) [OF u(1)] by simp
qed

lemma others_next:
  assumes "v_qp s < dq_len n s"
  shows "fst (others n (s\<lparr>v_qp := v_qp s + 1\<rparr>)) = fst (others n s) @ [tdq n s]"
    and "v_qp s + 1 < dq_len n s \<Longrightarrow>
      snd (others n s) = tdq n (s\<lparr>v_qp := v_qp s + 1\<rparr>) # snd (others n (s\<lparr>v_qp := v_qp s + 1\<rparr>))"
    and "set (snd (others n (s\<lparr>v_qp := v_qp s + 1\<rparr>))) \<subseteq> set (snd (others n s))"
    and "elem_queue n (s\<lparr>v_qp := v_qp s + 1\<rparr>) = concat (map pending_cmds (snd (others n s)))"
  using assms
  by (simp_all add: others_def tdq_def dq_at_def dq_len_def elem_queue_def take_Suc_conv_app_nth
      Cons_nth_drop_Suc set_drop_subset_set_drop)

lemma element_closed:
  assumes "fill_inv n P s" and "real P = P" and "same_cmds n s t" and "open_elem n t" and "\<not> v_done t"
    and "ct_stopCmdSent (tdq n t)" and "ct_startCmdSent (tdq n t)"
  defines "u \<equiv> fill_next n (fill_end n (fill_stretch n t))"
  shows "if v_done u then fill_final n P u else fill_inv n P u \<and> v_qp u = v_qp s + 1 \<and> dq_len n u = dq_len n s"
proof -
  let ?v = "t\<lparr>v_qp := v_qp t + 1\<rparr>"
  have qp: "v_qp s < dq_len n s" "v_qp t < dq_len n t" "v_qp t = v_qp s" "dq_len n t = dq_len n s"
      "others n t = others n s" "v_cmdIdx t \<le> 14" "wf_elem (tdq n t)" "v_cmdIdx s \<le> v_cmdIdx t"
    using assms(1,3,4,5) by (auto simp: fill_inv_def open_elem_def same_cmds_def)
  have "fill_stretch n t = t" "fill_end n t = t"
    using assms(7) qp(6) by (simp_all add: fill_stretch_def fill_end_def)
  then have u: "u = (if v_qp t + 1 < dq_len n t then ?v else ?v\<lparr>v_done := True\<rparr>)"
    using assms(5,6) by (simp add: u_def fill_next_def Let_def queueCount_def dq_len_def)
  have empty: "pending_cmds (tdq n t) = []"
    using qp(7) assms(6) by (rule pending_closed)
  have at: "cmd_at n i (s\<lparr>v_qp := k\<rparr>) = cmd_at n i s" "cmd_at n i (s\<lparr>v_done := True\<rparr>) = cmd_at n i s"
    for i k and s :: i2c_fill
    by (simp_all add: cmd_at_def rd_def)
  have cmds: "cmds n t = cmds n s @ pending_cmds (tdq n s)"
    using assms(3) empty by (simp add: same_cmds_def)
  note next_elem = others_next [OF qp(2)]
  have P: "cmds n t @ elem_queue n ?v = P"
    using same_cmds_queue [OF assms(3) qp(1)] assms(1) elem_queue_split [OF qp(2)] empty next_elem(4)
    by (simp add: fill_inv_def)
  have old: "shape n s" "wf_elem (tdq n s)"
    using assms(1) by (auto simp: fill_inv_def open_elem_def)
  have shape: "shape n ?v"
    using old(1) assms(6) qp(7) next_elem(1,3) by (auto simp: shape_def qp(5))
  show ?thesis
  proof (cases "v_qp t + 1 < dq_len n t")
    case True
    then have u: "u = ?v"
      by (simp add: u)
    have "tdq n ?v \<in> set (snd (others n s))"
      using next_elem(2) [OF True] qp(5) by simp
    then have fresh: "\<not> ct_startCmdSent (tdq n ?v)" "wf_elem (tdq n ?v)"
      using old(1) by (auto simp: shape_def)
    have v: "cmds n ?v = cmds n t" "v_cmdIdx ?v = v_cmdIdx t" "dq_len n ?v = dq_len n t" "\<not> v_done ?v"
      using assms(5) by (simp_all add: cmds_def at dq_len_def)
    have "open_elem n ?v"
      using assms(4) True fresh(2) v by (simp add: open_elem_def)
    moreover have "last (cmds n t) \<noteq> rstart" if "cmds n t \<noteq> []"
    proof (cases "pending_cmds (tdq n s) = []")
      case True
      with that assms(1) cmds show ?thesis
        by (simp add: fill_inv_def)
    next
      case False
      with last_pending [OF old(2)] cmds show ?thesis
        by simp
    qed
    moreover have "(\<exists>c\<in>set (cmds n t). is_transfer c) \<or> v_cmdIdx t \<le> 1"
    proof (cases "cmds n s = []")
      case True
      then have "v_cmdIdx t = length (pending_cmds (tdq n s))"
        using length_cmds [of n t] by (simp add: cmds del: length_cmds)
      with True pending_transfer [OF old(2)] cmds show ?thesis
        by auto
    next
      case False
      then have "\<not> ct_addrCmdSent (tdq n s)"
        using assms(1) old(2) by (auto simp: fill_inv_def wf_elem_def)
      from transfer_addr [OF this] show ?thesis
        by (auto simp: cmds)
    qed
    ultimately have "fill_inv n P ?v"
      using shape P fresh(1) v by (auto simp: fill_inv_def)
    then show ?thesis
      using v qp u by simp
  next
    case False
    let ?w = "?v\<lparr>v_done := True\<rparr>"
    have w: "u = ?w" "others n ?w = others n ?v" "dq_len n ?w = dq_len n t" "elem_queue n ?w = elem_queue n ?v"
      using False by (simp_all add: u others_def dq_len_def elem_queue_def)
    have "elem_queue n ?v = []"
      using False by (simp add: elem_queue_def dq_len_def)
    moreover have "real (cmds n t) @ elem_queue n ?v = P"
      using assms(2) P by (metis (no_types, lifting) filter_append filter_id_conv set_append Un_iff)
    moreover have "map (\<lambda>i. cmd_at n i ?w) [0..<min 15 (v_cmdIdx ?w)] = cmds n t"
      using qp(6) by (simp add: cmds_def at min_def)
    ultimately have "fill_final n P ?w"
      using False qp(2,6) shape shape_others [OF w(2)] w(3,4) unfolding fill_final_def by simp
    then show ?thesis
      by (simp add: w(1))
  qed
qed

section \<open>What a fill leaves alone\<close>

definition fill_frame :: "nat \<Rightarrow> 'a i2c_soc_scheme \<Rightarrow> 'b i2c_soc_scheme \<Rightarrow> bool" where
  "fill_frame n s t \<longleftrightarrow> i2c_lock t = i2c_lock s \<and> i2c_ram t = i2c_ram s \<and> (\<forall>l. held l t = held l s)
     \<and> (\<forall>m. m \<noteq> n \<longrightarrow> i2c_bus t m = i2c_bus s m)
     \<and> (i2c_bus t n)\<lparr>ob_dq := []\<rparr> = (i2c_bus s n)\<lparr>ob_dq := []\<rparr>
     \<and> length (ob_dq (i2c_bus t n)) = length (ob_dq (i2c_bus s n))"

lemma fill_frame_refl: "fill_frame n s s"
  by (simp add: fill_frame_def)

lemma fill_frame_trans: "fill_frame n s t \<Longrightarrow> fill_frame n t u \<Longrightarrow> fill_frame n s u"
  by (simp add: fill_frame_def)

lemmas fill_frame_defs =
  fill_frame_def upd_tdq_def upd_dq_def upd_bus_def add_cmd_def i2cSetCmd_def full_now_def held_def

lemma fill_frame_small:
  "fill_frame n s (fill_start n s)" "fill_frame n s (fill_addr n s)" "fill_frame n s (add_block n s)"
  "fill_frame n s (fill_last_read n s)" "fill_frame n s (fill_stop n s)" "fill_frame n s (fill_end n s)"
  "fill_frame n s (fill_next n s)" "fill_frame n s (upd_tdq n f s)"
  by (simp_all add: fill_frame_defs fill_start_def fill_addr_def add_block_def fill_last_read_def
      fill_stop_def fill_end_def fill_next_def Let_def wr_def setf_def)

lemma fill_frame_stretch: "fill_frame n s (stretch n i s)"
proof (induction i arbitrary: s)
  case (Suc i)
  have "fill_frame n (wr r v s) u \<Longrightarrow> fill_frame n s u" for r v u
    by (simp add: fill_frame_def)
  with Suc show ?case
    by (auto simp: Let_def fill_frame_def)
qed (simp add: Let_def fill_frame_def)

lemma fill_frame_blocks: "fill_frame n s (data_blocks n s)"
proof (induction n s rule: data_blocks.induct)
  case (1 n s)
  then show ?case
    using fill_frame_trans [OF fill_frame_small(3) [of n s], of "data_blocks n (add_block n s)"]
    by (subst data_blocks.simps) (simp add: fill_frame_refl)
qed

lemma fill_frame_element: "fill_frame n s (fill_element n s)"
proof -
  have data: "fill_frame n s (fill_data n s)" for s
    using fill_frame_trans [OF fill_frame_blocks [of n s] fill_frame_trans [OF fill_frame_small(4)
          fill_frame_trans [OF fill_frame_small(8) fill_frame_small(5)]]]
    by (simp add: fill_data_def fill_frame_refl)
  have "fill_frame n s (fill_stretch n s)" for s
  proof -
    have "fill_frame n s (stretch n 13 (s\<lparr>v_cmdIdx := 15\<rparr>))"
      using fill_frame_stretch [of n "s\<lparr>v_cmdIdx := 15\<rparr>" 13] by (simp add: fill_frame_def held_def)
    then show ?thesis
      by (simp add: fill_stretch_def fill_frame_def held_def)
  qed
  then show ?thesis
    unfolding fill_element_def exec.simps
    by (rule fill_frame_trans [OF fill_frame_small(1) fill_frame_trans [OF fill_frame_small(2)
          fill_frame_trans [OF data fill_frame_trans [OF _ fill_frame_trans [OF fill_frame_small(6)
          fill_frame_small(7)]]]]])
qed

lemma fill_frame_loop:
  assumes "fill_loop n s = Some t"
  shows "fill_frame n s t"
proof (rule fill_loop.raw_induct [where P = "\<lambda>n s t. fill_frame n s t", OF _ assms])
  fix f n and s t :: i2c_fill
  assume IH: "\<And>n s t. f n s = Some t \<Longrightarrow> fill_frame n s t"
    and eq: "(if v_done s then Some s else f n (fill_element n s)) = Some t"
  then show "fill_frame n s t"
    using fill_frame_trans [OF fill_frame_element [of n s], of t]
    by (auto simp: fill_frame_refl split: if_splits)
qed

section \<open>The loop\<close>

lemma v_qp_mono:
  "v_qp (fill_stretch n s) = v_qp s" "v_qp (fill_end n s) = v_qp s" "v_qp s \<le> v_qp (fill_next n s)"
  by (simp_all add: fill_stretch_def fill_end_def fill_next_def Let_def)

lemma fill_element_ok:
  assumes "fill_inv n P s" and "real P = P" and "\<not> v_done s"
  shows "v_qp s \<le> v_qp (fill_element n s)" and "if v_done (fill_element n s) then fill_final n P (fill_element n s)
    else fill_inv n P (fill_element n s) \<and> v_qp (fill_element n s) = v_qp s + 1
      \<and> dq_len n (fill_element n s) = dq_len n s"
proof -
  have "open_elem n s"
    using assms(1) by (simp add: fill_inv_def)
  from fill_element_steps [OF this assms(3)] obtain t
    where eq: "fill_element n s = fill_next n (fill_end n (fill_stretch n t))"
      and t: "same_cmds n s t" "open_elem n t"
      and out: "if v_done t then v_cmdIdx t = 15 \<and> ct_startCmdSent (tdq n t)
        else ct_stopCmdSent (tdq n t) \<and> ct_startCmdSent (tdq n t)
          \<or> v_cmdIdx t = 14 \<and> \<not> ct_startCmdSent (tdq n t) \<and> t = s" .
  show "v_qp s \<le> v_qp (fill_element n s)"
    using v_qp_mono(3) [of "fill_end n (fill_stretch n t)" n] t(1)
    by (simp add: eq v_qp_mono same_cmds_def)
  have done_after: "v_done (fill_next n (fill_end n u))" if "v_cmdIdx u = 15" for u
    using fill_end_ok(1) [OF that] by simp
  consider "v_cmdIdx t = 15" "ct_startCmdSent (tdq n t)"
    | "\<not> v_done t" "ct_stopCmdSent (tdq n t)" "ct_startCmdSent (tdq n t)"
    | "v_cmdIdx s = 14" "\<not> ct_startCmdSent (tdq n s)" "t = s"
    using out by (auto split: if_splits)
  then show "if v_done (fill_element n s) then fill_final n P (fill_element n s)
    else fill_inv n P (fill_element n s) \<and> v_qp (fill_element n s) = v_qp s + 1
      \<and> dq_len n (fill_element n s) = dq_len n s"
  proof cases
    case 1
    have "fill_stretch n t = t"
      using 1(1) by (simp add: fill_stretch_def)
    with element_full [OF assms(1,2) t 1] done_after [OF 1(1)] show ?thesis
      unfolding eq by simp
  next
    case 2
    from element_closed [OF assms(1,2) t 2] show ?thesis
      unfolding eq .
  next
    case 3
    have "v_cmdIdx (fill_stretch n s) = 15"
      using 3 by (simp add: fill_stretch_def)
    with element_stretched [OF assms(1,2) 3(1,2)] done_after show ?thesis
      unfolding eq 3(3) by simp
  qed
qed

lemma fill_loop_ok:
  assumes "fill_inv n P s" and "real P = P" and "\<not> v_done s"
  shows "\<exists>t. fill_loop n s = Some t \<and> fill_final n P t \<and> v_qp s \<le> v_qp t"
  using assms
proof (induction "dq_len n s - v_qp s" arbitrary: s rule: less_induct)
  case less
  have step: "fill_loop n s = fill_loop n (fill_element n s)"
    using less.prems(3) by (subst fill_loop.simps) simp
  note elem = fill_element_ok [OF less.prems]
  show ?case
  proof (cases "v_done (fill_element n s)")
    case True
    then have "fill_loop n (fill_element n s) = Some (fill_element n s)"
      by (subst fill_loop.simps) simp
    with elem True show ?thesis
      unfolding step by simp
  next
    case False
    with elem have inv: "fill_inv n P (fill_element n s)" "v_qp (fill_element n s) = v_qp s + 1"
      "dq_len n (fill_element n s) = dq_len n s"
      by simp_all
    have "v_qp s < dq_len n s"
      using less.prems(1) by (simp add: fill_inv_def open_elem_def)
    with inv have "dq_len n (fill_element n s) - v_qp (fill_element n s) < dq_len n s - v_qp s"
      by simp
    from less.hyps [OF this inv(1) less.prems(2) False] inv(2) show ?thesis
      unfolding step by auto
  qed
qed

lemma first_open_ex:
  "\<exists>k. first_open es qp = qp + k \<and> k \<le> length es \<and> (\<forall>e\<in>set (take k es). ct_stopCmdSent e)
     \<and> (k < length es \<longrightarrow> \<not> ct_stopCmdSent (es ! k))"
proof (induction es arbitrary: qp)
  case (Cons e es)
  show ?case
  proof (cases "ct_stopCmdSent e")
    case True
    obtain k where "first_open es (qp + 1) = qp + 1 + k" "k \<le> length es" "\<forall>e\<in>set (take k es). ct_stopCmdSent e"
        "k < length es \<longrightarrow> \<not> ct_stopCmdSent (es ! k)"
      using Cons.IH [of "qp + 1"] by blast
    with True show ?thesis
      by (intro exI [of _ "Suc k"]) simp
  qed (auto intro!: exI [of _ 0])
qed simp

text \<open>
  The shape of a queue between two fills: its elements are well formed, those before some \<open>k\<close> have all
  their commands, those behind \<open>k\<close> none, and the driver's position is not behind \<open>k\<close>.
\<close>

definition queue_ok :: "nat \<Rightarrow> i2c_soc \<Rightarrow> bool" where
  "queue_ok n s \<longleftrightarrow> wf_queue n s \<and>
     (\<exists>k. queuePos n s \<le> k \<and> k \<le> queueCount n s \<and> (\<forall>e\<in>set (take k (ob_dq (i2c_bus s n))). ct_stopCmdSent e)
        \<and> (\<forall>e\<in>set (drop (Suc k) (ob_dq (i2c_bus s n))). \<not> ct_startCmdSent e))"

section \<open>Properties\<close>

lemma truncate_views:
  "i2c_bus (i2c_soc.truncate u) = i2c_bus u" "rd r (i2c_soc.truncate u) = rd r u"
  "i2c_lock (i2c_soc.truncate u) = i2c_lock u" "i2c_ram (i2c_soc.truncate u) = i2c_ram u"
  "held l (i2c_soc.truncate u) = held l u"
  by (simp_all add: i2c_soc.truncate_def rd_def held_def)

lemma pending_closed_list:
  "\<forall>e\<in>set es. ct_stopCmdSent e \<and> wf_elem e \<Longrightarrow> concat (map pending_cmds es) = []"
  by (auto simp: pending_closed)

lemma skip_closed:
  assumes "q \<le> r" and "\<forall>e\<in>set (take r es). ct_stopCmdSent e \<and> wf_elem e"
  shows "concat (map pending_cmds (drop q es)) = concat (map pending_cmds (drop r es))"
proof -
  have "drop q es = drop q (take r es) @ drop r es"
    using assms(1) by (metis append_take_drop_id drop_append drop_drop drop_take length_take
        le_add_diff_inverse2 take_drop)
  moreover have "concat (map pending_cmds (drop q (take r es))) = []"
    using assms(2) set_drop_subset [of q "take r es"] by (intro pending_closed_list) blast
  ultimately show ?thesis
    by simp
qed

text \<open>The element a fill begins with.\<close>

lemma queue_ok_split:
  fixes n s
  defines "dq \<equiv> ob_dq (i2c_bus s n)"
  assumes "queue_ok n s"
  obtains qp where "qp = first_open (drop (queuePos n s) dq) (queuePos n s)" "queuePos n s \<le> qp" "qp \<le> length dq"
    "\<forall>e\<in>set (take qp dq). ct_stopCmdSent e \<and> wf_elem e"
    "\<forall>e\<in>set (drop (Suc qp) dq). \<not> ct_startCmdSent e \<and> wf_elem e"
    "\<forall>e\<in>set dq. wf_elem e"
proof
  let ?q0 = "queuePos n s"
  define qp where "qp = first_open (drop ?q0 dq) ?q0"
  obtain k where k: "?q0 \<le> k" "k \<le> length dq" "\<forall>e\<in>set (take k dq). ct_stopCmdSent e"
      "\<forall>e\<in>set (drop (Suc k) dq). \<not> ct_startCmdSent e" and wf: "\<forall>e\<in>set dq. wf_elem e"
    using assms by (auto simp: queue_ok_def wf_queue_def queueCount_def)
  obtain j where j: "qp = ?q0 + j" "\<forall>e\<in>set (take j (drop ?q0 dq)). ct_stopCmdSent e"
      "j < length (drop ?q0 dq) \<longrightarrow> \<not> ct_stopCmdSent (drop ?q0 dq ! j)" "j \<le> length (drop ?q0 dq)"
    using first_open_ex [of "drop ?q0 dq" ?q0] by (auto simp: qp_def)
  then have qp: "qp \<le> length dq" "qp < length dq \<Longrightarrow> \<not> ct_stopCmdSent (dq ! qp)" "?q0 \<le> qp"
    using k(1,2) by auto
  have "k \<le> qp"
  proof (rule ccontr)
    assume "\<not> k \<le> qp"
    then have "dq ! qp \<in> set (take k dq)" "qp < length dq"
      using k(2) by (auto simp: in_set_conv_nth intro!: exI [of _ qp])
    with k(3) qp(2) show False
      by blast
  qed
  have "take qp dq = take ?q0 dq @ take j (drop ?q0 dq)"
    by (simp add: j(1) take_add)
  moreover have "set (take ?q0 dq) \<subseteq> set (take k dq)"
    by (rule set_take_subset_set_take [OF k(1)])
  ultimately show "\<forall>e\<in>set (take qp dq). ct_stopCmdSent e \<and> wf_elem e"
    using j(2) k(3) wf set_take_subset [of qp dq] by auto
  show "\<forall>e\<in>set (drop (Suc qp) dq). \<not> ct_startCmdSent e \<and> wf_elem e"
    using k(4) wf set_drop_subset_set_drop [of "Suc k" "Suc qp" dq] \<open>k \<le> qp\<close> set_drop_subset [of "Suc qp" dq]
    by auto
  show "qp = first_open (drop ?q0 dq) ?q0" "?q0 \<le> qp" "qp \<le> length dq" "\<forall>e\<in>set dq. wf_elem e"
    by (rule qp_def qp wf)+
qed

text \<open>The loop from its first state \<open>i\<close> on, and the queue it leaves.\<close>

lemma fill_loop_start:
  assumes "shape n i" and "v_cmdIdx i = 0" and "v_done i \<longleftrightarrow> \<not> v_qp i < dq_len n i" and "v_qp i \<le> dq_len n i"
    and "\<forall>e\<in>set (ob_dq (i2c_bus i n)). wf_elem e"
  obtains u where "fill_loop n i = Some u" "fill_final n (elem_queue n i) u" "v_qp i \<le> v_qp u"
proof (cases "v_qp i < dq_len n i")
  case False
  then have "fill_loop n i = Some i"
    using assms(3) by (subst fill_loop.simps) simp
  moreover have "elem_queue n i = []"
    using False by (simp add: elem_queue_def dq_len_def)
  ultimately show thesis
    using False assms(1,2,4) by (intro that [of i]) (simp_all add: fill_final_def)
next
  case True
  have "wf_elem (tdq n i)" "\<forall>e\<in>set (drop (v_qp i) (ob_dq (i2c_bus i n))). wf_elem e"
    using assms(5) True set_drop_subset [of "v_qp i" "ob_dq (i2c_bus i n)"]
    by (auto simp: tdq_def dq_at_def dq_len_def)
  then have "open_elem n i" "real (elem_queue n i) = elem_queue n i"
    using True assms(2) by (auto simp: open_elem_def cmds_def elem_queue_def filter_id_conv dest: pending_real)
  moreover have "fill_inv n (elem_queue n i) i"
    using calculation(1) assms(1,2) by (simp add: fill_inv_def cmds_def)
  moreover have "\<not> v_done i"
    using True assms(3) by simp
  ultimately show thesis
    using fill_loop_ok [of n "elem_queue n i" i] that by blast
qed

lemma final_wf:
  assumes "fill_final n P u" and "e \<in> set (ob_dq (i2c_bus u n))"
  shows "wf_elem e"
proof (cases "v_qp u < dq_len n u")
  case True
  let ?dq = "ob_dq (i2c_bus u n)"
  have "?dq = take (v_qp u) ?dq @ tdq n u # drop (Suc (v_qp u)) ?dq"
    using True by (simp add: tdq_def dq_at_def dq_len_def id_take_nth_drop)
  then have "e \<in> set (take (v_qp u) ?dq) \<or> e = tdq n u \<or> e \<in> set (drop (Suc (v_qp u)) ?dq)"
    using assms(2) by (metis Un_iff set_ConsD set_append)
  with assms(1) True show ?thesis
    by (auto simp: fill_final_def shape_def others_def)
next
  case False
  with assms show ?thesis
    by (auto simp: fill_final_def shape_def others_def dq_len_def)
qed


text \<open>A read of 300 bytes behind a write of 3.\<close>

definition i2c_ex :: i2c_soc where
  "i2c_ex = upd_bus 0 (\<lambda>b. b\<lparr>ob_dq := [new_elem 0 0xA0 4096 3 True False NULL,
     new_elem 1 0xA1 8192 300 True False NULL]\<rparr>) (i2c_boot (\<lambda>_. 0) \<lparr>soc_regs = (\<lambda>_. 0), soc_trace = []\<rparr>)"

lemma i2c_ex_queue:
  "ob_dq (i2c_bus i2c_ex 0) = [new_elem 0 0xA0 4096 3 True False NULL, new_elem 1 0xA1 8192 300 True False NULL]"
  "queuePos 0 i2c_ex = 0"
  by (simp_all add: i2c_ex_def upd_bus_def i2c_boot_def soc.defs i2c_obj_init_def queuePos_def)

lemma i2c_ex_ok: "queue_ok 0 i2c_ex"
  unfolding queue_ok_def wf_queue_def queueCount_def i2c_ex_queue
  by (auto simp: wf_elem_def new_elem_def intro!: exI [of _ 0])


end
