(* ===== verification/I2cIsr.thy ===== *)
theory I2cIsr
  imports I2cCmd
begin

text \<open>
  What the interrupt of the I2C driver keeps of the state, and that its loops return: moving bytes into and
  out of the FIFOs, finding the element with room for a byte received, and refilling the command list.
\<close>

section \<open>What the interrupt keeps\<close>

text \<open>The mutexes, the other bus, and that the queue is well formed.\<close>

definition keeps :: "nat \<Rightarrow> i2c_soc \<Rightarrow> i2c_soc \<Rightarrow> bool" where
  "keeps n s t \<longleftrightarrow> i2c_lock t = i2c_lock s \<and> (\<forall>l. held l t = held l s)
     \<and> (wf_queue n s \<longrightarrow> wf_queue n t) \<and> (\<forall>m. m \<noteq> n \<longrightarrow> i2c_bus t m = i2c_bus s m)"

lemma keeps_refl [simp]: "keeps n s s"
  by (simp add: keeps_def)

lemma keeps_trans: "keeps n s t \<Longrightarrow> keeps n t u \<Longrightarrow> keeps n s u"
  by (simp add: keeps_def)

text \<open>
  The lemmas in \<open>keeps\<close> are closed under composition: simplification with them follows the statements of
  a block from the last to the first.
\<close>

named_theorems keeps

lemma keepsI: "(\<And>s. keeps n s (f s)) \<Longrightarrow> keeps n s t \<Longrightarrow> keeps n s (f t)"
  using keeps_trans by blast

lemma keeps_if [keeps]: "keeps n s t \<Longrightarrow> keeps n s u \<Longrightarrow> keeps n s (if c then t else u)"
  by simp

lemma keeps_regs [keeps]:
  assumes "keeps n s t"
  shows "keeps n s (wr r v t)" "keeps n s (setf r f v t)" "keeps n s (on_regs g t)" "keeps n s (poll H m t)"
    "keeps n s (pop_fifo H m t)" "keeps n s (push_fifo H m b t)" "keeps n s (t\<lparr>i2c_ram := r'\<rparr>)"
    "keeps n s (set_peri_reg_mask r v t)" "keeps n s (clear_peri_reg_mask r v t)"
  using assms
  by (simp_all add: keeps_def wf_queue_def wr_def setf_def on_regs_def poll_def pop_fifo_def push_fifo_def
      held_def set_peri_reg_mask_def clear_peri_reg_mask_def)

text \<open>Calls that are neither a take nor a give.\<close>

lemma keeps_ext:
  assumes "keeps n s t"
  shows "(\<And>l n. held_step l (Ext c) n = n) \<Longrightarrow> keeps n s (ext c t)"
  using assms by (simp add: keeps_def wf_queue_def held_ext)

lemmas keeps_calls [keeps] = keeps_ext [where c = "EventSet e b", simplified] for e b

lemma wf_update:
  assumes "\<forall>x\<in>set xs. wf_elem x" and "\<And>e. wf_elem (f e) = wf_elem e"
  shows "\<forall>x\<in>set (xs[a := f (xs ! a)]). wf_elem x"
proof (cases "a < length xs")
  case True
  with assms show ?thesis
    using set_update_subset_insert [of xs a "f (xs ! a)"] by auto
qed (use assms(1) in \<open>simp add: list_update_beyond\<close>)

lemma keeps_upd_dq [keeps]:
  assumes "\<And>e. wf_elem (f e) = wf_elem e" and "keeps n s t"
  shows "keeps n s (upd_dq n a f t)"
proof -
  have "wf_queue n (upd_dq n a f t)" if "wf_queue n t"
  proof -
    have "\<forall>x\<in>set ((ob_dq (i2c_bus t n))[a := f (ob_dq (i2c_bus t n) ! a)]). wf_elem x"
      using that unfolding wf_queue_def by (rule wf_update) (rule assms(1))
    then show ?thesis
      by (simp add: wf_queue_def upd_dq_def upd_bus_def)
  qed
  with assms(2) show ?thesis
    by (simp add: keeps_def upd_dq_def upd_bus_def held_def)
qed

lemma keeps_upd_bus [keeps]:
  "(\<And>b. ob_dq (f b) = ob_dq b) \<Longrightarrow> keeps n s t \<Longrightarrow> keeps n s (upd_bus n f t)"
  by (simp add: keeps_def wf_queue_def upd_bus_def held_def)

lemma wf_elem_upd [simp]:
  "wf_elem (e\<lparr>ct_addrSent := k\<rparr>) = wf_elem e" "wf_elem (e\<lparr>dq_position := k\<rparr>) = wf_elem e"
  "wf_elem (e\<lparr>ct_addr := a\<rparr>) = wf_elem e"
  by (simp_all add: wf_elem_def)

lemma keeps_run:
  assumes "run fs s = Some t" and "\<And>f s t. f \<in> set fs \<Longrightarrow> f s = Some t \<Longrightarrow> keeps n s t"
  shows "keeps n s t"
proof (rule run_inv [OF assms(1), where P = "keeps n s"])
  fix f u v
  assume "f \<in> set fs" "f u = Some v" "keeps n s u"
  then show "keeps n s v"
    using assms(2) keeps_trans by blast
qed simp

lemma keeps_push_addr [keeps]: "keeps n s t \<Longrightarrow> keeps n s (push_addr H n a b t)"
  by (simp add: push_addr_def keeps)

lemma keeps_tx_addr [keeps]: "keeps n s t \<Longrightarrow> keeps n s (tx_addr H n a t)"
  by (simp add: tx_addr_def Let_def keeps)

lemma keeps_tx_bytes [keeps]: "keeps n s t \<Longrightarrow> keeps n s (tx_bytes H n a k t)"
  by (induction k arbitrary: t) (simp_all add: Let_def keeps)

lemma keeps_tx_data [keeps]: "keeps n s t \<Longrightarrow> keeps n s (tx_data H n a t)"
  by (simp add: tx_data_def Let_def keeps)

lemma keeps_tx_elements: "keeps n s t \<Longrightarrow> keeps n s (snd (tx_elements H n r as t))"
  by (induction as arbitrary: r t) (simp_all add: Let_def keeps)

lemma keeps_fillTxFifo [keeps]: "keeps n s t \<Longrightarrow> keeps n s (fillTxFifo H n t)"
proof -
  assume keep: "keeps n s t"
  define p where "p = (if tx_cnt n (poll H n t) < 31
    then tx_elements H n False [queuePos n t..<queueCount n t] (poll H n t)
    else ([queuePos n t..<queueCount n t] = [], poll H n t))"
  have "keeps n s (snd p)"
    using keep by (simp add: p_def keeps_tx_elements keeps)
  then show ?thesis
    by (cases p) (simp add: fillTxFifo_def Let_def p_def [symmetric] keeps)
qed

lemma keeps_store_byte [keeps]: "keeps n s t \<Longrightarrow> keeps n s (store_byte H n a t)"
  by (simp add: store_byte_def Let_def keeps)

lemma keeps_funpow: "(\<And>s t. keeps n s t \<Longrightarrow> keeps n s (f t)) \<Longrightarrow> keeps n s t \<Longrightarrow> keeps n s ((f ^^ k) t)"
  by (induction k) simp_all

lemma keeps_rx_loop:
  assumes "rx_loop H n k s = Some t"
  shows "keeps n s t"
proof (rule rx_loop.raw_induct [where P = "\<lambda>H n k s t. keeps n s t", OF _ assms])
  fix f :: "i2c_hw \<Rightarrow> nat \<Rightarrow> nat \<Rightarrow> i2c_soc \<Rightarrow> i2c_soc option" and H n k and s t :: i2c_soc
  assume IH: "\<And>H n k s t. f H n k s = Some t \<Longrightarrow> keeps n s t"
  let ?qp = "rx_slot (drop (queuePos n s) (ob_dq (i2c_bus s n))) (queuePos n s)"
  let ?s = "upd_bus n (\<lambda>b. b\<lparr>ob_queuePos := ?qp\<rparr>) s"
  let ?pop = "(pop_fifo H n ^^ k) ?s"
  let ?u = "poll H n ((store_byte H n ?qp ^^ min k (dq_length (dq_at n ?qp ?s) - dq_position (dq_at n ?qp ?s))) ?s)"
  assume eq: "(if 0 < k \<and> queuePos n s < queueCount n s then
        let qp = rx_slot (drop (queuePos n s) (ob_dq (i2c_bus s n))) (queuePos n s);
            s = upd_bus n (\<lambda>b. b\<lparr>ob_queuePos := qp\<rparr>) s
        in if queueCount n s \<le> qp then Some ((pop_fifo H n ^^ k) s)
           else if ct_mode (dq_at n qp s) = 1 then
             let fits = min k (dq_length (dq_at n qp s) - dq_position (dq_at n qp s));
                 s = poll H n ((store_byte H n qp ^^ fits) s)
             in f H n (rx_cnt n s) s
           else Some ((pop_fifo H n ^^ k) s)
      else Some s) = Some t"
  have s: "keeps n s ?s"
    by (simp add: keeps)
  have stores: "keeps n s ((store_byte H n a ^^ j) ?s)" for a j
    by (rule keeps_funpow [OF _ s]) (rule keeps_store_byte)
  have pop: "keeps n s ?pop"
    by (rule keeps_funpow [OF _ s]) (rule keeps_regs)
  have upd: "keeps n s ?u"
    by (rule keeps_regs) (rule stores)
  note eq = eq [unfolded Let_def]
  show "keeps n s t"
  proof (cases "0 < k \<and> queuePos n s < queueCount n s")
    case True
    note eq = eq [unfolded if_P [OF True]]
    show ?thesis
    proof (cases "queueCount n ?s \<le> ?qp")
      case True
      from eq [unfolded if_P [OF True]] have "t = ?pop"
        by simp
      with pop show ?thesis
        by simp
    next
      case False
      note eq = eq [unfolded if_not_P [OF False]]
      show ?thesis
      proof (cases "ct_mode (dq_at n ?qp ?s) = 1")
        case True
        from eq [unfolded if_P [OF True]] IH have "keeps n ?u t"
          by blast
        with upd show ?thesis
          by (rule keeps_trans)
      next
        case False
        from eq [unfolded if_not_P [OF False]] have "t = ?pop"
          by simp
        with pop show ?thesis
          by simp
      qed
    qed
  next
    case False
    with eq show ?thesis
      by simp
  qed
qed

lemma keeps_emptyRxFifo:
  assumes "emptyRxFifo H n s = Some t"
  shows "keeps n s t"
proof -
  have "keeps n s (poll H n s)"
    by (simp add: keeps)
  with assms show ?thesis
    unfolding emptyRxFifo_def Let_def using keeps_rx_loop keeps_trans by blast
qed

section \<open>Everything returns\<close>

text \<open>The room left in the buffers, which every round of the receiving loop lowers.\<close>

definition remaining :: "dq_elem list \<Rightarrow> nat" where
  "remaining dq = sum_list (map (\<lambda>e. dq_length e - dq_position e) dq)"

lemma rx_slot_spec:
  "q \<le> rx_slot es q \<and> rx_slot es q \<le> q + length es
     \<and> (rx_slot es q < q + length es \<longrightarrow> dq_position (es ! (rx_slot es q - q)) < dq_length (es ! (rx_slot es q - q)))
     \<and> (\<forall>i. i < rx_slot es q - q \<longrightarrow> dq_length (es ! i) \<le> dq_position (es ! i))"
proof (induction es arbitrary: q)
  case (Cons e es)
  show ?case
  proof (cases "dq_length e \<le> dq_position e")
    case True
    obtain d where d: "rx_slot es (Suc q) = Suc q + d"
      using Cons.IH [of "Suc q"] le_Suc_ex by blast
    with True Cons.IH [of "Suc q"] show ?thesis
      by (auto simp: nth_Cons split: nat.splits)
  qed simp
qed simp

lemma rx_slot_room:
  fixes n s
  defines "qp \<equiv> rx_slot (drop (queuePos n s) (ob_dq (i2c_bus s n))) (queuePos n s)"
  assumes "qp < queueCount n s"
  shows "queuePos n s \<le> qp" "dq_position (dq_at n qp s) < dq_length (dq_at n qp s)"
  using rx_slot_spec [of "queuePos n s" "drop (queuePos n s) (ob_dq (i2c_bus s n))"] assms
  by (auto simp: queueCount_def dq_at_def)

lemma dq_store:
  assumes "a < queueCount n s"
  shows "ob_dq (i2c_bus ((store_byte H n a ^^ j) s) n)
    = (ob_dq (i2c_bus s n))[a := (dq_at n a s)\<lparr>dq_position := dq_position (dq_at n a s) + j\<rparr>]"
  using assms
proof (induction j)
  case 0
  then show ?case
    by (simp add: dq_at_def)
next
  case (Suc j)
  then show ?case
    by (simp add: store_byte_def Let_def upd_dq_def upd_bus_def pop_fifo_def on_regs_def dq_at_def queueCount_def)
qed

lemma remaining_update:
  assumes "a < length dq" and "dq_position (dq ! a) + j \<le> dq_length (dq ! a)"
  shows "remaining (dq[a := (dq ! a)\<lparr>dq_position := dq_position (dq ! a) + j\<rparr>]) + j = remaining dq"
  using assms
proof (induction dq arbitrary: a)
  case (Cons e dq)
  then show ?case
    by (cases a) (auto simp: remaining_def)
qed simp

lemma rx_loop_returns: "\<exists>t. rx_loop H n k s = Some t"
proof (induction "remaining (ob_dq (i2c_bus s n))" arbitrary: k s rule: less_induct)
  case less
  define qp where "qp = rx_slot (drop (queuePos n s) (ob_dq (i2c_bus s n))) (queuePos n s)"
  define u where "u = upd_bus n (\<lambda>b. b\<lparr>ob_queuePos := qp\<rparr>) s"
  define fits where "fits = min k (dq_length (dq_at n qp u) - dq_position (dq_at n qp u))"
  define v where "v = poll H n ((store_byte H n qp ^^ fits) u)"
  have u: "ob_dq (i2c_bus u n) = ob_dq (i2c_bus s n)" "queueCount n u = queueCount n s" "dq_at n qp u = dq_at n qp s"
    by (simp_all add: u_def upd_bus_def queueCount_def dq_at_def)
  have rec: "rx_loop H n k s = (if 0 < k \<and> queuePos n s < queueCount n s then
      if queueCount n s \<le> qp then Some ((pop_fifo H n ^^ k) u)
      else if ct_mode (dq_at n qp u) = 1 then rx_loop H n (rx_cnt n v) v
      else Some ((pop_fifo H n ^^ k) u) else Some s)"
    by (subst rx_loop.simps) (simp add: Let_def qp_def u_def fits_def v_def queueCount_def upd_bus_def)
  have "\<exists>t. rx_loop H n (rx_cnt n v) v = Some t" if "0 < k" "qp < queueCount n s"
  proof (rule less)
    have room: "dq_position (dq_at n qp s) < dq_length (dq_at n qp s)"
      using rx_slot_room(2) [of n s] that(2) by (simp add: qp_def)
    then have "0 < fits" "dq_position (dq_at n qp s) + fits \<le> dq_length (dq_at n qp s)"
      using that(1) by (auto simp: fits_def u(3))
    moreover have "ob_dq (i2c_bus v n)
      = (ob_dq (i2c_bus s n))[qp := (dq_at n qp s)\<lparr>dq_position := dq_position (dq_at n qp s) + fits\<rparr>]"
      using dq_store [where a = qp and n = n and s = u and H = H and j = fits] that(2) by (simp add: v_def poll_def on_regs_def u)
    ultimately show "remaining (ob_dq (i2c_bus v n)) < remaining (ob_dq (i2c_bus s n))"
      using remaining_update [of qp "ob_dq (i2c_bus s n)" fits] that(2) by (simp add: dq_at_def queueCount_def)
  qed
  then show ?case
    unfolding rec by auto
qed

lemma emptyRxFifo_returns: "\<exists>t. emptyRxFifo H n s = Some t"
  by (simp add: emptyRxFifo_def Let_def rx_loop_returns)

text \<open>The command list is filled for every well-formed queue, whatever its shape.\<close>

definition fill_wf :: "nat \<Rightarrow> i2c_fill \<Rightarrow> bool" where
  "fill_wf n s \<longleftrightarrow> (\<forall>e\<in>set (fst (others n s) @ snd (others n s)). wf_elem e)
     \<and> (\<not> v_done s \<longrightarrow> open_elem n s) \<and> (v_qp s < dq_len n s \<longrightarrow> wf_elem (tdq n s))"

lemma fill_element_wf:
  assumes "fill_wf n s" and "\<not> v_done s"
  shows "fill_wf n (fill_element n s) \<and> dq_len n (fill_element n s) = dq_len n s
    \<and> (v_done (fill_element n s) \<or> v_qp (fill_element n s) = v_qp s + 1)"
proof -
  have open_s: "open_elem n s"
    using assms by (simp add: fill_wf_def)
  from fill_element_steps [OF open_s assms(2)] obtain t
    where eq: "fill_element n s = fill_next n (fill_end n (fill_stretch n t))"
      and t: "same_cmds n s t" "open_elem n t"
      and out: "if v_done t then v_cmdIdx t = 15 \<and> ct_startCmdSent (tdq n t)
        else ct_stopCmdSent (tdq n t) \<and> ct_startCmdSent (tdq n t)
          \<or> v_cmdIdx t = 14 \<and> \<not> ct_startCmdSent (tdq n t) \<and> t = s" .
  have wf_t: "\<forall>e\<in>set (fst (others n t) @ snd (others n t)). wf_elem e" "wf_elem (tdq n t)" "dq_len n t = dq_len n s"
    using assms(1) t by (simp_all add: fill_wf_def same_cmds_def open_elem_def)
  define u where "u = fill_stretch n t"
  have u: "others n u = others n t" "tdq n u = tdq n t" "dq_len n u = dq_len n t" "v_qp u = v_qp t"
    by (simp_all add: u_def fill_stretch_def others_def tdq_def dq_at_def dq_len_def)
  show ?thesis
  proof (cases "v_cmdIdx u = 15")
    case True
    note e = fill_end_ok [where n = n, OF True]
    have "fill_element n s = fill_end n u"
      using e(1) by (simp add: eq u_def)
    then show ?thesis
      using e wf_t u by (simp add: fill_wf_def)
  next
    case False
    then have t3: "\<not> v_done t" "ct_stopCmdSent (tdq n t)" "ct_startCmdSent (tdq n t)" "u = t"
      using out by (auto simp: u_def fill_stretch_def split: if_splits)
    have t4: "v_cmdIdx t \<le> 14" "v_qp t < dq_len n t" "v_qp t = v_qp s"
      using t t3(1) by (simp_all add: open_elem_def same_cmds_def)
    define v where "v = t\<lparr>v_qp := v_qp t + 1\<rparr>"
    define w where "w = v\<lparr>v_done := True\<rparr>"
    have "fill_element n s = fill_next n t"
      using t3(4) t4(1) by (simp add: eq u_def [symmetric] fill_end_def)
    then have el: "fill_element n s = (if v_qp t + 1 < dq_len n t then v else w)"
      using t3(1,2) by (simp add: fill_next_def Let_def queueCount_def dq_len_def v_def w_def)
    note nx = others_next [OF t4(2), folded v_def]
    have len: "dq_len n v = dq_len n t" "dq_len n w = dq_len n t" "v_qp v = v_qp t + 1" "v_qp w = v_qp t + 1"
      "others n w = others n v" "v_done w" "v_cmdIdx v = v_cmdIdx t"
      by (simp_all add: dq_len_def v_def w_def others_def)
    have wf_v: "\<forall>e\<in>set (fst (others n v) @ snd (others n v)). wf_elem e"
      using wf_t(1,2) nx(1,3) by auto
    show ?thesis
    proof (cases "v_qp t + 1 < dq_len n t")
      case True
      have wf_next: "wf_elem (tdq n v)"
        using wf_t(1) nx(2) [OF True] by simp
      have "cmds n v = cmds n t"
        by (simp add: cmds_def cmd_at_def rd_def v_def)
      then have "open_elem n v"
        using True t(2) t4(1) wf_next len by (simp add: open_elem_def)
      then have "fill_wf n v"
        using wf_v wf_next by (simp add: fill_wf_def)
      then show ?thesis
        using True len wf_t(3) t4(3) by (simp add: el)
    next
      case False
      then have "fill_wf n w"
        using wf_v len by (simp add: fill_wf_def)
      then show ?thesis
        using False len wf_t(3) by (simp add: el)
    qed
  qed
qed

lemma fill_loop_returns:
  assumes "fill_wf n s"
  shows "\<exists>t. fill_loop n s = Some t \<and> fill_wf n t \<and> v_done t"
  using assms
proof (induction "dq_len n s - v_qp s" arbitrary: s rule: less_induct)
  case less
  show ?case
  proof (cases "v_done s")
    case True
    with less.prems show ?thesis
      by (subst fill_loop.simps) simp
  next
    case False
    have step: "fill_loop n s = fill_loop n (fill_element n s)"
      using False by (subst fill_loop.simps) simp
    note el = fill_element_wf [OF less.prems False]
    have "v_qp s < dq_len n s"
      using less.prems False by (simp add: fill_wf_def open_elem_def)
    show ?thesis
    proof (cases "v_done (fill_element n s)")
      case True
      with el show ?thesis
        unfolding step by (subst fill_loop.simps) simp
    next
      case False
      with el \<open>v_qp s < dq_len n s\<close>
      have "dq_len n (fill_element n s) - v_qp (fill_element n s) < dq_len n s - v_qp s"
        by simp
      from less.hyps [OF this] el show ?thesis
        unfolding step by simp
    qed
  qed
qed

lemma fill_wf_queue:
  assumes "fill_wf n s"
  shows "wf_queue n s"
  unfolding wf_queue_def
proof
  fix e
  assume e: "e \<in> set (ob_dq (i2c_bus s n))"
  show "wf_elem e"
  proof (cases "v_qp s < dq_len n s")
    case True
    then have "ob_dq (i2c_bus s n) = fst (others n s) @ tdq n s # snd (others n s)"
      by (simp add: others_def tdq_def dq_at_def dq_len_def id_take_nth_drop)
    with e assms True show ?thesis
      unfolding fill_wf_def by (metis Un_iff set_ConsD set_append)
  next
    case False
    with e assms show ?thesis
      by (simp add: fill_wf_def others_def dq_len_def)
  qed
qed

lemma fillCmdQueue_returns:
  assumes "wf_queue n s"
  shows "\<exists>t. fillCmdQueue n INTS s = Some t \<and> keeps n s t"
proof -
  let ?dq = "ob_dq (i2c_bus s n)"
  define qp where "qp = first_open (drop (queuePos n s) ?dq) (queuePos n s)"
  define i where "i = i2c_soc.extend s
    \<lparr>v_cmdIdx = 0, v_qp = qp, v_done = (\<not> qp < queueCount n s), v_ena_rx = False, v_ena_tx = False\<rparr>"
  have i: "i2c_bus i = i2c_bus s" "v_qp i = qp" "v_cmdIdx i = 0" "v_done i \<longleftrightarrow> \<not> qp < dq_len n i"
    "i2c_lock i = i2c_lock s" "held l i = held l s" for l
    by (simp_all add: i_def i2c_soc.defs queueCount_def dq_len_def held_def)
  have "wf_elem (tdq n i)" if "qp < dq_len n i"
    using that assms by (simp add: tdq_def dq_at_def i dq_len_def wf_queue_def)
  moreover have "\<forall>e\<in>set (fst (others n i) @ snd (others n i)). wf_elem e"
    using assms set_take_subset [of qp ?dq] set_drop_subset [of "Suc qp" ?dq]
    by (auto simp: others_def i wf_queue_def)
  ultimately have "fill_wf n i"
    by (auto simp: fill_wf_def open_elem_def i cmds_def)
  then obtain u where u: "fill_loop n i = Some u" "fill_wf n u"
    using fill_loop_returns by blast
  have frame: "fill_frame n i u"
    using u(1) by (rule fill_frame_loop)
  define t where "t = exec
      [\<lambda>s. if INTS \<and> v_ena_rx u then setf (I2c n iint_ena) i_rx_full 1 s else s,
       \<lambda>s. if INTS \<and> v_ena_tx u then setf (I2c n iint_ena) i_tx_empty 1 s else s]
      (i2c_soc.truncate u)"
  have "fillCmdQueue n INTS s = Some t"
    using u(1) by (simp add: fillCmdQueue_def qp_def [symmetric] i_def [symmetric] t_def Let_def)
  moreover have "keeps n s t"
    using frame fill_wf_queue [OF u(2)] i
    by (simp add: t_def keeps_def fill_frame_def wf_queue_def truncate_views)
  ultimately show ?thesis
    by blast
qed

end
