(* ===== verification/I2cSession.thy ===== *)
theory I2cSession
  imports I2cIsr
begin

text \<open>
  When the interrupt of the I2C driver returns, what an operation of the driver leaves of its mutex, and
  how an operation ends.
\<close>

section \<open>The statements of the interrupt\<close>

text \<open>A statement that always returns on a well-formed queue and keeps what the interrupt keeps.\<close>

definition works :: "nat \<Rightarrow> (i2c_soc \<Rightarrow> i2c_soc option) \<Rightarrow> bool" where
  "works n f \<longleftrightarrow> (\<forall>s. wf_queue n s \<longrightarrow> (\<exists>t. f s = Some t \<and> keeps n s t))"

named_theorems works

lemma worksD: "works n f \<Longrightarrow> wf_queue n s \<Longrightarrow> \<exists>t. f s = Some t \<and> keeps n s t"
  by (simp add: works_def)

lemma worksD_wf: "works n f \<Longrightarrow> wf_queue n s \<Longrightarrow> \<exists>t. f s = Some t \<and> keeps n s t \<and> wf_queue n t"
  using worksD [of n f s] by (auto simp: keeps_def)

lemma worksI: "(\<And>s. wf_queue n s \<Longrightarrow> \<exists>t. f s = Some t \<and> keeps n s t) \<Longrightarrow> works n f"
  by (simp add: works_def)

lemma works_stmt [works]: "(\<And>s. keeps n s (f s)) \<Longrightarrow> works n (stmt f)"
  by (simp add: works_def)

lemma works_plain: "(\<And>s. keeps n s (f s)) \<Longrightarrow> works n (\<lambda>s. Some (f s))"
  by (simp add: works_def)

lemma works_Some [works]: "works n Some"
  by (simp add: works_def)

lemma works_run [works]: "(\<And>f. f \<in> set fs \<Longrightarrow> works n f) \<Longrightarrow> works n (run fs)"
proof (induction fs)
  case (Cons f fs)
  have fs: "works n (run fs)"
    using Cons by simp
  show ?case
    unfolding works_def
  proof (intro allI impI)
    fix s :: i2c_soc
    assume s: "wf_queue n s"
    have "works n f"
      using Cons.prems by simp
    from worksD [OF this s] obtain t where t: "f s = Some t" "keeps n s t"
      by blast
    moreover have "wf_queue n t"
      using t(2) s by (simp add: keeps_def)
    from worksD [OF fs this] obtain u where "run fs t = Some u" "keeps n t u"
      by blast
    ultimately show "\<exists>u. run (f # fs) s = Some u \<and> keeps n s u"
      using keeps_trans by auto
  qed
qed (simp add: works_def)

lemma works_if [works]: "works n f \<Longrightarrow> works n g \<Longrightarrow> works n (\<lambda>s. if c s then f s else g s)"
  by (simp add: works_def)

lemma works_when_bit [works]: "works n f \<Longrightarrow> works n (when_bit act b f)"
  by (simp add: works_def when_bit_def)

lemma works_after:
  assumes "works n f" and "\<And>s. keeps n s (g s)"
  shows "works n (\<lambda>s. f (g s))"
  unfolding works_def
proof (intro allI impI)
  fix s :: i2c_soc
  assume "wf_queue n s"
  with assms(2) [of s] have "wf_queue n (g s)"
    by (simp add: keeps_def)
  from worksD [OF assms(1) this] assms(2) [of s] show "\<exists>t. f (g s) = Some t \<and> keeps n s t"
    using keeps_trans by blast
qed

lemma works_fifo [works]: "works n (emptyRxFifo H n)" "works n (fillCmdQueue n INTS)"
  unfolding works_def using emptyRxFifo_returns keeps_emptyRxFifo fillCmdQueue_returns by blast+

lemma keeps_update_error [keeps]: "keeps n s t \<Longrightarrow> keeps n s (i2c_update_error_byte_cnt H n t)"
  by (simp add: i2c_update_error_byte_cnt_def Let_def keeps split: prod.split)

lemma works_i2cIsrExit [works]: "works n (i2cIsrExit H n eventCode fatal)"
proof -
  have "works n (\<lambda>s. if queuePos n s < queueCount n s \<and> ct_mode (dq_at n (queuePos n s) s) = 1
      then emptyRxFifo H n s else Some s)"
    by (intro works)
  then show ?thesis
    unfolding i2cIsrExit_def Let_def
    by (intro works_after [where g = "upd_bus n (\<lambda>b. b\<lparr>ob_error := exit_error eventCode\<rparr>)"] works_run)
      (auto intro!: works_stmt works_plain simp: keeps)
qed

lemma works_isr_parts [works]:
  "works n (isr_fifos H n act)" "works n (isr_rest n act)" "works n (isr_time_out H n)"
  "works n (isr_ack_err H n)"
proof -
  have rx: "works n (isr_rx_full H n)"
    unfolding isr_rx_full_def by (rule works_run) (auto intro!: works_stmt works_plain works_when_bit works_fifo simp: keeps)
  show "works n (isr_fifos H n act)"
    unfolding isr_fifos_def isr_trans_start_def
    by (rule works_run) (auto intro!: works_stmt works_plain works_when_bit works_fifo rx simp: keeps)
  show "works n (isr_time_out H n)"
    unfolding isr_time_out_def by (rule works_run) (auto intro!: works_stmt works_plain works_when_bit works_fifo rx simp: keeps)
  have ed: "works n (isr_end_detect n)"
    unfolding isr_end_detect_def by (rule works_run) (auto intro!: works_stmt works_plain works_when_bit works_fifo simp: keeps)
  show "works n (isr_rest n act)"
    unfolding isr_rest_def by (rule works_run) (auto intro!: works_stmt works_plain works_when_bit ed simp: keeps)
  show "works n (isr_ack_err H n)"
    unfolding isr_ack_err_def Let_def
    by (intro works_if works_Some works_after [where g = "i2c_update_error_byte_cnt H n"] works_i2cIsrExit)
      (simp add: keeps)
qed

section \<open>The loop of the interrupt\<close>

text \<open>The interrupts after which the handler leaves its loop, and those it serves and then forgets.\<close>

definition I_LEAVE :: u32 where
  "I_LEAVE = I_ACK_ERR OR I_TRANS_COMPLETE OR I_ARBITRATION_LOST"

definition I_SERVED :: u32 where
  "I_SERVED = I_TRANS_START OR I_TXFIFO_EMPTY OR I_RXFIFO_FULL OR I_TIME_OUT OR I_END_DETECT"


lemmas i_sets = I_LEAVE_def I_SERVED_def i2c_ints

lemma bits_left:
  fixes act :: u32
  shows "act AND I_ACK_ERR \<noteq> 0 \<or> act AND I_TRANS_COMPLETE \<noteq> 0 \<or> act AND I_ARBITRATION_LOST \<noteq> 0
    \<longleftrightarrow> act AND I_LEAVE \<noteq> 0"
  by (simp add: I_LEAVE_def bit.conj_disj_distrib or_eq_0_iff)

lemma bits_kept:
  fixes act :: u32
  assumes "A AND B = 0"
  shows "(act AND NOT A) AND B = act AND B"
proof (rule bit_eqI)
  fix i
  have "\<not> (bit A i \<and> bit B i)"
    using assms bit_and_iff [of A B i] by simp
  then show "bit ((act AND NOT A) AND B) i = bit (act AND B) i"
    by (auto simp: bit_and_iff bit_not_iff dest: bit_imp_le_length)
qed

lemma bits_cleared:
  fixes act :: u32
  shows "(act AND NOT A) AND NOT B = act AND NOT (A OR B)"
  by (simp add: and.assoc)

text \<open>The handler tests a bit after it cleared others.\<close>

lemma isr_tests:
  fixes act :: u32
  defines "a \<equiv> act AND NOT (I_TRANS_START OR I_TXFIFO_EMPTY OR I_RXFIFO_FULL)"
  defines "b \<equiv> a AND NOT I_TIME_OUT"
  shows "a AND I_ACK_ERR = act AND I_ACK_ERR"
    "b AND I_TRANS_COMPLETE = act AND I_TRANS_COMPLETE"
    "b AND I_ARBITRATION_LOST = act AND I_ARBITRATION_LOST"
    "b AND NOT I_END_DETECT = act AND NOT I_SERVED"
proof -
  have b: "b = act AND NOT (I_TRANS_START OR I_TXFIFO_EMPTY OR I_RXFIFO_FULL OR I_TIME_OUT)"
    by (simp add: a_def b_def and.assoc)
  show "a AND I_ACK_ERR = act AND I_ACK_ERR"
    unfolding a_def by (rule bits_kept) code_simp
  show "b AND I_TRANS_COMPLETE = act AND I_TRANS_COMPLETE"
    unfolding b by (rule bits_kept) code_simp
  show "b AND I_ARBITRATION_LOST = act AND I_ARBITRATION_LOST"
    unfolding b by (rule bits_kept) code_simp
  show "b AND NOT I_END_DETECT = act AND NOT I_SERVED"
    unfolding b bits_cleared I_SERVED_def by (simp only: or.assoc)
qed

lemma leave_served: "I_SERVED AND I_LEAVE = 0"
  by code_simp

text \<open>One pass: it returns, and what it leaves to be served.\<close>

lemma isr_pass_returns:
  assumes "wf_queue n s"
  shows "\<exists>t. keeps n s t \<and>
    isr_pass H n act s = Some (if act AND I_LEAVE \<noteq> 0 then 0 else act AND NOT I_SERVED, t)"
proof -
  define a where "a = act AND NOT (I_TRANS_START OR I_TXFIFO_EMPTY OR I_RXFIFO_FULL)"
  define b where "b = a AND NOT I_TIME_OUT"
  note tests = isr_tests [of act, folded a_def, folded b_def]
  obtain u where u: "isr_fifos H n act s = Some u" "keeps n s u" "wf_queue n u"
    using worksD_wf [OF works_isr_parts(1) assms] by blast
  obtain v where v: "isr_ack_err H n u = Some v" "keeps n u v"
    using worksD [OF works_isr_parts(4) u(3)] by blast
  obtain w where w: "when_bit a I_TIME_OUT (isr_time_out H n) u = Some w" "keeps n u w" "wf_queue n w"
    using worksD_wf [OF works_when_bit [OF works_isr_parts(3)] u(3)] by blast
  have "keeps n w (setf (I2c n iint_clr) i_trans_complete 1 w)"
    by (simp add: keeps)
  then have "wf_queue n (setf (I2c n iint_clr) i_trans_complete 1 w)"
    using w(3) by (simp add: keeps_def)
  from worksD [OF works_i2cIsrExit this] \<open>keeps n w _\<close> obtain x where x: "i2cIsrExit H n EVENT_DONE False (setf (I2c n iint_clr) i_trans_complete 1 w) = Some x"
      "keeps n w x"
    using keeps_trans by blast
  obtain y where y: "i2cIsrExit H n EVENT_ERROR_ARBITRATION True w = Some y" "keeps n w y"
    using worksD [OF works_i2cIsrExit w(3)] by blast
  obtain z where z: "isr_rest n b w = Some z" "keeps n w z"
    using worksD [OF works_isr_parts(2) w(3)] by blast
  define z' where "z' = (if act AND NOT I_SERVED \<noteq> 0 then isr_unhandled n (act AND NOT I_SERVED) z else z)"
  have "keeps n z z'"
    by (simp add: z'_def isr_unhandled_def keeps)
  note kept = keeps_trans [OF u(2) v(2)] keeps_trans [OF u(2) keeps_trans [OF w(2) x(2)]]
    keeps_trans [OF u(2) keeps_trans [OF w(2) y(2)]]
    keeps_trans [OF u(2) keeps_trans [OF w(2) keeps_trans [OF z(2) this]]]
  have "isr_pass H n act s =
      (if act AND I_ACK_ERR \<noteq> 0 then Some (0, v)
       else if act AND I_TRANS_COMPLETE \<noteq> 0 then Some (0, x)
       else if act AND I_ARBITRATION_LOST \<noteq> 0 then Some (0, y)
       else Some (act AND NOT I_SERVED, z'))"
    unfolding isr_pass_def Let_def a_def [symmetric]
    by (simp add: b_def [symmetric] tests u(1) v(1) w(1) x(1) y(1) z(1) z'_def)
  with kept show ?thesis
    using bits_left [of act] by (auto split: if_splits)
qed

text \<open>The loop goes on forever with interrupts that it neither leaves for nor serves.\<close>

lemma isr_loop_hangs:
  assumes "act AND I_LEAVE = 0" and "act AND NOT I_SERVED \<noteq> 0" and "wf_queue n s"
  shows "isr_loop H n act s = None"
proof -
  have "\<not> (act AND I_LEAVE = 0 \<and> act AND NOT I_SERVED \<noteq> 0 \<and> wf_queue n s)" if "isr_loop H n act s = Some t" for t
  proof (rule isr_loop.raw_induct [where P = "\<lambda>H n act s t.
      \<not> (act AND I_LEAVE = 0 \<and> act AND NOT I_SERVED \<noteq> 0 \<and> wf_queue n s)", OF _ that])
    fix f :: "i2c_hw \<Rightarrow> nat \<Rightarrow> u32 \<Rightarrow> i2c_soc \<Rightarrow> i2c_soc option" and H n act and s t :: i2c_soc
    assume IH: "\<And>H n act s t. f H n act s = Some t
        \<Longrightarrow> \<not> (act AND I_LEAVE = 0 \<and> act AND NOT I_SERVED \<noteq> 0 \<and> wf_queue n s)"
      and eq: "(if act \<noteq> 0 then case isr_pass H n act s of None \<Rightarrow> None | Some (act, s) \<Rightarrow> f H n act s
        else Some s) = Some t"
    show "\<not> (act AND I_LEAVE = 0 \<and> act AND NOT I_SERVED \<noteq> 0 \<and> wf_queue n s)"
    proof
      assume act: "act AND I_LEAVE = 0 \<and> act AND NOT I_SERVED \<noteq> 0 \<and> wf_queue n s"
      then obtain u where u: "isr_pass H n act s = Some (act AND NOT I_SERVED, u)" "keeps n s u"
        using isr_pass_returns [of n s H act] by auto
      have "act \<noteq> 0"
        using act by auto
      with eq u(1) have "f H n (act AND NOT I_SERVED) u = Some t"
        by simp
      from IH [OF this] have "\<not> ((act AND NOT I_SERVED) AND I_LEAVE = 0 \<and> (act AND NOT I_SERVED) AND NOT I_SERVED \<noteq> 0 \<and> wf_queue n u)" .
      moreover have "(act AND NOT I_SERVED) AND I_LEAVE = 0"
        using act bits_kept [of I_SERVED I_LEAVE act] by (simp add: leave_served)
      moreover have "wf_queue n u"
        using u(2) act by (simp add: keeps_def)
      ultimately show False
        using act by (simp add: bits_cleared)
    qed
  qed
  with assms show ?thesis
    by (cases "isr_loop H n act s") auto
qed

lemma isr_loop_returns:
  assumes "act AND I_LEAVE \<noteq> 0 \<or> act AND NOT I_SERVED = 0" and "wf_queue n s"
  shows "\<exists>t. isr_loop H n act s = Some t \<and> keeps n s t"
proof (cases "act = 0")
  case False
  obtain u where "isr_pass H n act s = Some (0, u)" "keeps n s u"
    using isr_pass_returns [OF assms(2), of H act] assms(1) by (auto split: if_splits)
  then show ?thesis
    using False by (simp add: isr_loop.simps)
qed (simp add: isr_loop.simps)

text \<open>
  C12: the interrupt of the I2C driver returns if and only if the transfer was already over, or the
  controller reports an acknowledge error, a completed transfer or a lost arbitration, or it reports
  nothing but the interrupts the handler serves (start, the two FIFO levels, end of the command list,
  time-out). With any other interrupt, among them the receive overflow and the slave interrupt that the
  driver enables itself, the handler runs forever. When it returns, the mutexes and the other bus are as
  they were.
\<close>

theorem i2c_isr_returns:
  assumes "wf_queue n s"
  shows "i2c_isr H n s \<noteq> None \<longleftrightarrow>
      ob_stage (i2c_bus s n) = I2C_DONE \<or>
      rd (I2c n iint_status) s AND (I_ACK_ERR OR I_TRANS_COMPLETE OR I_ARBITRATION_LOST) \<noteq> 0 \<or>
      rd (I2c n iint_status) s AND (I_RXFIFO_OVF OR I_SLAVE_TRAN_COMP OR I_MASTER_TRAN_COMP) = 0"
proof -
  let ?st = "rd (I2c n iint_status) s"
  let ?act = "?st AND 0x7FF"
  let ?leave = "I_ACK_ERR OR I_TRANS_COMPLETE OR I_ARBITRATION_LOST"
  let ?rest = "I_RXFIFO_OVF OR I_SLAVE_TRAN_COMP OR I_MASTER_TRAN_COMP"
  have "(0x7FF :: u32) AND I_LEAVE = ?leave" "(0x7FF :: u32) AND NOT I_SERVED = ?leave OR ?rest"
    by code_simp+
  then have act: "?act AND I_LEAVE = ?st AND ?leave" "?act AND NOT I_SERVED = (?st AND ?leave) OR (?st AND ?rest)"
    by (simp_all only: and.assoc bit.conj_disj_distrib)
  have "isr_loop H n ?act s \<noteq> None \<longleftrightarrow> ?act AND I_LEAVE \<noteq> 0 \<or> ?act AND NOT I_SERVED = 0"
    by (metis isr_loop_hangs isr_loop_returns assms option.distinct(1))
  then have "i2c_isr H n s \<noteq> None \<longleftrightarrow> ob_stage (i2c_bus s n) = I2C_DONE \<or>
      ?act AND I_LEAVE \<noteq> 0 \<or> ?act AND NOT I_SERVED = 0"
    by (simp add: i2c_isr_def del: not_None_eq)
  then show ?thesis
    unfolding act or_eq_0_iff by blast
qed

theorem i2c_isr_returns_witness:
  "\<forall>H. i2c_isr H 0 (wr (I2c 0 iint_status) 4 i2c_ex) = None
     \<and> i2c_isr H 0 (wr (I2c 0 iint_status) 0x80 i2c_ex) \<noteq> None"
proof
  fix H
  have wf: "wf_queue 0 (wr (I2c 0 iint_status) v i2c_ex)" for v
    using i2c_ex_ok by (simp add: queue_ok_def wf_queue_def wr_def)
  have "ob_stage (i2c_bus (wr (I2c 0 iint_status) v i2c_ex) 0) \<noteq> I2C_DONE" for v
    by (simp add: i2c_ex_def wr_def upd_bus_def i2c_boot_def soc.defs i2c_obj_init_def)
  moreover have "(4 :: u32) AND (I_ACK_ERR OR I_TRANS_COMPLETE OR I_ARBITRATION_LOST) = 0"
    "(4 :: u32) AND (I_RXFIFO_OVF OR I_SLAVE_TRAN_COMP OR I_MASTER_TRAN_COMP) \<noteq> 0"
    "(0x80 :: u32) AND (I_ACK_ERR OR I_TRANS_COMPLETE OR I_ARBITRATION_LOST) \<noteq> 0"
    by code_simp+
  ultimately show "i2c_isr H 0 (wr (I2c 0 iint_status) 4 i2c_ex) = None
     \<and> i2c_isr H 0 (wr (I2c 0 iint_status) 0x80 i2c_ex) \<noteq> None"
    using i2c_isr_returns [where H = H, OF wf [where v = "4"]] i2c_isr_returns [where H = H, OF wf [where v = "0x80"]]
    by (auto simp del: not_None_eq)
qed


section \<open>Sessions\<close>

text \<open>
  What every call of the driver keeps: well-formed queues, mutexes that are free again, and mutexes
  that stay created.
\<close>

definition calm :: "i2c_soc \<Rightarrow> i2c_soc \<Rightarrow> bool" where
  "calm s t \<longleftrightarrow> (\<forall>m. wf_queue m s) \<longrightarrow>
     (\<forall>m. wf_queue m t) \<and> (\<forall>l. held l t = held l s) \<and> (\<forall>m. i2c_lock s m \<longrightarrow> i2c_lock t m)"

named_theorems calm

lemma calm_refl [calm]: "calm s s"
  by (simp add: calm_def)

lemma calm_trans: "calm s t \<Longrightarrow> calm t u \<Longrightarrow> calm s u"
  by (simp add: calm_def)

lemma calm_if [calm]: "calm s t \<Longrightarrow> calm s u \<Longrightarrow> calm s (if c then t else u)"
  by simp

lemma keeps_calm: "keeps n s t \<Longrightarrow> calm s t"
  unfolding keeps_def calm_def wf_queue_def by metis

lemma works_calm: "works n f \<Longrightarrow> f s = Some t \<Longrightarrow> calm s t"
  using worksD [of n f s] keeps_calm [of n s t] by (auto simp: calm_def)

lemma calm_exec: "(\<And>f s. f \<in> set fs \<Longrightarrow> calm s (f s)) \<Longrightarrow> calm s (exec fs s)"
proof (induction fs arbitrary: s)
  case (Cons f fs)
  have "calm s (f s)" "calm (f s) (exec fs (f s))"
    using Cons by simp_all
  then show ?case
    using calm_trans by simp
qed (simp add: calm)

lemma calm_run:
  assumes "run fs s = Some t" and "\<And>f s t. f \<in> set fs \<Longrightarrow> f s = Some t \<Longrightarrow> calm s t"
  shows "calm s t"
proof (rule run_inv [OF assms(1), where P = "calm s"])
  fix f u v
  assume "f \<in> set fs" "f u = Some v" "calm s u"
  then show "calm s v"
    using assms(2) calm_trans by blast
qed (rule calm_refl)

text \<open>Operations on registers alone.\<close>

lemma calm_more:
  assumes "soc.more t = soc.more s" and "\<And>l. held l t = held l s"
  shows "calm s t"
proof -
  have "i2c_bus t = i2c_bus s" "i2c_lock t = i2c_lock s"
    using assms(1) by (cases s; cases t; simp)+
  with assms(2) show ?thesis
    by (simp add: calm_def wf_queue_def)
qed

lemma calm_ext: "(\<And>l n. held_step l (Ext c) n = n) \<Longrightarrow> calm s (ext c s)"
  by (simp add: calm_def wf_queue_def held_ext)

lemma held_on_regs: "held l (on_regs g s) = held l s"
  by (simp add: held_def on_regs_def)

lemma calm_pins [calm]:
  "calm s (digitalWrite p v s)" "calm s (pinMode desc p m s)" "calm s (on_regs g s)"
  "calm s (pinMatrixOutAttach q i a b s)" "calm s (pinMatrixInAttach q i a s)"
  "calm s (pinMatrixOutDetach q a b s)" "calm s (pinMatrixInDetach i a b s)"
  by (rule calm_more, simp_all add: digitalWrite_def pinMatrixOutAttach_def pinMatrixInAttach_def
      pinMatrixOutDetach_def pinMatrixInDetach_def calm_ext held_on_regs)+

lemma calm_stores [calm]: "calm s (wr r v s)" "calm s (setf r f v s)" "calm s (poll H n s)"
  "calm s (set_peri_reg_mask r v s)" "calm s (clear_peri_reg_mask r v s)"
  by (rule keeps_calm, simp add: keeps)+

lemma calm_upd_bus:
  assumes "wf_queue n s \<Longrightarrow> \<forall>e\<in>set (ob_dq (f (i2c_bus s n))). wf_elem e"
  shows "calm s (upd_bus n f s)"
  using assms by (simp add: calm_def wf_queue_def upd_bus_def held_def)

lemma calm_queue_kept [calm]: "(\<And>b. ob_dq (f b) = ob_dq b) \<Longrightarrow> calm s (upd_bus n f s)"
  by (rule calm_upd_bus) (simp add: wf_queue_def)

text \<open>The mutex macros, through their interface.\<close>

interpretation i2c_mutex: mutex_macros "\<lambda>n s. i2c_lock s n" i2c_take i2c_give
    "\<lambda>n s. held (I2cLock n) s"
  by unfold_locales (auto simp: i2c_take_def i2c_give_def split: if_splits)

lemma calm_bracket:
  assumes "i2c_take n s = Some u" and "calm u v" and "i2c_give n v = Some t"
  shows "calm s t"
  using assms by (auto simp: calm_def i2c_take_def i2c_give_def wf_queue_def held_ext split: if_splits)

lemma calm_guarded:
  assumes "i2c_guarded n fs s = Some t" and "\<And>f s t. f \<in> set fs \<Longrightarrow> f s = Some t \<Longrightarrow> calm s t"
  shows "calm s t"
proof -
  obtain u v where "i2c_take n s = Some u" "run fs u = Some v" "i2c_give n v = Some t"
    using assms(1) by (auto simp: i2c_guarded_def i2c_mutex.guarded_Some)
  then show ?thesis
    using calm_bracket calm_run assms(2) by metis
qed

section \<open>The operations\<close>

lemma calm_lines [calm]:
  "calm s (attach_line desc p idx s)" "calm s (detach_line desc p idx s)"
  "calm s (detach_lines desc n s)" "calm s (attach_lines desc n s)"
proof -
  show at: "calm s (attach_line desc p idx s)" for p idx s
    unfolding attach_line_def by (rule calm_exec) (auto intro: calm)
  show de: "calm s (detach_line desc p idx s)" for p idx s
    unfolding detach_line_def by (rule calm_exec) (auto intro: calm)
  show "calm s (detach_lines desc n s)" "calm s (attach_lines desc n s)"
    unfolding detach_lines_def attach_lines_def
    by (rule calm_exec; auto intro!: calm de at
        simp: i2cDetachSDA_def i2cDetachSCL_def i2cAttachSDA_def i2cAttachSCL_def on_i2c_def)+
qed

lemma calm_on_i2c: "(\<And>n s. calm s (f n s)) \<Longrightarrow> on_i2c i2c f s = (r, t) \<Longrightarrow> calm s t"
  by (auto simp: on_i2c_def intro: calm split: option.splits)

lemma calm_attach:
  "i2cAttachSCL desc i2c p s = (r, t) \<Longrightarrow> calm s t" "i2cDetachSCL desc i2c p s = (r, t) \<Longrightarrow> calm s t"
  "i2cAttachSDA desc i2c p s = (r, t) \<Longrightarrow> calm s t" "i2cDetachSDA desc i2c p s = (r, t) \<Longrightarrow> calm s t"
  unfolding i2cAttachSCL_def i2cDetachSCL_def i2cAttachSDA_def i2cDetachSDA_def
  by (erule calm_on_i2c [rotated], rule calm)+

lemma calm_flush [calm]: "calm s (snd (i2cFlush i2c s))"
  by (auto simp: i2cFlush_def intro: calm calm_upd_bus split: option.splits)

lemma wf_new_elem: "mode \<le> 1 \<Longrightarrow> wf_elem (new_elem mode addr data len stop False event)"
  by (simp add: wf_elem_def new_elem_def)

lemma calm_add:
  assumes "i2cAddQueue ok i2c mode addr data len stop False event s = (r, t)" and "mode \<le> 1"
  shows "calm s t"
proof (cases i2c)
  case (Some n)
  define u where "u = (if event \<noteq> NULL then ext (EventClear event EVENT_MASK) s else s)"
  define f :: "i2c_obj \<Rightarrow> i2c_obj" where "f b = b\<lparr>ob_dq := ob_dq b @ [new_elem mode addr data len stop False event]\<rparr>" for b
  have u: "calm s u"
    by (auto simp: u_def intro: calm calm_ext)
  have "calm u (upd_bus n f u)"
    by (rule calm_upd_bus) (auto simp: f_def wf_queue_def wf_new_elem [OF assms(2)])
  then show ?thesis
    using assms(1) u calm_trans [OF u]
    unfolding Some i2cAddQueue_def option.case Let_def u_def [symmetric] f_def [abs_def]
    by (auto split: if_splits)
qed (use assms in \<open>auto simp: i2cAddQueue_def intro: calm\<close>)

lemma calm_add_write: "i2cAddQueueWrite ok i2c addr data len stop event s = (r, t) \<Longrightarrow> calm s t"
  unfolding i2cAddQueueWrite_def by (erule calm_add) simp

lemma calm_add_read: "i2cAddQueueRead ok ok' i2c addr data len stop event s = (r, t) \<Longrightarrow> calm s t"
  unfolding i2cAddQueueRead_def
  by (auto split: if_splits prod.splits intro: calm_add calm_trans [OF calm_add calm_add])

lemma calm_frequency:
  assumes "i2cSetFrequency i2c hz s = Some (r, t)"
  shows "calm s t"
proof (cases i2c)
  case (Some n)
  have stores: "calm s (f s)" if "f \<in> set (frequency_stores n hz)" for f s
    using that by (auto simp: frequency_stores_def Let_def intro: calm)
  have "i2c_guarded n (map stmt (frequency_stores n hz)) s = Some t"
    using assms by (auto simp: Some i2cSetFrequency_def split: if_splits)
  then show ?thesis
    by (rule calm_guarded) (use stores in auto)
qed (use assms in \<open>auto simp: i2cSetFrequency_def intro: calm\<close>)

lemma calm_release_isr [calm]: "calm s (i2cReleaseISR n s)"
  by (auto simp: i2cReleaseISR_def intro!: calm calm_trans [OF calm_ext calm_queue_kept])

lemma calm_line_high: "line_high H p s = (b, t) \<Longrightarrow> calm s t"
  by (auto simp: line_high_def Let_def intro: calm)

lemma calm_lines_free: "lines_free H sda scl s = (b, t) \<Longrightarrow> calm s t"
  by (auto simp: lines_free_def split: prod.splits bool.splits intro: calm_line_high calm_trans)

lemma calm_clock_out [calm]: "calm s (clock_out H sda scl k s)"
proof (induction k arbitrary: s)
  case (Suc k)
  define u where "u = digitalWrite (unat (pin8 scl)) 1 (digitalWrite (unat (pin8 scl)) 0 s)"
  obtain b v where v: "line_high H sda u = (b, v)"
    by fastforce
  have "calm s v"
    using calm_trans [OF calm_trans [OF calm_pins(1) calm_pins(1)] calm_line_high [OF v [unfolded u_def]]] .
  with Suc show ?case
    by (auto simp: Let_def u_def [symmetric] v split: bool.split intro: calm_trans)
qed (simp add: calm)

lemma calm_check:
  assumes "i2cCheckLineState desc H sda scl s = (b, t)"
  shows "calm s t"
proof (cases "sda < 0 \<or> scl < 0")
  case False
  define u where "u = exec [digitalWrite (unat (pin8 sda)) 1, digitalWrite (unat (pin8 scl)) 1,
    pinMode desc (unat (pin8 sda)) (PULLUP OR OPEN_DRAIN OR INPUT),
    pinMode desc (unat (pin8 scl)) (PULLUP OR OPEN_DRAIN OR OUTPUT)] s"
  have u: "calm s u"
    unfolding u_def by (rule calm_exec) (auto intro: calm)
  obtain free v where v: "lines_free H sda scl u = (free, v)"
    by fastforce
  define w where "w = (if free then v else clock_out H sda scl 9 (digitalWrite (unat (pin8 scl)) 1 v))"
  have w: "calm v w"
    by (auto simp: w_def intro: calm calm_trans [OF calm_pins(1) calm_clock_out])
  have "lines_free H sda scl w = (b, t)"
    using assms False v unfolding i2cCheckLineState_def Let_def u_def [symmetric] w_def by simp
  from calm_lines_free [OF this] show ?thesis
    using calm_trans [OF u calm_trans [OF calm_lines_free [OF v] w]] calm_trans by blast
qed (use assms in \<open>auto simp: i2cCheckLineState_def intro: calm\<close>)

lemma calm_init:
  assumes "i2cInit desc H mutex_ok n sda scl frequency s = Some (r, t)"
  shows "calm s t"
proof (cases "1 < n")
  case False
  define u where "u = upd_bus n (\<lambda>b. b\<lparr>ob_sda := sda, ob_scl := scl\<rparr>) (detach_lines desc n s)"
  define v where "v = u\<lparr>i2c_lock := (i2c_lock u)(n := True)\<rparr>"
  define hz where "hz = init_frequency n frequency (i2cReleaseISR n v)"
  let ?body = "stmt (i2cReleaseISR n) # map stmt (init_stores n)"
  have u: "calm s u"
    unfolding u_def by (rule calm_trans [OF calm_lines(3) calm_queue_kept]) simp
  have "calm u v"
    by (simp add: v_def calm_def wf_queue_def held_def)
  with u have v: "calm s v"
    by (rule calm_trans)
  have stores: "calm s (f s)" if "f \<in> set (init_stores n)" for f s
    using that by (auto simp: init_stores_def intro: calm)
  have body: "calm s w" if "i2c_guarded n ?body s = Some w" for s w
    by (rule calm_guarded [OF that]) (auto intro: calm stores)
  show ?thesis
  proof (cases "\<not> i2c_lock u n \<and> \<not> mutex_ok")
    case True
    with assms False have "t = u"
      unfolding i2cInit_def Let_def u_def [symmetric] by simp
    with u show ?thesis
      by simp
  next
    case ok: False
    from assms False ok obtain w e x b y
      where w: "i2c_guarded n ?body v = Some w" "i2cSetFrequency (Some n) hz w = Some (e, x)"
        "i2cCheckLineState desc H (ob_sda (i2c_bus x n)) (ob_scl (i2c_bus x n)) x = (b, y)"
        "t = (if b then attach_lines desc n y else y)"
      unfolding i2cInit_def Let_def u_def [symmetric] v_def [symmetric] hz_def [symmetric]
      by (auto split: option.splits prod.splits bool.splits)
    have "calm y t"
      by (simp add: w(4) calm)
    with v body [OF w(1)] calm_frequency [OF w(2)] calm_check [OF w(3)] show ?thesis
      using calm_trans by blast
  qed
qed (use assms in \<open>simp add: i2cInit_def calm\<close>)

lemma calm_release:
  assumes "i2cRelease desc i2c s = Some t"
  shows "calm s t"
proof (cases i2c)
  case (Some n)
  have "calm s (upd_bus n (\<lambda>b. b\<lparr>ob_event := NULL\<rparr>) (ext (EventDelete e) s))" for e s
    by (rule calm_trans [OF calm_ext calm_queue_kept]) simp_all
  note event = this
  from assms show ?thesis
    unfolding i2cRelease_def Some option.case
    by (rule calm_guarded) (auto intro: calm event)
qed (use assms in \<open>simp add: i2cRelease_def\<close>)

section \<open>Processing\<close>

lemma calm_isr:
  assumes "i2c_isr H n s = Some t"
  shows "calm s t"
proof (cases "wf_queue n s \<and> ob_stage (i2c_bus s n) \<noteq> I2C_DONE")
  case True
  define act where "act = rd (I2c n iint_status) s AND 0x7FF"
  have loop: "isr_loop H n act s = Some t"
    using assms True by (simp add: i2c_isr_def act_def)
  then have "act AND I_LEAVE \<noteq> 0 \<or> act AND NOT I_SERVED = 0"
    using isr_loop_hangs [of act n s H] True by auto
  from isr_loop_returns [OF this, of n s H] True loop show ?thesis
    using keeps_calm by auto
next
  case False
  show ?thesis
  proof (cases "wf_queue n s")
    case True
    with False assms have "t = wr (I2c n iint_clr) 0x1FFF (wr (I2c n iint_ena) 0 s)"
      by (simp add: i2c_isr_def)
    then show ?thesis
      using calm_trans calm_stores(1) by blast
  qed (auto simp: calm_def)
qed

lemma calm_bus_activity: "bus_activity H n hs s = Some t \<Longrightarrow> calm s t"
  unfolding bus_activity_def
  by (erule calm_run) (auto intro: calm_trans [OF calm_pins(3) calm_isr])

lemma calm_update_error [calm]: "calm s (i2c_update_error_byte_cnt H n s)"
  by (rule keeps_calm [where n = n]) (simp add: keeps)

lemma calm_result: "proc_result H n eBits s = (r, e, t) \<Longrightarrow> calm s t"
proof -
  have "calm s (exec [upd_bus n (\<lambda>b. b\<lparr>ob_stage := I2C_DONE\<rparr>), wr (I2c n iint_ena) 0,
      wr (I2c n iint_clr) 0x1FFF, i2c_update_error_byte_cnt H n] s)"
    by (rule calm_exec) (auto intro: calm)
  moreover assume "proc_result H n eBits s = (r, e, t)"
  ultimately show ?thesis
    unfolding proc_result_def Let_def by (auto intro: calm split: if_splits)
qed

lemma calm_notify [calm]: "calm s (notify n eBits s)"
proof -
  let ?f = "\<lambda>b s. if dq_queueEvent (dq_at n b s) \<noteq> NULL
    then ext (EventSet (dq_queueEvent (dq_at n b s)) (element_bits (queuePos n s) eBits b)) s else s"
  have step: "calm s (?f b s)" for b s
    by (auto intro: calm calm_ext)
  have "calm s (fold ?f bs s)" for bs
  proof (induction bs arbitrary: s)
    case (Cons b bs)
    show ?case
      using calm_trans [OF step [of s b] Cons.IH [of "?f b s"]] by simp
  qed (simp add: calm)
  then show ?thesis
    unfolding notify_def .
qed

lemma calm_wait:
  assumes "proc_wait H hs n timeOut s = Some (r, t)"
  shows "calm s t"
proof -
  define freq where "freq = i2cGetFrequency (Some n) s"
  define ticks where "ticks = totalBytes (ob_dq (i2c_bus s n)) * 10 * 1000 div freq + ucast timeOut"
  define u where "u = ext (EventWait (ob_event (i2c_bus s n)) ticks) (setf (I2c n ictr) trans_start 1 s)"
  have u: "calm s u"
    unfolding u_def by (rule calm_trans [OF calm_stores(2) calm_ext]) simp
  from assms obtain v where v: "bus_activity H n hs u = Some v"
    unfolding proc_wait_def Let_def freq_def [symmetric] ticks_def [symmetric] u_def [symmetric]
    by (auto split: if_splits option.splits)
  define bits where "bits = ob_exitCode (i2c_bus v n)"
  define w where "w = (if bits AND EVENT_ERROR \<noteq> 0 \<or> bits AND EVENT_DONE = 0
    then i2c_update_error_byte_cnt H n v else v)"
  have w: "calm v w"
    unfolding w_def by (rule calm_if; rule calm)
  obtain r' e x where r': "proc_result H n bits w = (r', e, x)"
    by (cases "proc_result H n bits w") auto
  have "proc_wait H hs n timeOut s = (if freq = 0 then None else Some (r', notify n e x))"
    unfolding proc_wait_def Let_def freq_def [symmetric] ticks_def [symmetric] u_def [symmetric] v option.case
      bits_def [symmetric] w_def [symmetric] r' prod.case ..
  with assms r' have x: "proc_result H n bits w = (r, e, x)" "t = notify n e x"
    by (simp_all split: if_splits)
  show ?thesis
    using calm_trans [OF u calm_trans [OF calm_bus_activity [OF v] calm_trans [OF w calm_trans [OF calm_result [OF x(1)] calm_notify]]]]
    by (simp add: x(2))
qed

lemma calm_fill: "fillCmdQueue n INTS s = Some t \<Longrightarrow> calm s t"
  using works_calm [OF works_fifo(2)] .

lemma calm_give_Some: "map_option g (i2c_give n v) = Some (g' t) \<Longrightarrow> \<exists>t'. i2c_give n v = Some t'"
  by auto

lemma calm_proc:
  assumes "i2cProcQueue H hs ev h intr_ok i2c timeOut s = Some (r, c, t)"
  shows "calm s t"
proof (cases i2c)
  case (Some n)
  define s1 where "s1 = poll H n s"
  have s1: "calm s s1"
    by (simp add: s1_def calm)
  show ?thesis
  proof (cases "getf (I2c n istatus) bus_busy s1 \<noteq> 0")
    case False
    then obtain s2 where s2: "i2c_take n s1 = Some s2"
      using assms by (auto simp: Some i2cProcQueue_def s1_def [symmetric] Let_def split: option.splits)
    define s3 where "s3 = upd_bus n (\<lambda>b. b\<lparr>ob_stage := I2C_DONE,
      ob_event := (if ob_event b = NULL then ev else ob_event b)\<rparr>) s2"
    define s4 where "s4 = exec (proc_reset n) (ext (EventClear (ob_event (i2c_bus s3 n)) 0xFF) s3)"
    have s3: "calm s2 s3"
      unfolding s3_def by (rule calm_queue_kept) simp
    have "calm (ext (EventClear (ob_event (i2c_bus s3 n)) 0xFF) s3) s4"
      unfolding s4_def
      by (rule calm_exec) (auto simp: proc_reset_def wf_queue_def wf_elem_upd intro!: calm calm_upd_bus)
    from calm_trans [OF s3 calm_trans [OF calm_ext this]] have s4: "calm s2 s4"
      by simp
    have step: "calm s t" if "calm s2 x" "i2c_give n x = Some t" for x
      using calm_trans [OF s1 calm_bracket [OF s2 that]] .
    note unf = assms [unfolded i2cProcQueue_def Some option.case Let_def s1_def [symmetric] if_not_P [OF False]
        s2 s3_def [symmetric] s4_def [symmetric]]
    show ?thesis
    proof (cases "ob_event (i2c_bus s3 n) = NULL")
      case True
      with unf step [OF s3] show ?thesis
        by auto
    next
      case False
      note unf = unf [unfolded if_not_P [OF False]]
      then obtain s5 where s5: "fillCmdQueue n False s4 = Some s5"
        by (auto split: option.splits)
      define s6 where "s6 = exec (proc_arm n) s5"
      define install where "install = (ob_intr (i2c_bus s6 n) = NULL)"
      define s7 where "s7 = (if install then ext (IntrAlloc (ETS_I2C_INTR_SOURCE n)) s6 else s6)"
      define s8 where "s8 = (if install then upd_bus n (\<lambda>b. b\<lparr>ob_intr := h\<rparr>) s7 else s7)"
      have "calm s5 s6"
        unfolding s6_def by (rule calm_exec) (auto simp: proc_arm_def Let_def intro!: calm calm_trans [OF calm_stores(1) calm_stores(1)])
      moreover have "calm s6 s7" "calm s7 s8"
        by (auto simp: s7_def s8_def intro: calm calm_ext)
      ultimately have s7: "calm s2 s7" "calm s2 s8"
        using calm_trans [OF s4 calm_trans [OF calm_fill [OF s5]]] calm_trans by blast+
      note unf = unf [unfolded s5 option.case s6_def [symmetric] install_def [symmetric] s7_def [symmetric] s8_def [symmetric]]
      show ?thesis
      proof (cases "install \<and> \<not> intr_ok")
        case True
        with unf step [OF s7(1)] show ?thesis
          by auto
      next
        case False
        note unf = unf [unfolded if_not_P [OF False]]
        then obtain e s9 where s9: "proc_wait H hs n timeOut s8 = Some (e, s9)"
          by (auto split: option.splits)
        from unf [unfolded s9 option.case prod.case] step [OF calm_trans [OF s7(2) calm_wait [OF s9]]]
        show ?thesis
          by auto
      qed
    qed
  qed (use assms s1 in \<open>simp add: Some i2cProcQueue_def s1_def [symmetric]\<close>)
qed (use assms in \<open>simp add: i2cProcQueue_def calm\<close>)

lemma calm_process:
  assumes "i2c_process desc H E n timeOut s = Some (r, c, t)"
  shows "calm s t"
proof -
  from assms obtain e k u where u: "i2cProcQueue H (en_first E) (en_event E) (en_intr E) (en_intr_ok E) (Some n) timeOut s = Some (e, k, u)"
    by (auto simp: i2c_process_def split: option.splits)
  define again where "again = (if e = I2C_ERROR_BUSY then
      case i2cInit desc H (en_mutex E) n (ob_sda (i2c_bus u n)) (ob_scl (i2c_bus u n)) 0 u of
        None \<Rightarrow> None
      | Some (None, s) \<Rightarrow> Some (e, k, s)
      | Some (Some _, s) \<Rightarrow>
          i2cProcQueue H (en_second E) (en_event E) (en_intr E) (en_intr_ok E) (Some n) timeOut s
    else Some (e, k, u))"
  obtain v where v: "again = Some (r, c, v)" "t = snd (i2cFlush (Some n) v)"
    using assms unfolding i2c_process_def u option.case prod.case again_def [symmetric]
    by (auto split: option.splits)
  have "calm u v"
  proof (cases "e = I2C_ERROR_BUSY")
    case True
    with v(1) obtain b w where w: "i2cInit desc H (en_mutex E) n (ob_sda (i2c_bus u n)) (ob_scl (i2c_bus u n)) 0 u = Some (b, w)"
      by (auto simp: again_def split: option.splits)
    show ?thesis
    proof (cases b)
      case None
      with v(1) w True have "w = v"
        by (simp add: again_def)
      with calm_init [OF w] show ?thesis
        by simp
    next
      case (Some m)
      with v(1) w True have "i2cProcQueue H (en_second E) (en_event E) (en_intr E) (en_intr_ok E) (Some n) timeOut w = Some (r, c, v)"
        by (simp add: again_def)
      with calm_trans [OF calm_init [OF w] calm_proc] show ?thesis .
    qed
  qed (use v(1) in \<open>simp add: again_def calm\<close>)
  from calm_trans [OF calm_proc [OF u] calm_trans [OF this calm_flush]] show ?thesis
    by (simp add: v(2))
qed

lemma calm_write: "i2cWrite desc H E i2c addr buff len stop timeOut s = Some (r, t) \<Longrightarrow> calm s t"
  unfolding i2cWrite_def
  by (auto split: prod.splits option.splits if_splits intro: calm_add_write calm_trans [OF calm_add_write calm_process])

lemma calm_read: "i2cRead desc H E i2c addr buff len stop timeOut s = Some (r, c, t) \<Longrightarrow> calm s t"
  unfolding i2cRead_def
  by (auto split: prod.splits option.splits if_splits intro: calm_add_read calm_trans [OF calm_add_read calm_process])

lemma calm_debug: "i2cDebug i2c a b s = (r, t) \<Longrightarrow> calm s t"
  by (auto simp: i2cDebug_def Let_def intro: calm split: option.splits)

lemma calm_status: "i2cGetStatus H i2c s = (r, t) \<Longrightarrow> calm s t"
  by (auto simp: i2cGetStatus_def Let_def intro: calm split: option.splits)

section \<open>Sessions\<close>

text \<open>One step per call of the driver or interrupt, with any hardware and any outcome of the allocators.\<close>

inductive i2c_call :: "i2c_soc \<Rightarrow> i2c_soc \<Rightarrow> bool" where
  start: "i2cInit desc H mutex_ok n sda scl frequency s = Some (r, t) \<Longrightarrow> i2c_call s t"
| release: "i2cRelease desc i2c s = Some t \<Longrightarrow> i2c_call s t"
| queue_write: "i2cAddQueueWrite ok i2c addr data len stop event s = (e, t) \<Longrightarrow> i2c_call s t"
| queue_read: "i2cAddQueueRead ok ok' i2c addr data len stop event s = (e, t) \<Longrightarrow> i2c_call s t"
| process: "i2cProcQueue H hs ev h intr_ok i2c timeOut s = Some (e, c, t) \<Longrightarrow> i2c_call s t"
| flush: "i2c_call s (snd (i2cFlush i2c s))"
| send: "i2cWrite desc H E i2c addr buff len stop timeOut s = Some (e, t) \<Longrightarrow> i2c_call s t"
| receive: "i2cRead desc H E i2c addr buff len stop timeOut s = Some (e, c, t) \<Longrightarrow> i2c_call s t"
| frequency: "i2cSetFrequency i2c hz s = Some (e, t) \<Longrightarrow> i2c_call s t"
| attach_scl: "i2cAttachSCL desc i2c p s = (e, t) \<Longrightarrow> i2c_call s t"
| detach_scl: "i2cDetachSCL desc i2c p s = (e, t) \<Longrightarrow> i2c_call s t"
| attach_sda: "i2cAttachSDA desc i2c p s = (e, t) \<Longrightarrow> i2c_call s t"
| detach_sda: "i2cDetachSDA desc i2c p s = (e, t) \<Longrightarrow> i2c_call s t"
| debug: "i2cDebug i2c a b s = (f, t) \<Longrightarrow> i2c_call s t"
| status: "i2cGetStatus H i2c s = (f, t) \<Longrightarrow> i2c_call s t"
| hardware: "i2c_call s (on_regs h s)"
| isr: "i2c_isr H n s = Some t \<Longrightarrow> i2c_call s t"

lemma i2c_call_calm: "i2c_call s t \<Longrightarrow> calm s t"
  by (induction rule: i2c_call.induct)
    (erule calm_init calm_release calm_add_write calm_add_read calm_proc calm_write calm_read
       calm_frequency calm_attach calm_debug calm_status calm_isr | rule calm)+

text \<open>
  C13: the queues of the I2C driver are well-typed in every session. From a state where they are, any
  sequence of calls and interrupts, on both buses, with any hardware and any outcome of the allocators,
  keeps every element well-formed (a mode of 0 or 1, an address still to be sent whenever the address
  command is, nothing sent out of order), gives back every mutex it takes and never loses one; and there
  refilling the command list returns for both buses.
\<close>

theorem i2c_session_typed:
  assumes "i2c_call\<^sup>*\<^sup>* s t" and "\<forall>m. wf_queue m s"
  shows "(\<forall>m. wf_queue m t) \<and> (\<forall>l. held l t = held l s) \<and> (\<forall>m. i2c_lock s m \<longrightarrow> i2c_lock t m)
    \<and> (\<forall>n INTS. fillCmdQueue n INTS t \<noteq> None)"
proof -
  from assms(1) have "calm s t"
    by (induction rule: rtranclp_induct) (auto intro: calm calm_trans i2c_call_calm)
  with assms(2) have "\<forall>m. wf_queue m t" "\<forall>l. held l t = held l s" "\<forall>m. i2c_lock s m \<longrightarrow> i2c_lock t m"
    by (simp_all add: calm_def)
  moreover from this(1) have "fillCmdQueue n INTS t \<noteq> None" for n INTS
    using fillCmdQueue_returns [of n t INTS] by auto
  ultimately show ?thesis
    by blast
qed

theorem i2c_session_typed_witness:
  "\<exists>t. i2c_call\<^sup>*\<^sup>* i2c_ex t \<and> queueCount 0 t = 3 \<and> fillCmdQueue 0 True t \<noteq> None \<and> held (I2cLock 0) t = 0"
proof -
  obtain e t where t: "i2cAddQueueWrite True (Some 0) 0x50 4096 2 True NULL i2c_ex = (e, t)"
    by fastforce
  then have call: "i2c_call\<^sup>*\<^sup>* i2c_ex t"
    by (intro r_into_rtranclp queue_write)
  have wf: "\<forall>m. wf_queue m i2c_ex"
    using i2c_ex_ok
    by (auto simp: queue_ok_def wf_queue_def i2c_ex_def upd_bus_def i2c_boot_def soc.defs i2c_obj_init_def)
  have "queueCount 0 t = 3"
    using t by (auto simp: i2cAddQueueWrite_def i2cAddQueue_def queueCount_def upd_bus_def i2c_ex_queue)
  moreover have "held (I2cLock 0) i2c_ex = 0"
    by (simp add: i2c_ex_def upd_bus_def i2c_boot_def soc.defs held_def)
  ultimately show ?thesis
    using i2c_session_typed [OF call wf] call by auto
qed

end
