(* ===== verification/I2cData.thy ===== *)
theory I2cData
  imports I2cSession
begin

text \<open>
  The bytes and the clock of the I2C driver: the frequency that is set, the form of the addresses, and
  that filling the transmit FIFO sends the bytes of the queue in their order.
\<close>

section \<open>The frequency\<close>

lemma frequency_regs:
  assumes "clk_speed \<noteq> 0" and "i2c_lock s n"
  shows "\<exists>t. i2cSetFrequency (Some n) clk_speed s = Some (I2C_ERROR_OK, t)
    \<and> getf (I2c n iscl_low) scl_period t = take_bit 14 (APB_CLK_HZ div clk_speed div 2)
    \<and> getf (I2c n iscl_high) scl_period t = take_bit 14 (APB_CLK_HZ div clk_speed div 2)
    \<and> getf (I2c n ififo_conf) tx_fifo_empty_thrhd t = take_bit 5 (fifo_threshold clk_speed)
    \<and> getf (I2c n ififo_conf) rx_fifo_full_thrhd t = take_bit 5 (32 - fifo_threshold clk_speed)
    \<and> (\<forall>l. held l t = held l s) \<and> i2c_bus t = i2c_bus s"
proof -
  define t where "t = exec (frequency_stores n clk_speed) (ext (SemTake (I2cLock n)) s)"
  have "i2c_lock t = i2c_lock s" "i2c_bus t = i2c_bus s"
    by (simp_all add: t_def frequency_stores_def Let_def wr_def setf_def ext_def)
  then have "i2cSetFrequency (Some n) clk_speed s = Some (I2C_ERROR_OK, ext (SemGive (I2cLock n)) t)"
    using assms by (simp add: i2cSetFrequency_def i2c_guarded_def guarded_def run_append run_map_stmt
        i2c_take_def i2c_give_def t_def)
  moreover have "held l (ext (SemGive (I2cLock n)) t) = held l s" for l
    by (simp add: t_def frequency_stores_def Let_def)
  moreover have "getf r f (ext (SemGive (I2cLock n)) t) = getf r f t" for r f
    by (simp add: getf_def)
  moreover have "getf (I2c n iscl_low) scl_period t = take_bit 14 (APB_CLK_HZ div clk_speed div 2)"
    "getf (I2c n iscl_high) scl_period t = take_bit 14 (APB_CLK_HZ div clk_speed div 2)"
    "getf (I2c n ififo_conf) tx_fifo_empty_thrhd t = take_bit 5 (fifo_threshold clk_speed)"
    "getf (I2c n ififo_conf) rx_fifo_full_thrhd t = take_bit 5 (32 - fifo_threshold clk_speed)"
    by (simp_all add: t_def frequency_stores_def Let_def getf_def scl_period_def tx_fifo_empty_thrhd_def
        rx_fifo_full_thrhd_def bf_get_put_same bf_get_put_other bf_disjoint_def)
  ultimately show ?thesis
    using \<open>i2c_bus t = i2c_bus s\<close> by (intro exI conjI allI) (assumption | simp)+
qed

lemma period_bounds:
  fixes c :: nat
  assumes "2442 \<le> c" and "c \<le> 40000000"
  defines "p \<equiv> 80000000 div c div 2"
  shows "1 \<le> p" "p < 16384" "c \<le> 80000000 div (2 * p)"
proof -
  have "2 \<le> 80000000 div c"
    using assms(1,2) by (simp add: less_eq_div_iff_mult_less_eq)
  then show "1 \<le> p"
    by (simp add: p_def less_eq_div_iff_mult_less_eq)
  have "80000000 div c \<le> 80000000 div 2442"
    using assms(1) by (intro div_le_mono2) simp_all
  then show "p < 16384"
    by (simp add: p_def less_mult_imp_div_less)
  have "c * (80000000 div c) \<le> 80000000"
    by simp
  moreover have "c * (2 * p) \<le> c * (80000000 div c)"
    by (simp add: p_def)
  ultimately have "c * (2 * p) \<le> 80000000"
    by (rule le_trans [rotated])
  with \<open>1 \<le> p\<close> show "c \<le> 80000000 div (2 * p)"
    by (simp add: less_eq_div_iff_mult_less_eq)
qed

text \<open>
  C15: a bus frequency from 2442 Hz to 40 MHz is set up to the resolution of the clock divider: the
  frequency read back is the clock over the period in whole clock cycles, never below the one asked for.
  Both FIFOs get a threshold, and together they leave exactly the size of a FIFO. The mutex is given
  back and the bus object unchanged.
\<close>

theorem i2cFrequency_roundtrip:
  assumes "i2c_lock s n" and "2442 \<le> clk_speed" and "clk_speed \<le> 40000000"
  shows "\<exists>t. i2cSetFrequency (Some n) clk_speed s = Some (I2C_ERROR_OK, t)
    \<and> unat (i2cGetFrequency (Some n) t) = 80000000 div (2 * (80000000 div unat clk_speed div 2))
    \<and> clk_speed \<le> i2cGetFrequency (Some n) t
    \<and> unat (getf (I2c n ififo_conf) tx_fifo_empty_thrhd t) = min 24 (unat clk_speed div 50000 + 1)
    \<and> unat (getf (I2c n ififo_conf) tx_fifo_empty_thrhd t) + unat (getf (I2c n ififo_conf) rx_fifo_full_thrhd t) = 32
    \<and> (\<forall>l. held l t = held l s) \<and> i2c_bus t = i2c_bus s"
proof -
  define c where "c = unat clk_speed"
  define p where "p = 80000000 div c div 2"
  have c: "2442 \<le> c" "c \<le> 40000000"
    using assms(2,3) by (simp_all add: c_def word_le_nat_alt)
  note p = period_bounds [OF c, folded p_def]
  have nz: "clk_speed \<noteq> 0"
    using c(1) by (auto simp: c_def)
  obtain t where t: "i2cSetFrequency (Some n) clk_speed s = Some (I2C_ERROR_OK, t)"
      "getf (I2c n iscl_low) scl_period t = take_bit 14 (APB_CLK_HZ div clk_speed div 2)"
      "getf (I2c n iscl_high) scl_period t = take_bit 14 (APB_CLK_HZ div clk_speed div 2)"
      "getf (I2c n ififo_conf) tx_fifo_empty_thrhd t = take_bit 5 (fifo_threshold clk_speed)"
      "getf (I2c n ififo_conf) rx_fifo_full_thrhd t = take_bit 5 (32 - fifo_threshold clk_speed)"
      "\<forall>l. held l t = held l s" "i2c_bus t = i2c_bus s"
    using frequency_regs [OF nz assms(1)] by blast
  have period: "unat (APB_CLK_HZ div clk_speed div 2) = p"
    by (simp add: APB_CLK_HZ_def unat_div c_def p_def)
  then have "unat (take_bit 14 (APB_CLK_HZ div clk_speed div 2)) = p"
    using p(2) by (simp add: unsigned_take_bit_eq take_bit_nat_eq_self_iff)
  then have count: "unat (getf (I2c n iscl_low) scl_period t + getf (I2c n iscl_high) scl_period t) = 2 * p"
    using p(2) by (simp add: t(2,3) unat_word_ariths period)
  have got: "unat (i2cGetFrequency (Some n) t) = 80000000 div (2 * p)"
    using count p(1) by (simp add: i2cGetFrequency_def Let_def APB_CLK_HZ_def unat_div word_less_nat_alt)
  have thr: "unat (fifo_threshold clk_speed) = min 24 (c div 50000 + 1)"
  proof -
    have "c div 50000 \<le> 40000000 div 50000"
      using c(2) by (rule div_le_mono)
    then have "unat (clk_speed div 50000 + 1) = c div 50000 + 1"
      by (simp add: unat_word_ariths unat_div c_def)
    then show ?thesis
      by (auto simp: fifo_threshold_def Let_def word_less_nat_alt min_def)
  qed
  have "unat (32 - fifo_threshold clk_speed) = 32 - min 24 (c div 50000 + 1)"
    by (simp add: unat_sub_if_size thr word_size)
  with thr t(4,5) have "unat (getf (I2c n ififo_conf) tx_fifo_empty_thrhd t) = min 24 (c div 50000 + 1)"
    "unat (getf (I2c n ififo_conf) rx_fifo_full_thrhd t) = 32 - min 24 (c div 50000 + 1)"
    by (simp_all add: unsigned_take_bit_eq take_bit_nat_eq_self_iff)
  with t(1,6,7) got p(3) show ?thesis
    by (intro exI conjI) (assumption | simp add: c_def p_def word_le_nat_alt)+
qed

theorem i2cFrequency_roundtrip_witness:
  "\<exists>t. i2cSetFrequency (Some 0) 100000 (i2c_ex\<lparr>i2c_lock := \<lambda>_. True\<rparr>) = Some (I2C_ERROR_OK, t)
     \<and> i2cGetFrequency (Some 0) t = 100000"
proof -
  obtain t where t: "i2cSetFrequency (Some 0) 100000 (i2c_ex\<lparr>i2c_lock := \<lambda>_. True\<rparr>) = Some (I2C_ERROR_OK, t)"
      "unat (i2cGetFrequency (Some 0) t) = 100000"
    using i2cFrequency_roundtrip [of "i2c_ex\<lparr>i2c_lock := \<lambda>_. True\<rparr>" 0 100000] by auto
  from t(2) have "i2cGetFrequency (Some 0) t = of_nat 100000"
    by (metis of_nat_unat ucast_id)
  with t(1) show ?thesis
    by simp
qed

section \<open>The address\<close>

text \<open>
  C16: the address of an element as \<open>i2cProcQueue\<close> puts it onto the bus. A seven-bit address is shifted
  and carries the direction in its lowest bit. A ten-bit address should be the prefix 11110 with its two
  upper bits and the direction, then the lower byte; but whatever it is, the bytes 0x00 and 0x01 are sent.
\<close>

theorem wire_addr_bytes:
  "wire_addr (new_elem mode addr data len stop False event) =
     (if is_10bit addr then 0x0001 else (push_bit 1 addr AND 0xFE) OR of_nat mode)"
proof (cases "is_10bit addr")
  case True
  define w where "w = (drop_bit 7 addr AND 0xFE) OR of_nat mode"
  have "bit (addr AND 0xFC00) 11"
    using True by (simp only: is_10bit_def) (simp add: bit_iff_odd)
  moreover have "bit (0xFE :: u16) 4"
    by (simp add: bit_iff_odd)
  ultimately have "bit w 4"
    by (simp only: w_def bit_or_iff bit_and_iff bit_drop_bit_eq o_def) simp
  then have "bit (push_bit 8 w) 12"
    by (simp only: bit_push_bit_iff) simp
  then have "push_bit 8 w \<noteq> 0"
    by (metis bit_0_eq bot_apply bot_bool_def)
  with True show ?thesis
    by (simp add: wire_addr_def new_elem_def w_def)
next
  case False
  then show ?thesis
    by (simp add: wire_addr_def new_elem_def)
qed

section \<open>The transmit FIFO\<close>

text \<open>The bytes an element still has to send, and those of the queue from \<open>q\<close> on.\<close>

definition addr_bytes :: "dq_elem \<Rightarrow> u8 list" where
  "addr_bytes e =
     (if ct_addrReq e = 2 then [addr_hi (ct_addr e), addr_lo (ct_addr e)]
      else if ct_addrReq e = 1 then [addr_lo (ct_addr e)] else [])"

definition tx_left :: "mem \<Rightarrow> dq_elem \<Rightarrow> u8 list" where
  "tx_left m e =
     drop (ct_addrSent e) (addr_bytes e)
       @ (if ct_mode e = 0 then map (\<lambda>i. m (dq_data e + i)) [dq_position e..<dq_length e] else [])"

definition tx_stream :: "nat \<Rightarrow> nat \<Rightarrow> i2c_soc \<Rightarrow> u8 list" where
  "tx_stream q n s = concat (map (tx_left (i2c_ram s)) (drop q (ob_dq (i2c_bus s n))))"

definition tx_ok :: "dq_elem \<Rightarrow> bool" where
  "tx_ok e \<longleftrightarrow> ct_addrSent e \<le> ct_addrReq e \<and> ct_addrReq e \<le> 2"

text \<open>The bytes stored into the FIFO register of a controller.\<close>

definition fifo_store :: "nat \<Rightarrow> event \<Rightarrow> u8 list" where
  "fifo_store n e = (case e of Wr r v \<Rightarrow> if r = I2c n ififo_data then [ucast v] else [] | Ext c \<Rightarrow> [])"

definition i2c_sent :: "nat \<Rightarrow> 'a soc_scheme \<Rightarrow> u8 list" where
  "i2c_sent n s = concat (map (fifo_store n) (soc_trace s))"

text \<open>Hardware that counts the bytes stored and sends none of them while the FIFO is being filled.\<close>

definition tx_fill :: "nat \<Rightarrow> regfile \<Rightarrow> nat" where
  "tx_fill n r = unat (bf_get tx_fifo_cnt (r (I2c n istatus)))"

definition holding :: "i2c_hw \<Rightarrow> nat \<Rightarrow> bool" where
  "holding H n \<longleftrightarrow> (\<forall>r. tx_fill n (hw_status H n r) = tx_fill n r)
     \<and> (\<forall>r. tx_fill n r < 32 \<longrightarrow> tx_fill n (hw_push H n r) = tx_fill n r + 1)"

lemma tx_cnt_fill: "tx_cnt n s = tx_fill n (soc_regs s)"
  by (simp add: tx_cnt_def tx_fill_def getf_def rd_def)

lemma i2c_sent_push [simp]: "i2c_sent n (push_fifo H n b s) = i2c_sent n s @ [b]"
proof -
  have "ucast (ucast b :: u32) = b"
    by (rule bit_word_eqI) (auto simp: bit_simps)
  then show ?thesis
    by (simp add: i2c_sent_def push_fifo_def on_regs_def wr_def fifo_store_def)
qed

lemma i2c_sent_more [simp]: "i2c_sent n (upd_dq m a f s) = i2c_sent n s" "i2c_sent n (upd_bus m g s) = i2c_sent n s"
  "i2c_sent n (poll H m s) = i2c_sent n s"
  by (simp_all add: i2c_sent_def upd_dq_def upd_bus_def poll_def on_regs_def)

text \<open>\<open>fed n a p s t\<close>: between \<open>s\<close> and \<open>t\<close> the bytes \<open>p\<close> of element \<open>a\<close> were stored, and nothing else.\<close>

definition fed :: "nat \<Rightarrow> nat \<Rightarrow> u8 list \<Rightarrow> i2c_soc \<Rightarrow> i2c_soc \<Rightarrow> bool" where
  "fed n a p s t \<longleftrightarrow> i2c_sent n t = i2c_sent n s @ p \<and> i2c_ram t = i2c_ram s
     \<and> tx_cnt n t = tx_cnt n s + length p \<and> queueCount n t = queueCount n s
     \<and> (\<forall>i. i \<noteq> a \<longrightarrow> dq_at n i t = dq_at n i s)
     \<and> tx_left (i2c_ram s) (dq_at n a s) = p @ tx_left (i2c_ram s) (dq_at n a t)
     \<and> (tx_ok (dq_at n a s) \<longrightarrow> tx_ok (dq_at n a t))
     \<and> ct_mode (dq_at n a t) = ct_mode (dq_at n a s) \<and> ct_addrReq (dq_at n a t) = ct_addrReq (dq_at n a s)"

lemma fed_refl: "fed n a [] s s"
  by (simp add: fed_def)

lemma fed_trans: "fed n a p s t \<Longrightarrow> fed n a q t u \<Longrightarrow> fed n a (p @ q) s u"
  by (simp add: fed_def)

lemma fed_poll: "holding H n \<Longrightarrow> fed n a [] s (poll H n s)"
  by (simp add: fed_def tx_cnt_fill holding_def poll_def on_regs_def queueCount_def dq_at_def i2c_sent_def)

lemma push_views [simp]: "i2c_bus (push_fifo H n b s) = i2c_bus s" "i2c_ram (push_fifo H n b s) = i2c_ram s"
  by (simp_all add: push_fifo_def on_regs_def wr_def)

lemma tx_cnt_push: "holding H n \<Longrightarrow> tx_cnt n s < 32 \<Longrightarrow> tx_cnt n (push_fifo H n b s) = tx_cnt n s + 1"
  by (simp add: tx_cnt_fill holding_def push_fifo_def on_regs_def wr_def) (simp add: tx_fill_def)

lemma dq_upd: "a < queueCount n s \<Longrightarrow> dq_at n i (upd_dq n a f s) = (if i = a then f (dq_at n a s) else dq_at n i s)"
  "queueCount n (upd_dq n a f s) = queueCount n s" "i2c_ram (upd_dq n a f s) = i2c_ram s"
  "tx_cnt n (upd_dq n a f s) = tx_cnt n s"
  by (simp_all add: dq_at_def upd_dq_def upd_bus_def queueCount_def tx_cnt_fill)

lemma dq_push: "dq_at n i (push_fifo H n b s) = dq_at n i s" "queueCount n (push_fifo H n b s) = queueCount n s"
  by (simp_all add: dq_at_def queueCount_def)


lemma tx_left_addr:
  assumes "ct_addrSent e < length (addr_bytes e)"
  shows "tx_left m e = [addr_bytes e ! ct_addrSent e] @ tx_left m (e\<lparr>ct_addrSent := ct_addrSent e + 1\<rparr>)"
proof -
  have "addr_bytes (e\<lparr>ct_addrSent := k\<rparr>) = addr_bytes e" for k
    by (simp add: addr_bytes_def)
  with assms show ?thesis
    by (simp add: tx_left_def Cons_nth_drop_Suc [symmetric])
qed

lemma tx_left_data:
  assumes "ct_mode e = 0" and "ct_addrSent e = ct_addrReq e" and "dq_position e < dq_length e" and "tx_ok e"
  shows "tx_left m e = [m (dq_data e + dq_position e)] @ tx_left m (e\<lparr>dq_position := dq_position e + 1\<rparr>)"
proof -
  have "length (addr_bytes e) \<le> ct_addrReq e"
    by (simp add: addr_bytes_def)
  moreover have "addr_bytes (e\<lparr>dq_position := k\<rparr>) = addr_bytes e" for k
    by (simp add: addr_bytes_def)
  ultimately show ?thesis
    using assms by (simp add: tx_left_def upt_conv_Cons)
qed

lemma fed_push_addr:
  assumes "holding H n" and "a < queueCount n s" and "tx_cnt n s < 32"
    and "ct_addrSent (dq_at n a s) < length (addr_bytes (dq_at n a s))"
    and "b = addr_bytes (dq_at n a s) ! ct_addrSent (dq_at n a s)"
  shows "fed n a [b] s (push_addr H n a b s)"
proof -
  have "length (addr_bytes e) \<le> ct_addrReq e" for e
    by (simp add: addr_bytes_def)
  with assms(4) have "ct_addrSent (dq_at n a s) < ct_addrReq (dq_at n a s)"
    by (meson less_le_trans)
  with assms show ?thesis
    using tx_left_addr [OF assms(4)]
    by (simp add: fed_def push_addr_def dq_upd dq_push tx_cnt_push tx_ok_def)
qed

lemma fed_count: "fed n a p s t \<Longrightarrow> tx_cnt n t = tx_cnt n s + length p"
  and fed_queue: "fed n a p s t \<Longrightarrow> queueCount n t = queueCount n s"
  and fed_ok: "fed n a p s t \<Longrightarrow> tx_ok (dq_at n a s) \<Longrightarrow> tx_ok (dq_at n a t)"
  and fed_mode: "fed n a p s t \<Longrightarrow> ct_mode (dq_at n a t) = ct_mode (dq_at n a s)"
  and fed_req: "fed n a p s t \<Longrightarrow> ct_addrReq (dq_at n a t) = ct_addrReq (dq_at n a s)"
  by (simp_all add: fed_def)

lemma sent_push_addr: "a < queueCount n s \<Longrightarrow> dq_at n a (push_addr H n a b s)
    = (dq_at n a s)\<lparr>ct_addrSent := ct_addrSent (dq_at n a s) + 1\<rparr>"
  by (simp add: push_addr_def dq_upd dq_push)

lemma dq_poll [simp]: "dq_at n i (poll H m s) = dq_at n i s" "queueCount n (poll H m s) = queueCount n s"
  "i2c_ram (poll H m s) = i2c_ram s" "queuePos n (poll H m s) = queuePos n s"
  by (simp_all add: poll_def on_regs_def dq_at_def queueCount_def queuePos_def)

text \<open>The address of an element: it is complete, or the FIFO has filled up.\<close>

lemma tx_addr_fed:
  assumes H: "holding H n" and a: "a < queueCount n s" and cnt: "tx_cnt n s < 31"
    and ok: "tx_ok (dq_at n a s)"
  shows "\<exists>p. fed n a p s (tx_addr H n a s) \<and> tx_cnt n (tx_addr H n a s) \<le> 31
    \<and> (ct_addrSent (dq_at n a (tx_addr H n a s)) = ct_addrReq (dq_at n a s) \<or> tx_cnt n (tx_addr H n a s) = 31)"
proof -
  define e where "e = dq_at n a s"
  define lo where "lo t = push_addr H n a (addr_lo (ct_addr e)) t" for t
  consider "ct_addrSent e = ct_addrReq e" | "ct_addrReq e = 1" "ct_addrSent e = 0"
    | "ct_addrReq e = 2" "ct_addrSent e \<le> 1"
    using ok by (force simp: tx_ok_def e_def)
  then show ?thesis
  proof cases
    case 1
    then show ?thesis
      using cnt by (intro exI [of _ "[]"]) (simp add: tx_addr_def e_def [symmetric] Let_def fed_refl)
  next
    case 2
    then have "fed n a [addr_lo (ct_addr e)] s (lo s)"
      unfolding lo_def using cnt by (intro fed_push_addr [OF H a]) (simp_all add: e_def [symmetric] addr_bytes_def)
    moreover have "tx_addr H n a s = lo s"
      using 2 by (simp add: tx_addr_def e_def [symmetric] Let_def lo_def)
    moreover have "ct_addrSent (dq_at n a (lo s)) = 1"
      using 2 a by (simp add: lo_def sent_push_addr e_def [symmetric])
    ultimately show ?thesis
      using cnt 2 by (intro exI [of _ "[addr_lo (ct_addr e)]"]) (simp add: fed_count e_def)
  next
    case 3
    define u where "u = poll H n (if ct_addrSent e = 0 then push_addr H n a (addr_hi (ct_addr e)) s else s)"
    define p where "p = (if ct_addrSent e = 0 then [addr_hi (ct_addr e)] else [])"
    have "fed n a p s (if ct_addrSent e = 0 then push_addr H n a (addr_hi (ct_addr e)) s else s)"
      using 3 cnt by (auto simp: p_def fed_refl e_def [symmetric] addr_bytes_def intro!: fed_push_addr [OF H a])
    from fed_trans [OF this fed_poll [OF H]] have u: "fed n a p s u"
      by (simp add: u_def)
    have e': "dq_at n a u = e\<lparr>ct_addrSent := 1\<rparr>"
      using 3 a by (cases "ct_addrSent e = 0") (auto simp: u_def sent_push_addr e_def)
    have au: "a < queueCount n u"
      using a u by (simp add: fed_queue)
    have eq: "tx_addr H n a s = (if tx_cnt n u < 31 then lo u else u)"
      using 3 e' by (simp add: tx_addr_def e_def [symmetric] u_def [symmetric] Let_def lo_def sent_push_addr [OF a])
    show ?thesis
    proof (cases "tx_cnt n u < 31")
      case True
      have "fed n a [addr_lo (ct_addr e)] u (lo u)"
        unfolding lo_def using True 3 by (intro fed_push_addr [OF H au]) (simp_all add: e' addr_bytes_def)
      note fed_trans [OF u this] fed_count [OF this]
      moreover have "ct_addrSent (dq_at n a (lo u)) = 2"
        using au by (simp add: lo_def sent_push_addr e')
      ultimately show ?thesis
        using True 3 by (intro exI [of _ "p @ [addr_lo (ct_addr e)]"]) (simp add: eq e_def)
    next
      case False
      moreover have "tx_cnt n u \<le> 31"
        using fed_count [OF u] cnt by (simp add: p_def)
      ultimately show ?thesis
        using u by (intro exI [of _ p]) (simp add: eq)
    qed
  qed
qed


text \<open>The data of an element: all of it, or the FIFO is full.\<close>

lemma tx_bytes_fed:
  assumes "holding H n" and "a < queueCount n s" and "tx_cnt n s + k \<le> 32"
    and "ct_mode (dq_at n a s) = 0" and "ct_addrSent (dq_at n a s) = ct_addrReq (dq_at n a s)"
    and "tx_ok (dq_at n a s)"
  shows "\<exists>p. fed n a p s (tx_bytes H n a k s)
    \<and> (length p = k \<or> length p < k \<and> tx_left (i2c_ram s) (dq_at n a (tx_bytes H n a k s)) = [])"
  using assms(2-)
proof (induction k arbitrary: s)
  case 0
  then show ?case
    by (intro exI [of _ "[]"]) (simp add: fed_refl)
next
  case (Suc k)
  define e where "e = dq_at n a s"
  show ?case
  proof (cases "dq_position e < dq_length e")
    case False
    then have "tx_left (i2c_ram s) e = []"
      using Suc.prems by (auto simp: tx_left_def addr_bytes_def e_def tx_ok_def)
    with False show ?thesis
      by (intro exI [of _ "[]"]) (simp add: fed_refl e_def [symmetric] Let_def)
  next
    case True
    define b where "b = i2c_ram s (dq_data e + dq_position e)"
    define t where "t = upd_dq n a (\<lambda>e. e\<lparr>dq_position := dq_position e + 1\<rparr>) (push_fifo H n b s)"
    have at: "dq_at n a t = e\<lparr>dq_position := dq_position e + 1\<rparr>"
      using Suc.prems(1) by (simp add: t_def dq_upd dq_push e_def)
    have "tx_left (i2c_ram s) e = [b] @ tx_left (i2c_ram s) (dq_at n a t)"
      unfolding at b_def using Suc.prems True by (intro tx_left_data) (simp_all add: e_def)
    then have f: "fed n a [b] s t"
      using Suc.prems at
      by (simp add: fed_def e_def [symmetric])
        (simp add: t_def dq_upd dq_push tx_cnt_push [OF assms(1)] tx_ok_def)
    have "tx_ok (dq_at n a t)" "ct_mode (dq_at n a t) = 0" "ct_addrSent (dq_at n a t) = ct_addrReq (dq_at n a t)"
      using fed_ok [OF f] Suc.prems by (simp_all add: at e_def)
    then obtain p where p: "fed n a p t (tx_bytes H n a k t)"
        "length p = k \<or> length p < k \<and> tx_left (i2c_ram t) (dq_at n a (tx_bytes H n a k t)) = []"
      using Suc.IH [of t] Suc.prems fed_count [OF f] fed_queue [OF f] by auto
    have "tx_bytes H n a (Suc k) s = tx_bytes H n a k t"
      using True by (simp add: e_def [symmetric] Let_def b_def t_def)
    moreover have "i2c_ram t = i2c_ram s"
      using f by (simp add: fed_def)
    ultimately show ?thesis
      using fed_trans [OF f p(1)] p(2) by (intro exI [of _ "[b] @ p"]) auto
  qed
qed

lemma room_left: "tx_cnt n s \<le> 32 \<Longrightarrow> room n s = 32 - tx_cnt n s"
  by (simp add: room_def tx_cnt_def unat_sub_if_size word_size)

text \<open>
  One element: some of its bytes are sent, in order; the FIFO does not overflow, and unless it is as good
  as full nothing of the element is left.
\<close>

definition tx_element :: "i2c_hw \<Rightarrow> nat \<Rightarrow> bool \<Rightarrow> nat \<Rightarrow> i2c_soc \<Rightarrow> i2c_soc" where
  "tx_element H n rxSeen a s =
     (let s = tx_addr H n a s;
          s = (if ct_mode (dq_at n a s) = 0 then tx_data H n a s
               else if \<not> rxSeen \<and> queuePos n s < a then upd_bus n (\<lambda>b. b\<lparr>ob_queuePos := a\<rparr>) s else s)
      in poll H n s)"

lemma tx_elements_step:
  "tx_elements H n rxSeen (a # as) s =
     (let t = tx_element H n rxSeen a s
      in if tx_cnt n t < 31
         then tx_elements H n (rxSeen \<or> ct_mode (dq_at n a (tx_addr H n a s)) \<noteq> 0) as t else (False, t))"
  by (simp add: tx_element_def Let_def)

lemma fed_queuePos: "fed n a [] s (upd_bus n (\<lambda>b. b\<lparr>ob_queuePos := q\<rparr>) s)"
  by (simp add: fed_def upd_bus_def queueCount_def dq_at_def i2c_sent_def tx_cnt_fill)

lemma tx_element_fed:
  assumes H: "holding H n" and a: "a < queueCount n s" and cnt: "tx_cnt n s < 31"
    and ok: "tx_ok (dq_at n a s)"
  shows "\<exists>p. fed n a p s (tx_element H n rxSeen a s) \<and> tx_cnt n (tx_element H n rxSeen a s) \<le> 32
    \<and> (tx_cnt n (tx_element H n rxSeen a s) < 31
         \<longrightarrow> tx_left (i2c_ram s) (dq_at n a (tx_element H n rxSeen a s)) = [])"
proof -
  define t where "t = tx_addr H n a s"
  obtain p where p: "fed n a p s t" "tx_cnt n t \<le> 31"
      "ct_addrSent (dq_at n a t) = ct_addrReq (dq_at n a s) \<or> tx_cnt n t = 31"
    using tx_addr_fed [OF assms] unfolding t_def by blast
  have tok: "tx_ok (dq_at n a t)" and ta: "a < queueCount n t" and req: "ct_addrReq (dq_at n a t) = ct_addrReq (dq_at n a s)"
    and ram: "i2c_ram t = i2c_ram s"
    using p(1) ok a by (simp_all add: fed_def)
  have gone: "ct_addrSent (dq_at n a t) = ct_addrReq (dq_at n a t) \<Longrightarrow> drop (ct_addrSent (dq_at n a t)) (addr_bytes (dq_at n a t)) = []"
    by (simp add: addr_bytes_def)
  define v where "v = (if ct_mode (dq_at n a t) = 0 then tx_data H n a t
     else if \<not> rxSeen \<and> queuePos n t < a then upd_bus n (\<lambda>b. b\<lparr>ob_queuePos := a\<rparr>) t else t)"
  have "\<exists>q. fed n a q t v \<and> tx_cnt n v \<le> 32 \<and> (tx_cnt n v < 31 \<longrightarrow> tx_left (i2c_ram s) (dq_at n a v) = [])"
  proof (cases "ct_mode (dq_at n a t) = 0 \<and> ct_addrSent (dq_at n a t) = ct_addrReq (dq_at n a t)")
    case True
    have u: "fed n a [] t (poll H n t)"
      by (rule fed_poll [OF H])
    have "tx_cnt n (poll H n t) = tx_cnt n t"
      using fed_count [OF u] by simp
    then have room: "room n (poll H n t) = 32 - tx_cnt n t"
      using p(2) by (simp add: room_left)
    obtain q where q: "fed n a q (poll H n t) (tx_bytes H n a (32 - tx_cnt n t) (poll H n t))"
        "length q = 32 - tx_cnt n t \<or> length q < 32 - tx_cnt n t
           \<and> tx_left (i2c_ram t) (dq_at n a (tx_bytes H n a (32 - tx_cnt n t) (poll H n t))) = []"
      using tx_bytes_fed [OF H, where a = a and s = "poll H n t" and k = "32 - tx_cnt n t"] True tok ta p(2)
        \<open>tx_cnt n (poll H n t) = tx_cnt n t\<close> by auto
    have "v = tx_bytes H n a (32 - tx_cnt n t) (poll H n t)"
      using True by (simp add: v_def tx_data_def Let_def room)
    moreover have "tx_cnt n v = tx_cnt n t + length q"
      using fed_count [OF q(1)] calculation \<open>tx_cnt n (poll H n t) = tx_cnt n t\<close> by simp
    ultimately show ?thesis
      using fed_trans [OF u q(1)] q(2) p(2) ram by (intro exI [of _ q]) auto
  next
    case False
    then have f: "fed n a [] t v"
      by (auto simp: v_def tx_data_def fed_refl fed_queuePos)
    then have at: "tx_left (i2c_ram t) (dq_at n a v) = tx_left (i2c_ram t) (dq_at n a t)"
      by (simp add: fed_def)
    have "tx_left (i2c_ram s) (dq_at n a t) = []" if "tx_cnt n t < 31"
      using False p(3) that gone req by (simp add: tx_left_def)
    with f at p(2) fed_count [OF f] ram show ?thesis
      by (intro exI [of _ "[]"]) simp
  qed
  then obtain q where q: "fed n a q t v" "tx_cnt n v \<le> 32" "tx_cnt n v < 31 \<longrightarrow> tx_left (i2c_ram s) (dq_at n a v) = []"
    by blast
  have eq: "tx_element H n rxSeen a s = poll H n v"
    by (simp add: tx_element_def Let_def v_def t_def)
  note f = fed_trans [OF fed_trans [OF p(1) q(1)] fed_poll [OF H]]
  have "tx_cnt n (poll H n v) = tx_cnt n v"
    using fed_count [OF fed_poll [OF H]] by simp
  with f q(2,3) show ?thesis
    by (intro exI [of _ "(p @ q) @ []"]) (simp add: eq)
qed


text \<open>
  The elements \<open>as\<close> from \<open>s\<close> to \<open>t\<close>: what was sent and what is left make up what there was to send;
  \<open>c\<close> tells whether there was room for all of it.
\<close>

definition stream :: "nat \<Rightarrow> mem \<Rightarrow> nat list \<Rightarrow> i2c_soc \<Rightarrow> u8 list" where
  "stream n m as s = concat (map (\<lambda>a. tx_left m (dq_at n a s)) as)"

definition drained :: "nat \<Rightarrow> nat list \<Rightarrow> i2c_soc \<Rightarrow> bool \<Rightarrow> i2c_soc \<Rightarrow> bool" where
  "drained n as s c t \<longleftrightarrow>
     (\<exists>p. i2c_sent n t = i2c_sent n s @ p \<and> p @ stream n (i2c_ram s) as t = stream n (i2c_ram s) as s)
     \<and> i2c_ram t = i2c_ram s \<and> queueCount n t = queueCount n s \<and> (\<forall>i. i \<notin> set as \<longrightarrow> dq_at n i t = dq_at n i s)
     \<and> tx_cnt n t \<le> 32 \<and> (c \<longleftrightarrow> tx_cnt n t < 31) \<and> (c \<longrightarrow> stream n (i2c_ram s) as t = [])"

lemma fed_others:
  assumes "fed n a p s t" and "a \<notin> set as"
  shows "stream n m as t = stream n m as s"
proof -
  have "dq_at n i t = dq_at n i s" if "i \<in> set as" for i
    using assms that by (auto simp: fed_def)
  then show ?thesis
    by (simp add: stream_def cong: map_cong)
qed

lemma drained_full:
  assumes "fed n a p s t" and "a \<notin> set as" and "tx_cnt n t \<le> 32" and "\<not> tx_cnt n t < 31"
  shows "drained n (a # as) s False t"
proof -
  have keep: "i2c_sent n t = i2c_sent n s @ p" "i2c_ram t = i2c_ram s" "queueCount n t = queueCount n s"
      "\<forall>i. i \<noteq> a \<longrightarrow> dq_at n i t = dq_at n i s"
      "tx_left (i2c_ram s) (dq_at n a s) = p @ tx_left (i2c_ram s) (dq_at n a t)"
    using assms(1) by (simp_all add: fed_def)
  have "p @ stream n (i2c_ram s) (a # as) t = stream n (i2c_ram s) (a # as) s"
    using fed_others [OF assms(1,2), of "i2c_ram s"] by (simp add: stream_def keep(5))
  moreover have "\<forall>i. i \<notin> set (a # as) \<longrightarrow> dq_at n i t = dq_at n i s"
  proof (intro allI impI)
    fix i
    assume "i \<notin> set (a # as)"
    then have "i \<noteq> a"
      by simp
    with keep(4) show "dq_at n i t = dq_at n i s"
      by blast
  qed
  ultimately show ?thesis
    unfolding drained_def using keep(1-3) assms(3,4) by blast
qed

lemma drained_next:
  assumes "fed n a p s t" and "a \<notin> set as" and "tx_left (i2c_ram s) (dq_at n a t) = []" and "drained n as t c u"
  shows "drained n (a # as) s c u"
proof -
  have keep: "i2c_sent n t = i2c_sent n s @ p" "i2c_ram t = i2c_ram s" "queueCount n t = queueCount n s"
      "\<And>i. i \<noteq> a \<Longrightarrow> dq_at n i t = dq_at n i s" "tx_left (i2c_ram s) (dq_at n a s) = p"
    using assms(1,3) by (simp_all add: fed_def)
  obtain q where q: "i2c_sent n u = i2c_sent n t @ q" "q @ stream n (i2c_ram s) as u = stream n (i2c_ram s) as s"
    using assms(4) fed_others [OF assms(1,2), of "i2c_ram s"] by (auto simp: drained_def keep(2))
  have "dq_at n a u = dq_at n a t"
    using assms(2,4) by (simp add: drained_def)
  then have "stream n (i2c_ram s) (a # as) u = stream n (i2c_ram s) as u"
    "stream n (i2c_ram s) (a # as) s = p @ stream n (i2c_ram s) as s"
    using assms(3) keep(5) by (simp_all add: stream_def)
  then show ?thesis
    using assms(4) q keep unfolding drained_def by (auto intro!: exI [of _ "p @ q"])
qed

lemma tx_elements_drained:
  assumes H: "holding H n"
  shows "tx_cnt n s < 31 \<Longrightarrow> \<forall>a\<in>set as. a < queueCount n s \<and> tx_ok (dq_at n a s) \<Longrightarrow> distinct as
    \<Longrightarrow> drained n as s (fst (tx_elements H n rxSeen as s)) (snd (tx_elements H n rxSeen as s))"
proof (induction as arbitrary: rxSeen s)
  case Nil
  then show ?case
    by (simp add: drained_def stream_def)
next
  case (Cons a as)
  define t where "t = tx_element H n rxSeen a s"
  obtain p where p: "fed n a p s t" "tx_cnt n t \<le> 32" "tx_cnt n t < 31 \<longrightarrow> tx_left (i2c_ram s) (dq_at n a t) = []"
    using tx_element_fed [OF H, where a = a and s = s and rxSeen = rxSeen] Cons.prems unfolding t_def by auto
  define r where "r = (rxSeen \<or> ct_mode (dq_at n a (tx_addr H n a s)) \<noteq> 0)"
  have a: "a \<notin> set as" "distinct as"
    using Cons.prems(3) by simp_all
  have eq: "tx_elements H n rxSeen (a # as) s = (if tx_cnt n t < 31 then tx_elements H n r as t else (False, t))"
    by (simp only: tx_elements_step Let_def t_def r_def)
  show ?case
  proof (cases "tx_cnt n t < 31")
    case False
    then show ?thesis
      using drained_full [OF p(1) a(1) p(2)] by (simp only: eq) simp
  next
    case True
    have "i < queueCount n t \<and> tx_ok (dq_at n i t)" if "i \<in> set as" for i
    proof -
      have "i \<noteq> a"
        using a(1) that by blast
      then show ?thesis
        using Cons.prems(2) p(1) that by (simp add: fed_def)
    qed
    then have "drained n as t (fst (tx_elements H n r as t)) (snd (tx_elements H n r as t))"
      using Cons.IH [OF True _ a(2)] by blast
    with p(3) True show ?thesis
      unfolding eq by (simp add: drained_next [OF p(1) a(1)])
  qed
qed

lemma setf_other:
  assumes "r \<noteq> I2c n istatus" and "r \<noteq> I2c n ififo_data"
  shows "i2c_sent n (setf r f w s) = i2c_sent n s" "tx_cnt n (setf r f w s) = tx_cnt n s"
    "i2c_ram (setf r f w s) = i2c_ram s" "i2c_bus (setf r f w s) = i2c_bus s"
  using assms by (auto simp: i2c_sent_def setf_def wr_def fifo_store_def tx_cnt_fill tx_fill_def)

lemma tx_stream_upt: "tx_stream q n s = stream n (i2c_ram s) [q..<queueCount n s] s"
proof -
  have "drop q xs = map ((!) xs) [q..<length xs]" for xs :: "dq_elem list"
    by (rule nth_equalityI) simp_all
  from this [of "ob_dq (i2c_bus s n)"] show ?thesis
    by (simp add: tx_stream_def stream_def dq_at_def queueCount_def comp_def)
qed


text \<open>Hardware that counts what is stored, up to the 63 its counter can show.\<close>

definition counting_hw :: i2c_hw where
  "counting_hw = \<lparr>hw_status = (\<lambda>_ r. r),
     hw_push = (\<lambda>n r. r(I2c n istatus := bf_put tx_fifo_cnt (of_nat (tx_fill n r + 1)) (r (I2c n istatus)))),
     hw_pop = (\<lambda>_ r. r), hw_pins = (\<lambda>r. r)\<rparr>"

lemma counting_holds: "holding counting_hw n"
proof -
  have "unat (take_bit 6 (of_nat (Suc k) :: u32)) = Suc k" if "k < 32" for k
    using that by (simp add: unsigned_take_bit_eq unat_of_nat take_bit_nat_eq_self_iff del: of_nat_Suc)
  then show ?thesis
    by (simp add: holding_def counting_hw_def tx_fill_def bf_get_put_same tx_fifo_cnt_def del: of_nat_Suc)
qed


end
