(* ===== verification/Clock.thy ===== *)
theory Clock
  imports Soc Noniso "HOL-Library.Signed_Division"
begin

text \<open>
  Time: the clock, the waits and the file names of \<^verbatim>\<open>esp32-hal-misc.c\<close>, and the time zone and the local
  time of \<^verbatim>\<open>esp32-hal-time.c\<close>. The hardware timer and the calendar are parameters: \<open>env\<close> steps before
  each reading, \<open>esp\<close> is the count of microseconds since the start, \<open>year\<close> the year since 1900 as
  \<^verbatim>\<open>localtime_r\<close> gives it. The offsets of a time zone are signed 32-bit numbers in the code; they are
  \<open>int\<close> here, for values whose negation and difference do not overflow, which C leaves undefined.
\<close>

section \<open>The clock\<close>

definition now_us :: "('s \<Rightarrow> nat) \<Rightarrow> 's \<Rightarrow> u32" where
  "now_us esp s = of_nat (esp s)"

definition micros :: "('s \<Rightarrow> 's) \<Rightarrow> ('s \<Rightarrow> nat) \<Rightarrow> 's \<Rightarrow> u32 \<times> 's" where
  "micros env esp s = (let s = env s in (now_us esp s, s))"

definition millis :: "('s \<Rightarrow> 's) \<Rightarrow> ('s \<Rightarrow> nat) \<Rightarrow> 's \<Rightarrow> u32 \<times> 's" where
  "millis env esp s = (let s = env s in (of_nat (esp s div 1000), s))"

definition portTICK_PERIOD_MS :: u32 where "portTICK_PERIOD_MS = 1000 div 1000"

definition delay_ms :: "u32 \<Rightarrow> 'a soc_scheme \<Rightarrow> 'a soc_scheme" where
  "delay_ms ms = ext (TaskDelay (ms div portTICK_PERIOD_MS))"

definition yield_task :: "'a soc_scheme \<Rightarrow> 'a soc_scheme" where
  "yield_task = ext TaskYield"

definition delayMicroseconds :: "('s \<Rightarrow> 's) \<Rightarrow> ('s \<Rightarrow> nat) \<Rightarrow> u32 \<Rightarrow> 's \<Rightarrow> 's option" where
  "delayMicroseconds env esp us s =
     (case micros env esp s of (m, s) \<Rightarrow>
        if us \<noteq> 0 then
          let e = m + us
          in case (if m > e then await env (\<lambda>s. \<not> now_us esp s > e) s else Some s) of
               None \<Rightarrow> None
             | Some s \<Rightarrow> await env (\<lambda>s. \<not> now_us esp s < e) s
        else Some s)"

section \<open>File names\<close>

definition is_sep :: "char \<Rightarrow> bool" where
  "is_sep c \<longleftrightarrow> c = CHR ''/'' \<or> c = CHR 0x5C"

text \<open>The loop, with its counters \<open>i\<close> and \<open>pos\<close>, over the characters before the terminator.\<close>

fun path_pos :: "string \<Rightarrow> nat \<Rightarrow> nat \<Rightarrow> nat" where
  "path_pos [] i pos = pos"
| "path_pos (c # cs) i pos = path_pos cs (i + 1) (if is_sep c then i + 1 else pos)"

definition pathToFileName :: "string \<Rightarrow> string" where
  "pathToFileName path = drop (path_pos path 0 0) path"

section \<open>The time zone\<close>

text \<open>The conversions \<^verbatim>\<open>%ld\<close> and \<^verbatim>\<open>%02u\<close> of \<^verbatim>\<open>sprintf\<close>.\<close>

definition dec :: "nat \<Rightarrow> string" where
  "dec k = rev (digit_loop 10 k)"

definition fmt_ld :: "int \<Rightarrow> string" where
  "fmt_ld x = (if x < 0 then CHR ''-'' # dec (nat (- x)) else dec (nat x))"

definition fmt_02u :: "int \<Rightarrow> string" where
  "fmt_02u x = (if x < 10 then CHR ''0'' # dec (nat x) else dec (nat x))"

definition zone_text :: "string \<Rightarrow> int \<Rightarrow> string" where
  "zone_text name offset =
     (if offset smod 3600 \<noteq> 0
      then name @ fmt_ld (offset sdiv 3600) @ '':'' @ fmt_02u \<bar>(offset smod 3600) sdiv 60\<bar>
             @ '':'' @ fmt_02u \<bar>offset smod 60\<bar>
      else name @ fmt_ld (offset sdiv 3600))"

text \<open>
  The two names are written into 16 bytes each and joined in 32; a longer text is written past the end
  of its array.
\<close>

definition setTimeZone :: "int \<Rightarrow> int \<Rightarrow> 'a soc_scheme \<Rightarrow> 'a soc_scheme option" where
  "setTimeZone offset daylight s =
     (let cst = zone_text ''UTC'' offset;
          cdt = (if daylight \<noteq> 3600 then zone_text ''DST'' (offset - daylight) else ''DST'');
          tz = cst @ cdt
      in if 16 \<le> length cst \<or> 16 \<le> length cdt \<or> 32 \<le> length tz then None else Some (ext (SetTz tz) s))"

text \<open>\<open>enabled\<close>: what \<^verbatim>\<open>sntp_enabled()\<close> returns; the servers are pointers that are only handed on.\<close>

definition sntp_start :: "bool \<Rightarrow> ptr \<Rightarrow> ptr \<Rightarrow> ptr \<Rightarrow> 'a soc_scheme \<Rightarrow> 'a soc_scheme" where
  "sntp_start enabled server1 server2 server3 = exec
     [\<lambda>s. if enabled then ext SntpStop s else s,
      ext SntpPoll, ext (SntpServer 0 server1), ext (SntpServer 1 server2), ext (SntpServer 2 server3),
      ext SntpInit]"

definition configTime ::
  "bool \<Rightarrow> int \<Rightarrow> int \<Rightarrow> ptr \<Rightarrow> ptr \<Rightarrow> ptr \<Rightarrow> 'a soc_scheme \<Rightarrow> 'a soc_scheme option" where
  "configTime enabled gmtOffset_sec daylightOffset_sec server1 server2 server3 s =
     setTimeZone (- gmtOffset_sec) daylightOffset_sec (sntp_start enabled server1 server2 server3 s)"

definition configTzTime ::
  "bool \<Rightarrow> string \<Rightarrow> ptr \<Rightarrow> ptr \<Rightarrow> ptr \<Rightarrow> 'a soc_scheme \<Rightarrow> 'a soc_scheme" where
  "configTzTime enabled tz server1 server2 server3 s =
     ext (SetTz tz) (sntp_start enabled server1 server2 server3 s)"

section \<open>The local time\<close>

primrec time_loop ::
  "('a soc_scheme \<Rightarrow> 'a soc_scheme) \<Rightarrow> ('a soc_scheme \<Rightarrow> int) \<Rightarrow> nat \<Rightarrow> 'a soc_scheme
     \<Rightarrow> bool \<times> 'a soc_scheme" where
  "time_loop env year 0 s = (False, s)"
| "time_loop env year (Suc count) s =
     (let s = env (delay_ms 10 s)
      in if 2016 - 1900 < year s then (True, s) else time_loop env year count s)"

definition getLocalTime ::
  "('a soc_scheme \<Rightarrow> 'a soc_scheme) \<Rightarrow> ('a soc_scheme \<Rightarrow> int) \<Rightarrow> u32 \<Rightarrow> 'a soc_scheme
     \<Rightarrow> bool \<times> 'a soc_scheme" where
  "getLocalTime env year ms s =
     (let s = env s
      in if 2016 - 1900 < year s then (True, s) else time_loop env year (unat (ms div 10)) s)"

section \<open>Lemmas\<close>

lemma path_pos_spec:
  "path_pos cs i pos = (if \<exists>c\<in>set cs. is_sep c then i + (length cs - length (takeWhile (\<lambda>c. \<not> is_sep c) (rev cs))) else pos)"
proof (induction cs arbitrary: i pos)
  case (Cons c cs)
  show ?case
  proof (cases "\<exists>c\<in>set cs. is_sep c")
    case True
    then have "takeWhile (\<lambda>c. \<not> is_sep c) (rev (c # cs)) = takeWhile (\<lambda>c. \<not> is_sep c) (rev cs)"
      by (auto simp: takeWhile_append)
    moreover have "length (takeWhile (\<lambda>c. \<not> is_sep c) (rev cs)) \<le> length cs"
      using length_takeWhile_le [of "\<lambda>c. \<not> is_sep c" "rev cs"] by simp
    ultimately show ?thesis
      using True by (simp add: Cons.IH Suc_diff_le)
  next
    case False
    then have "takeWhile (\<lambda>c. \<not> is_sep c) (rev cs @ [c]) = rev cs @ (if is_sep c then [] else [c])"
      by (auto simp: takeWhile_append)
    with False show ?thesis
      by (auto simp: Cons.IH)
  qed
qed simp

lemma path_last: "pathToFileName path = rev (takeWhile (\<lambda>c. \<not> is_sep c) (rev path))"
proof -
  define w where "w = takeWhile (\<lambda>c. \<not> is_sep c) (rev path)"
  define d where "d = dropWhile (\<lambda>c. \<not> is_sep c) (rev path)"
  have "rev path = w @ d"
    by (simp add: w_def d_def)
  then have split: "path = rev d @ rev w"
    by (metis rev_append rev_rev_ident)
  show ?thesis
  proof (cases "\<exists>c\<in>set path. is_sep c")
    case True
    then have "pathToFileName path = drop (length path - length w) path"
      by (simp add: pathToFileName_def path_pos_spec w_def)
    also have "length path - length w = length (rev d)"
      by (subst split) simp
    also have "drop (length (rev d)) path = rev w"
      by (subst split) simp
    finally show ?thesis
      by (simp add: w_def)
  next
    case False
    then have "takeWhile (\<lambda>c. \<not> is_sep c) (rev path) = rev path"
      by (simp add: takeWhile_eq_all_conv)
    moreover have "pathToFileName path = path"
      using False by (simp add: pathToFileName_def path_pos_spec)
    ultimately show ?thesis
      by (simp only: rev_rev_ident)
  qed
qed

section \<open>The wait\<close>

text \<open>A clock that never goes back, gets arbitrarily far, and is read at least every \<open>g\<close> microseconds.\<close>

definition ticking :: "('s \<Rightarrow> 's) \<Rightarrow> ('s \<Rightarrow> nat) \<Rightarrow> nat \<Rightarrow> bool" where
  "ticking env esp g \<longleftrightarrow> (\<forall>s. esp s \<le> esp (env s) \<and> esp (env s) \<le> esp s + g \<and> (\<exists>k. esp s < esp ((env ^^ k) s)))"

lemma ticking_passes:
  assumes "ticking env esp g"
  shows "\<exists>k. D \<le> esp ((env ^^ k) s)"
proof (induction "D - esp s" arbitrary: s rule: less_induct)
  case less
  show ?case
  proof (cases "D \<le> esp s")
    case True
    then show ?thesis
      by (intro exI [of _ 0]) simp
  next
    case False
    obtain k where k: "esp s < esp ((env ^^ k) s)"
      using assms by (auto simp: ticking_def)
    with False less [of "(env ^^ k) s"] obtain j where "D \<le> esp ((env ^^ j) ((env ^^ k) s))"
      by fastforce
    then show ?thesis
      by (intro exI [of _ "j + k"]) (simp add: funpow_add)
  qed
qed

text \<open>
  A loop that waits for the deadline \<open>D\<close>: it goes on before \<open>D\<close> and stops on the readings of the next
  \<open>g\<close> microseconds.
\<close>

lemma await_deadline:
  assumes clk: "ticking env esp g" and start: "esp s \<le> D"
    and before: "\<And>t. esp s \<le> esp t \<Longrightarrow> esp t < D \<Longrightarrow> \<not> c t"
    and after: "\<And>t. D \<le> esp t \<Longrightarrow> esp t \<le> D + g \<Longrightarrow> c t"
  shows "\<exists>t. await env c s = Some t \<and> D \<le> esp t \<and> esp t \<le> D + g"
proof -
  have step: "esp t \<le> esp (env t)" "esp (env t) \<le> esp t + g" for t
    using clk by (auto simp: ticking_def)
  have mono: "esp s \<le> esp ((env ^^ k) s)" for k
    by (induction k) (auto intro: le_trans step)
  obtain k where "D \<le> esp ((env ^^ k) s)"
    using ticking_passes [OF clk] by blast
  then have "D \<le> esp ((env ^^ Suc k) s)"
    using step(1) [of "(env ^^ k) s"] by simp
  then obtain m where m: "D \<le> esp ((env ^^ Suc m) s)" "\<forall>j<m. esp ((env ^^ Suc j) s) < D"
    using exists_least_iff [of "\<lambda>m. D \<le> esp ((env ^^ Suc m) s)"] by (metis not_le)
  have early: "esp s \<le> esp ((env ^^ Suc j) s)" for j
    by (rule mono)
  have "esp ((env ^^ m) s) \<le> D"
    using m(2) start by (cases m) (simp, metis lessI less_imp_le)
  with step(2) [of "(env ^^ m) s"] have "esp ((env ^^ Suc m) s) \<le> D + g"
    by simp
  with m(1) have "c ((env ^^ Suc m) s)"
    by (intro after)
  moreover have "\<forall>j<m. \<not> c ((env ^^ Suc j) s)"
    using m(2) before [OF early] by blast
  ultimately show ?thesis
    using await_returns [where c = c and env = env and n = m and s = s] m(1) \<open>_ \<le> D + g\<close> by blast
qed

lemma mod_window:
  fixes T W q :: nat
  assumes "q * W \<le> T" and "T < q * W + W"
  shows "T mod W = T - q * W"
proof -
  obtain r where "T = q * W + r"
    using assms(1) le_Suc_ex by blast
  with assms(2) show ?thesis
    by simp
qed

lemma now_less: "now_us esp t < (of_nat D :: u32) \<longleftrightarrow> esp t mod 2 ^ 32 < D mod 2 ^ 32"
  by (simp add: now_us_def word_less_nat_alt unat_of_nat)

lemma now_greater: "(of_nat D :: u32) < now_us esp t \<longleftrightarrow> D mod 2 ^ 32 < esp t mod 2 ^ 32"
  by (simp add: now_us_def word_less_nat_alt unat_of_nat)

text \<open>The second loop of the wait, from a state in the same period of the 32-bit clock as the deadline.\<close>

lemma await_same_period:
  assumes "ticking env esp g" and "D div 2 ^ 32 * 2 ^ 32 \<le> esp s" and "esp s \<le> D"
    and "D mod 2 ^ 32 + g < 2 ^ 32"
  shows "\<exists>t. await env (\<lambda>s. \<not> now_us esp s < of_nat D) s = Some t \<and> D \<le> esp t \<and> esp t \<le> D + g"
proof (rule await_deadline [OF assms(1,3)])
  define W :: nat where "W = 2 ^ 32"
  define q where "q = D div W"
  have D: "D = q * W + D mod W" "D mod W < W"
    by (simp_all add: q_def W_def)
  note asm = assms [folded W_def, folded q_def]
  show "\<not> \<not> now_us esp t < of_nat D" if "esp s \<le> esp t" "esp t < D" for t
  proof -
    have "esp t mod W = esp t - q * W"
      using that asm(2) D by (intro mod_window) auto
    moreover have "esp t - q * W < D mod W"
      using that asm(2) D(1) by linarith
    ultimately show ?thesis
      by (simp add: now_less W_def)
  qed
  show "\<not> now_us esp t < of_nat D" if "D \<le> esp t" "esp t \<le> D + g" for t
  proof -
    have "esp t mod W = esp t - q * W"
      using that asm(4) D by (intro mod_window) auto
    moreover have "D mod W \<le> esp t - q * W"
      using that D(1) by linarith
    ultimately show ?thesis
      by (simp add: now_less W_def)
  qed
qed

text \<open>The first loop, from the period before: it ends when the 32-bit clock has wrapped around.\<close>

lemma await_wrap:
  assumes "ticking env esp g" and "esp s < D div 2 ^ 32 * 2 ^ 32" and "D < esp s + 2 ^ 32"
    and "g \<le> D mod 2 ^ 32"
  shows "\<exists>t. await env (\<lambda>s. \<not> of_nat D < now_us esp s) s = Some t
    \<and> D div 2 ^ 32 * 2 ^ 32 \<le> esp t \<and> esp t \<le> D"
proof -
  define W :: nat where "W = 2 ^ 32"
  define q where "q = D div W"
  have D: "D = q * W + D mod W" "D mod W < W"
    by (simp_all add: q_def W_def)
  note asm = assms [folded W_def, folded q_def]
  have "q \<noteq> 0"
    using asm(2) by (cases q) auto
  then obtain p where p: "q = Suc p"
    by (cases q) auto
  have "\<exists>t. await env (\<lambda>s. \<not> of_nat D < now_us esp s) s = Some t \<and> q * W \<le> esp t \<and> esp t \<le> q * W + g"
  proof (rule await_deadline [OF asm(1)])
    show "esp s \<le> q * W"
      using asm(2) by simp
    show "\<not> \<not> of_nat D < now_us esp t" if "esp s \<le> esp t" "esp t < q * W" for t
    proof -
      have pW: "p * W + D mod W < esp t" "esp t < p * W + W"
        using that asm(3) D(1) p by (auto simp: algebra_simps)
      then have "esp t mod W = esp t - p * W"
        by (intro mod_window) auto
      with pW(1) have "D mod W < esp t mod W"
        by linarith
      then show ?thesis
        by (simp add: now_greater W_def)
    qed
    show "\<not> of_nat D < now_us esp t" if "q * W \<le> esp t" "esp t \<le> q * W + g" for t
    proof -
      have "esp t mod W = esp t - q * W"
        using that asm(4) D(2) by (intro mod_window) auto
      then have "esp t mod W \<le> D mod W"
        using that(2) asm(4) by linarith
      then show ?thesis
        by (simp add: now_greater W_def)
    qed
  qed
  moreover have "q * W + g \<le> D"
    using D(1) asm(4) by linarith
  ultimately show ?thesis
    by (fold W_def, fold q_def) (meson le_trans)
qed

lemma period_same:
  fixes D T :: nat
  assumes "D div W * W \<le> T" and "T \<le> D" and "0 < W"
  shows "T mod W \<le> D mod W"
proof -
  have "D = D div W * W + D mod W" "D mod W < W"
    using assms(3) by simp_all
  moreover from this assms(1,2) have "T mod W = T - D div W * W"
    by (intro mod_window) linarith+
  ultimately show ?thesis
    using assms(2) by linarith
qed

lemma period_before:
  fixes D T :: nat
  assumes "T < D div W * W" and "D < T + W"
  shows "D mod W < T mod W"
proof -
  obtain p where p: "D div W = Suc p"
    using assms(1) by (cases "D div W") auto
  have D: "D = p * W + W + D mod W"
    using p by (metis add.commute div_mult_mod_eq mult_Suc)
  moreover have "T < p * W + W"
    using assms(1) p by simp
  moreover from this have "T mod W = T - p * W"
    using assms(2) D by (intro mod_window) linarith+
  ultimately show ?thesis
    using assms by linarith
qed

text \<open>
  C29: \<open>delayMicroseconds\<close> waits for the time asked for: with a clock that is read at least every \<open>g\<close>
  microseconds and a deadline that is at least \<open>g\<close> microseconds away from the wrap-around of the 32-bit
  clock, on either side, it returns between the deadline and \<open>g\<close> microseconds behind it, also across
  the wrap-around.
\<close>

theorem delayMicroseconds_waits:
  assumes "ticking env esp g"
    and "g \<le> (esp (env s) + unat us) mod 2 ^ 32" and "(esp (env s) + unat us) mod 2 ^ 32 + g < 2 ^ 32"
  shows "\<exists>t. delayMicroseconds env esp us s = Some t
    \<and> esp (env s) + unat us \<le> esp t \<and> esp t \<le> esp (env s) + unat us + g"
proof -
  define u where "u = env s"
  define D where "D = esp u + unat us"
  note asm = assms(1) assms(2,3) [folded u_def, folded D_def]
  have e: "now_us esp u + us = of_nat D"
    by (simp add: D_def now_us_def)
  have lt: "D < esp u + 2 ^ 32"
    using unsigned_less [of us] by (simp add: D_def)
  have "\<exists>v. (if of_nat D < now_us esp u then await env (\<lambda>s. \<not> of_nat D < now_us esp s) u else Some u) = Some v
    \<and> D div 2 ^ 32 * 2 ^ 32 \<le> esp v \<and> esp v \<le> D"
  proof (cases "esp u < D div 2 ^ 32 * 2 ^ 32")
    case True
    have "D mod 2 ^ 32 < esp u mod 2 ^ 32"
      using True lt period_before by blast
    then show ?thesis
      using await_wrap [OF asm(1) True lt asm(2)] by (simp add: now_greater)
  next
    case False
    have le: "esp u \<le> D"
      by (simp add: D_def)
    with False have "esp u mod 2 ^ 32 \<le> D mod 2 ^ 32"
      by (intro period_same) simp_all
    then show ?thesis
      using False le by (simp add: now_greater)
  qed
  then obtain v where v: "(if of_nat D < now_us esp u then await env (\<lambda>s. \<not> of_nat D < now_us esp s) u
      else Some u) = Some v" "D div 2 ^ 32 * 2 ^ 32 \<le> esp v" "esp v \<le> D"
    by blast
  obtain t where t: "await env (\<lambda>s. \<not> now_us esp s < of_nat D) v = Some t" "D \<le> esp t" "esp t \<le> D + g"
    using await_same_period [OF asm(1) v(2,3) asm(3)] by blast
  show ?thesis
  proof (cases "us = 0")
    case True
    then show ?thesis
      by (simp add: delayMicroseconds_def micros_def Let_def)
  next
    case False
    then have "delayMicroseconds env esp us s = Some t"
      unfolding delayMicroseconds_def micros_def Let_def u_def [symmetric] prod.case e v(1) option.case t(1) by simp
    with t(2,3) show ?thesis
      by (simp add: D_def u_def)
  qed
qed

theorem delayMicroseconds_waits_witness:
  "\<exists>t :: nat. delayMicroseconds Suc id 10 4294967290 = Some t \<and> 4294967301 \<le> t \<and> t \<le> 4294967302"
proof -
  have "n < (Suc ^^ Suc 0) n" for n
    by simp
  then have "ticking Suc id 1"
    by (auto simp: ticking_def simp del: funpow.simps intro: exI [of _ "Suc 0"])
  then show ?thesis
    using delayMicroseconds_waits [of Suc id 1 4294967290 10] by simp
qed


section \<open>Reading a time zone back\<close>

text \<open>
  Reference: the offset of a zone as \<^verbatim>\<open>tzset\<close> reads it behind the name, hours with an optional sign
  and optional minutes and seconds, the sign holding for all three.
\<close>

definition field :: "string \<Rightarrow> string" where
  "field = takeWhile (\<lambda>c. c \<noteq> CHR '':'')"

definition next_field :: "string \<Rightarrow> string" where
  "next_field t = tl (dropWhile (\<lambda>c. c \<noteq> CHR '':'') t)"

definition tz_abs :: "string \<Rightarrow> int" where
  "tz_abs t =
     int (parse_digits 10 (field t)) * 3600 + int (parse_digits 10 (field (next_field t))) * 60
       + int (parse_digits 10 (field (next_field (next_field t))))"

definition tz_seconds :: "string \<Rightarrow> int" where
  "tz_seconds t = (if take 1 t = ''-'' then - tz_abs (tl t) else tz_abs t)"

lemma parse_dec [simp]: "parse_digits 10 (dec k) = k"
  by (simp add: dec_def parse_rev_digit_loop)

lemma digit_chars:
  assumes "c \<in> set (dec k)"
  shows "c \<noteq> CHR '':'' \<and> c \<noteq> CHR ''-'' \<and> c \<noteq> CHR ''D''"
proof -
  have "\<forall>c\<in>set (take 10 hex_digits). c \<noteq> CHR '':'' \<and> c \<noteq> CHR ''-'' \<and> c \<noteq> CHR ''D''"
    by code_simp
  with digit_loop_set [of 10 k] assms show ?thesis
    by (auto simp: dec_def)
qed

lemma set_fmt_02u: "c \<in> set (fmt_02u x) \<Longrightarrow> c \<noteq> CHR '':'' \<and> c \<noteq> CHR ''-'' \<and> c \<noteq> CHR ''D''"
  using digit_chars [of c "nat x"] by (auto simp: fmt_02u_def split: if_splits)

lemma field_append:
  assumes "\<forall>c\<in>set d. c \<noteq> CHR '':''"
  shows "field (d @ CHR '':'' # t) = d" "field d = d"
    "next_field (d @ CHR '':'' # t) = t" "next_field d = []"
proof -
  have all: "dropWhile (\<lambda>c. c \<noteq> CHR '':'') d = []"
    using assms by (simp add: dropWhile_eq_Nil_conv)
  show "next_field d = []"
    unfolding next_field_def all by simp
  show "field (d @ CHR '':'' # t) = d" "field d = d" "next_field (d @ CHR '':'' # t) = t"
    using assms by (simp_all add: field_def next_field_def takeWhile_append2 dropWhile_append2 takeWhile_eq_all_conv)
qed

lemma field_digits [simp]:
  "field (dec k @ CHR '':'' # t) = dec k" "field (dec k) = dec k"
  "next_field (dec k @ CHR '':'' # t) = t" "next_field (dec k) = []"
  "field (fmt_02u x @ CHR '':'' # t) = fmt_02u x" "field (fmt_02u x) = fmt_02u x"
  "next_field (fmt_02u x @ CHR '':'' # t) = t" "next_field (fmt_02u x) = []"
  by (rule field_append; simp add: digit_chars set_fmt_02u)+

lemma field_Nil [simp]: "field [] = []" "next_field [] = []" "parse_digits b [] = 0"
  by (simp_all add: field_def next_field_def parse_digits_def)

lemma parse_zero: "parse_digits 10 (CHR ''0'' # t) = parse_digits 10 t"
  by (simp add: parse_digits_def)

lemma parse_fmt_02u [simp]: "0 \<le> x \<Longrightarrow> parse_digits 10 (fmt_02u x) = nat x"
  by (simp add: fmt_02u_def parse_zero)

lemma dec_not_minus: "take 1 (dec k @ t) \<noteq> ''-''"
  using digit_chars [of "hd (dec k)" k] by (cases "dec k") (auto simp: dec_def)

text \<open>Division in C, which cuts towards zero.\<close>

lemma c_div:
  fixes x n :: int
  assumes "0 < n"
  shows "0 \<le> x \<Longrightarrow> x sdiv n = x div n" "0 \<le> x \<Longrightarrow> x smod n = x mod n"
    "0 \<le> x \<Longrightarrow> (- x) sdiv n = - (x div n)" "0 \<le> x \<Longrightarrow> (- x) smod n = - (x mod n)"
  using assms
  by (cases "x = 0"; simp add: signed_divide_int_def signed_modulo_int_def minus_mult_div_eq_mod sgn_if)+

text \<open>The offset a text of \<open>zone_text\<close> stands for: less than an hour loses its sign.\<close>

definition shown_offset :: "int \<Rightarrow> int" where
  "shown_offset x = (if - 3600 < x \<and> x < 0 then - x else x)"

lemma hms: "y div 3600 * 3600 + (y mod 3600) div 60 * 60 + y mod 60 = y" for y :: int
proof -
  have "y mod 60 = y mod 3600 mod 60"
    by (simp add: mod_mod_cancel)
  then have "(y mod 3600) div 60 * 60 + y mod 60 = y mod 3600"
    by (simp add: div_mult_mod_eq)
  then show ?thesis
    using div_mult_mod_eq [of y 3600] by linarith
qed

lemma tz_abs_text:
  assumes "0 \<le> y"
  shows "tz_abs (dec (nat (y div 3600)) @ (if y mod 3600 \<noteq> 0
      then CHR '':'' # fmt_02u ((y mod 3600) div 60) @ CHR '':'' # fmt_02u (y mod 60) else [])) = y"
proof (cases "y mod 3600 = 0")
  case True
  then show ?thesis
    using assms by (auto simp: tz_abs_def)
next
  case False
  then show ?thesis
    using assms hms [of y] by (simp add: tz_abs_def pos_imp_zdiv_nonneg_iff)
qed

lemma zone_text_read:
  assumes "length name = 3"
  shows "tz_seconds (drop 3 (zone_text name x)) = shown_offset x"
proof (cases "0 \<le> x")
  case True
  let ?t = "dec (nat (x div 3600)) @ (if x mod 3600 \<noteq> 0
      then CHR '':'' # fmt_02u ((x mod 3600) div 60) @ CHR '':'' # fmt_02u (x mod 60) else [])"
  have "drop 3 (zone_text name x) = ?t"
    using True assms by (auto simp: zone_text_def c_div fmt_ld_def)
  with tz_abs_text [OF True] dec_not_minus True show ?thesis
    by (simp add: tz_seconds_def shown_offset_def)
next
  case False
  define y where "y = - x"
  have y: "x = - y" "0 \<le> y" "0 < y"
    using False by (simp_all add: y_def)
  let ?t = "dec (nat (y div 3600)) @ (if y mod 3600 \<noteq> 0
      then CHR '':'' # fmt_02u ((y mod 3600) div 60) @ CHR '':'' # fmt_02u (y mod 60) else [])"
  have shown: "drop 3 (zone_text name x) = (if 0 < y div 3600 then CHR ''-'' # ?t else ?t)"
    using y assms by (auto simp: zone_text_def c_div fmt_ld_def)
  have "0 < y div 3600 \<longleftrightarrow> 3600 \<le> y"
    by (simp add: pos_imp_zdiv_pos_iff)
  then show ?thesis
    unfolding shown using tz_abs_text [OF y(2)] dec_not_minus y by (auto simp: tz_seconds_def shown_offset_def)
qed

section \<open>The time zone that is set\<close>

text \<open>The two offsets of a zone: summer time is an hour ahead unless it has an offset of its own.\<close>

definition tz_std :: "string \<Rightarrow> int" where
  "tz_std tz = tz_seconds (takeWhile (\<lambda>c. c \<noteq> CHR ''D'') (drop 3 tz))"

definition tz_dst :: "string \<Rightarrow> int" where
  "tz_dst tz =
     (let d = drop 3 (dropWhile (\<lambda>c. c \<noteq> CHR ''D'') tz)
      in if d = [] then tz_std tz - 3600 else tz_seconds d)"

lemma dec_length:
  assumes "k < 100" shows "length (dec k) \<le> 2"
proof -
  have "\<forall>k\<in>{0..<100}. length (dec k) \<le> 2"
    by code_simp
  with assms show ?thesis
    by simp
qed

lemma c_div_small:
  fixes x :: int
  assumes "\<bar>x\<bar> < 360000"
  shows "\<bar>x sdiv 3600\<bar> < 100" "\<bar>(x smod 3600) sdiv 60\<bar> < 60" "\<bar>x smod 60\<bar> < 60"
proof -
  have small: "\<bar>y sdiv 3600\<bar> < 100 \<and> \<bar>(y smod 3600) sdiv 60\<bar> < 60 \<and> \<bar>y smod 60\<bar> < 60
      \<and> \<bar>(- y) sdiv 3600\<bar> < 100 \<and> \<bar>((- y) smod 3600) sdiv 60\<bar> < 60 \<and> \<bar>(- y) smod 60\<bar> < 60"
    if "0 \<le> y" "y < 360000" for y :: int
  proof -
    have "y div 3600 < 100" "0 \<le> y div 3600"
      using that zdiv_mono1 [of y 359999 3600] by (simp_all add: pos_imp_zdiv_nonneg_iff)
    moreover have "y mod 3600 div 60 < 60" "0 \<le> y mod 3600 div 60"
      using zdiv_mono1 [of "y mod 3600" 3599 60] pos_mod_bound [of 3600 y]
      by (simp_all add: pos_imp_zdiv_nonneg_iff)
    ultimately show ?thesis
      using that(1) by (simp add: c_div)
  qed
  show "\<bar>x sdiv 3600\<bar> < 100" "\<bar>(x smod 3600) sdiv 60\<bar> < 60" "\<bar>x smod 60\<bar> < 60"
    using small [of x] small [of "- x"] assms by (cases "0 \<le> x"; simp)+
qed

lemma zone_text_short:
  assumes "length name = 3" and "\<bar>x\<bar> < 360000"
  shows "length (zone_text name x) \<le> 14"
proof -
  note sd = c_div_small [OF assms(2)]
  have ld: "length (fmt_ld h) \<le> 3" if "\<bar>h\<bar> < 100" for h
  proof -
    have "nat h < 100" "nat (- h) < 100"
      using that by auto
    from this [THEN dec_length] show ?thesis
      by (simp add: fmt_ld_def)
  qed
  have u: "length (fmt_02u h) \<le> 3" if "\<bar>h\<bar> < 60" for h
  proof -
    have "nat h < 100"
      using that by auto
    from dec_length [OF this] show ?thesis
      by (simp add: fmt_02u_def)
  qed
  have "length (fmt_ld (x sdiv 3600)) \<le> 3" "length (fmt_02u \<bar>(x smod 3600) sdiv 60\<bar>) \<le> 3"
    "length (fmt_02u \<bar>x smod 60\<bar>) \<le> 3"
    using ld sd(1) by simp (rule u, use sd in simp)+
  with assms(1) show ?thesis
    by (simp add: zone_text_def)
qed

lemma zone_text_name: "zone_text name x = name @ drop (length name) (zone_text name x)"
  by (simp add: zone_text_def)

lemma zone_text_more: "drop (length name) (zone_text name x) \<noteq> []"
  by (simp add: zone_text_def fmt_ld_def dec_def)

lemma zone_text_no_D:
  "c \<in> set (drop 3 (zone_text name x)) \<Longrightarrow> length name = 3 \<Longrightarrow> c \<noteq> CHR ''D''"
  by (auto simp: zone_text_def fmt_ld_def dest!: digit_chars set_fmt_02u split: if_splits)

text \<open>
  C31: the time zone \<open>configTime\<close> sets, read back as the C library reads it, is the offset asked for, and
  so is summer time, for offsets of less than 50 hours: except that an offset less than an hour
  east of Greenwich comes out as one to the west. SNTP is stopped if it ran, and started with the three servers.
\<close>

theorem configTime_zone:
  assumes "\<bar>gmtOffset\<bar> < 180000" and "\<bar>daylight\<bar> < 180000"
  shows "\<exists>tz. configTime enabled gmtOffset daylight server1 server2 server3 s
      = Some (ext (SetTz tz) (sntp_start enabled server1 server2 server3 s))
    \<and> tz_std tz = shown_offset (- gmtOffset)
    \<and> tz_dst tz = (if daylight = 3600 then shown_offset (- gmtOffset) - 3600
                   else shown_offset (- gmtOffset - daylight))"
proof -
  define cst where "cst = zone_text ''UTC'' (- gmtOffset)"
  define cdt where "cdt = (if daylight \<noteq> 3600 then zone_text ''DST'' (- gmtOffset - daylight) else ''DST'')"
  have small: "\<bar>- gmtOffset\<bar> < 360000" "\<bar>- gmtOffset - daylight\<bar> < 360000"
    using assms by linarith+
  have len: "length cst \<le> 14" "length cdt \<le> 14"
    using zone_text_short [of "''UTC''", OF _ small(1)] zone_text_short [of "''DST''", OF _ small(2)]
    by (simp_all add: cst_def cdt_def)
  have set: "configTime enabled gmtOffset daylight server1 server2 server3 s
      = Some (ext (SetTz (cst @ cdt)) (sntp_start enabled server1 server2 server3 s))"
    using len by (simp add: configTime_def setTimeZone_def Let_def cst_def [symmetric] cdt_def [symmetric])
  obtain c where c: "cst = ''UTC'' @ c"
    using zone_text_name [of "''UTC''"] unfolding cst_def by blast
  obtain d where d: "cdt = ''DST'' @ d"
    using zone_text_name [of "''DST''"] unfolding cdt_def by (metis append_Nil2)
  have no_D: "\<forall>x\<in>set c. x \<noteq> CHR ''D''"
    using zone_text_no_D [of _ "''UTC''" "- gmtOffset"] c by (simp add: cst_def [symmetric])
  have std: "tz_seconds c = shown_offset (- gmtOffset)"
    using zone_text_read [of "''UTC''" "- gmtOffset"] c by (simp add: cst_def [symmetric])
  have split: "takeWhile (\<lambda>x. x \<noteq> CHR ''D'') (c @ ''DST'' @ d) = c"
    "dropWhile (\<lambda>x. x \<noteq> CHR ''D'') (c @ ''DST'' @ d) = ''DST'' @ d"
    using no_D by (simp_all add: takeWhile_append2 dropWhile_append2)
  have tz: "tz_std (cst @ cdt) = shown_offset (- gmtOffset)"
    using split(1) by (simp add: tz_std_def c d std)
  moreover have "drop 3 (dropWhile (\<lambda>x. x \<noteq> CHR ''D'') (cst @ cdt)) = d"
    using split(2) by (simp add: c d)
  moreover have "daylight = 3600 \<Longrightarrow> d = []"
    "daylight \<noteq> 3600 \<Longrightarrow> d \<noteq> [] \<and> tz_seconds d = shown_offset (- gmtOffset - daylight)"
    using zone_text_read [of "''DST''" "- gmtOffset - daylight"]
      zone_text_more [of "''DST''" "- gmtOffset - daylight"] d by (simp_all add: cdt_def)
  ultimately have "tz_dst (cst @ cdt) = (if daylight = 3600 then shown_offset (- gmtOffset) - 3600
      else shown_offset (- gmtOffset - daylight))"
    by (auto simp: tz_dst_def Let_def)
  with set tz show ?thesis
    by blast
qed

theorem configTime_zone_witness:
  "\<exists>tz. configTime False 28800 0 1 2 3 \<lparr>soc_regs = \<lambda>_. 0, soc_trace = []\<rparr>
      = Some (ext (SetTz tz) (sntp_start False 1 2 3 \<lparr>soc_regs = \<lambda>_. 0, soc_trace = []\<rparr>))
    \<and> tz_std tz = - 28800 \<and> tz_dst tz = - 28800"
  using configTime_zone [of 28800 0 False 1 2 3 "\<lparr>soc_regs = \<lambda>_. 0, soc_trace = []\<rparr>"]
  by (simp add: shown_offset_def)

section \<open>Waiting for the time\<close>

lemma time_loop_spec:
  assumes "\<And>s. soc_trace (env s) = soc_trace s" and "time_loop env year n s = (ok, t)"
  shows "\<exists>k\<le>n. soc_trace t = soc_trace s @ replicate k (Ext (TaskDelay 10)) \<and> (ok \<longrightarrow> 116 < year t)
    \<and> (\<not> ok \<longrightarrow> k = n \<and> (n \<noteq> 0 \<longrightarrow> year t \<le> 116))"
  using assms(2)
proof (induction n arbitrary: s)
  case 0
  then show ?case
    by simp
next
  case (Suc n)
  define u where "u = env (delay_ms 10 s)"
  have u: "soc_trace u = soc_trace s @ [Ext (TaskDelay 10)]"
    by (simp add: u_def assms(1) delay_ms_def ext_def portTICK_PERIOD_MS_def)
  show ?case
  proof (cases "116 < year u")
    case True
    then have "ok" "t = u"
      using Suc.prems by (simp_all add: Let_def u_def [symmetric])
    with True u show ?thesis
      by (intro exI [of _ 1]) simp
  next
    case False
    then have "time_loop env year n u = (ok, t)"
      using Suc.prems by (simp add: Let_def u_def [symmetric])
    from Suc.IH [OF this] obtain k where "k \<le> n" "soc_trace t = soc_trace u @ replicate k (Ext (TaskDelay 10))"
        "ok \<longrightarrow> 116 < year t" "\<not> ok \<longrightarrow> k = n \<and> (n \<noteq> 0 \<longrightarrow> year t \<le> 116)"
      by blast
    then show ?thesis
      using False \<open>time_loop env year n u = (ok, t)\<close>
      by (intro exI [of _ "Suc k"]) (cases n; auto simp: u)
  qed
qed

text \<open>
  \<open>getLocalTime\<close> waits at most the time it was given, in steps of 10 milliseconds, and says whether
  the calendar is set: it succeeds exactly when a reading after 2016 was seen, and a failure has used up
  all of the time.
\<close>

theorem getLocalTime_waits:
  assumes "\<And>s. soc_trace (env s) = soc_trace s" and "getLocalTime env year ms s = (ok, t)"
  shows "\<exists>k. k * 10 \<le> unat ms \<and> soc_trace t = soc_trace s @ replicate k (Ext (TaskDelay 10))
    \<and> (ok \<longleftrightarrow> 116 < year t) \<and> (\<not> ok \<longrightarrow> unat ms < k * 10 + 10)"
proof (cases "116 < year (env s)")
  case True
  then have "ok" "t = env s"
    using assms(2) by (simp_all add: getLocalTime_def Let_def)
  with True assms(1) show ?thesis
    by (intro exI [of _ 0]) simp
next
  case False
  define n where "n = unat (ms div 10)"
  have n: "n = unat ms div 10"
    by (simp add: n_def unat_div)
  have loop: "time_loop env year n (env s) = (ok, t)"
    using assms(2) False by (simp add: getLocalTime_def Let_def n_def)
  from time_loop_spec [OF assms(1) this] obtain k where k: "k \<le> n"
      "soc_trace t = soc_trace s @ replicate k (Ext (TaskDelay 10))" "ok \<longrightarrow> 116 < year t"
      "\<not> ok \<longrightarrow> k = n \<and> (n \<noteq> 0 \<longrightarrow> year t \<le> 116)"
    using assms(1) by auto
  have "n = 0 \<Longrightarrow> t = env s"
    using loop by simp
  with k(3,4) False have "ok \<longleftrightarrow> 116 < year t"
    by (cases "n = 0") auto
  moreover have "k * 10 \<le> unat ms" "k = n \<Longrightarrow> unat ms < k * 10 + 10"
    using k(1) by (auto simp: n)
  ultimately show ?thesis
    using k(2,4) by blast
qed

theorem getLocalTime_waits_witness:
  "\<exists>t. getLocalTime (\<lambda>s :: soc. s) (\<lambda>s. 100 + 5 * int (length (soc_trace s))) 50
      \<lparr>soc_regs = \<lambda>_. 0, soc_trace = []\<rparr> = (True, t) \<and> 4 \<le> length (soc_trace t)"
proof -
  obtain ok t where t: "getLocalTime (\<lambda>s :: soc. s) (\<lambda>s. 100 + 5 * int (length (soc_trace s))) 50
      \<lparr>soc_regs = \<lambda>_. 0, soc_trace = []\<rparr> = (ok, t)"
    by fastforce
  obtain k where "soc_trace t = replicate k (Ext (TaskDelay 10))"
      "ok \<longleftrightarrow> 116 < 100 + 5 * int (length (soc_trace t))" "\<not> ok \<longrightarrow> 50 < k * 10 + 10"
    using getLocalTime_waits [OF _ t] by auto
  then have "ok" "4 \<le> length (soc_trace t)"
    by (cases ok; simp)+
  with t show ?thesis
    by auto
qed

end
