(* ===== verification/Board.thy ===== *)
theory Board
  imports Gpio
begin

text \<open>
  The start of the board: external memory (\<^verbatim>\<open>esp32-hal-psram.c\<close>), the Bluetooth controller
  (\<^verbatim>\<open>esp32-hal-bt.c\<close>) and \<^verbatim>\<open>initArduino\<close> of \<^verbatim>\<open>esp32-hal-misc.c\<close>, as configured by \<^verbatim>\<open>sdkconfig.h\<close>: with
  external memory that the boot loader does not start, with Bluetooth and the Bluedroid stack. The SDK's
  routines are events whose outcomes are parameters, as is the controller's own state.
\<close>

section \<open>External memory\<close>

record psram_soc = soc +
  spiramDetected :: bool
  spiramFailed :: bool

definition psram_boot :: "soc \<Rightarrow> psram_soc" where
  "psram_boot s = soc.extend s \<lparr>spiramDetected = False, spiramFailed = False\<rparr>"

text \<open>The outcomes of starting the memory, testing it and adding it to the heap.\<close>

record psram_env =
  pe_start :: bool
  pe_test :: bool
  pe_heap :: bool

definition EFUSE_BLK0_RDATA3_REG :: u32 where "EFUSE_BLK0_RDATA3_REG = 0x3FF5A00C"

definition chip_package :: "'a soc_scheme \<Rightarrow> u32" where
  "chip_package s = (drop_bit 9 (rd (Mem EFUSE_BLK0_RDATA3_REG) s) AND 0x7) AND 0x7"

definition no_psram_package :: "u32 \<Rightarrow> bool" where
  "no_psram_package p \<longleftrightarrow> p = 2 \<or> p = 4 \<or> p = 5"

definition psram_fail :: "psram_soc \<Rightarrow> bool \<times> psram_soc" where
  "psram_fail s = (False, s\<lparr>spiramFailed := True\<rparr>)"

definition psramInit :: "psram_env \<Rightarrow> psram_soc \<Rightarrow> bool \<times> psram_soc" where
  "psramInit E s =
     (if spiramDetected s then (True, s)
      else if spiramFailed s then (False, s)
      else if no_psram_package (chip_package s) then psram_fail s
      else
        let s = ext SpiramStart (ext SpiramCache s)
        in if \<not> pe_start E then
             (case psram_fail s of (r, s) \<Rightarrow>
                (r, pinMatrixOutDetach 17 False False (pinMatrixOutDetach 16 False False s)))
           else
             let s = ext SpiramCheck s
             in if \<not> pe_test E then psram_fail s
                else
                  let s = ext SpiramHeap s
                  in if \<not> pe_heap E then psram_fail s else (True, s\<lparr>spiramDetected := True\<rparr>))"

definition psramFound :: "psram_soc \<Rightarrow> bool" where
  "psramFound s = spiramDetected s"

text \<open>
  The three allocators: \<open>p\<close> is what the heap returns for the call \<open>c\<close>, which asks for byte-addressable
  external memory.
\<close>

definition MALLOC_CAP_SPIRAM_8BIT :: u32 where "MALLOC_CAP_SPIRAM_8BIT = BIT 10 OR BIT 2"

definition ps_alloc :: "ptr \<Rightarrow> call \<Rightarrow> psram_soc \<Rightarrow> ptr \<times> psram_soc" where
  "ps_alloc p c s = (if \<not> spiramDetected s then (NULL, s) else (p, ext c s))"

definition ps_malloc :: "ptr \<Rightarrow> nat \<Rightarrow> psram_soc \<Rightarrow> ptr \<times> psram_soc" where
  "ps_malloc p sz = ps_alloc p (HeapMalloc sz MALLOC_CAP_SPIRAM_8BIT)"

definition ps_calloc :: "ptr \<Rightarrow> nat \<Rightarrow> nat \<Rightarrow> psram_soc \<Rightarrow> ptr \<times> psram_soc" where
  "ps_calloc p n sz = ps_alloc p (HeapCalloc n sz MALLOC_CAP_SPIRAM_8BIT)"

definition ps_realloc :: "ptr \<Rightarrow> ptr \<Rightarrow> nat \<Rightarrow> psram_soc \<Rightarrow> ptr \<times> psram_soc" where
  "ps_realloc p old sz = ps_alloc p (HeapRealloc old sz MALLOC_CAP_SPIRAM_8BIT)"

section \<open>The Bluetooth controller\<close>

datatype bt_status = BT_IDLE | BT_INITED | BT_ENABLED

text \<open>
  The controller of the SDK over a state of its own: what may happen before a reading of its status, the
  status, and the three commands; a command that can fail says whether it did.
\<close>

record 's bt_controller =
  bc_step :: "'s \<Rightarrow> 's"
  bc_status :: "'s \<Rightarrow> bt_status"
  bc_init :: "'s \<Rightarrow> 's"
  bc_enable :: "'s \<Rightarrow> bool \<times> 's"
  bc_disable :: "'s \<Rightarrow> bool \<times> 's"

definition bt_is :: "'s bt_controller \<Rightarrow> bt_status \<Rightarrow> 's \<Rightarrow> bool \<times> 's" where
  "bt_is C x s = (let s = bc_step C s in (bc_status C s = x, s))"

definition btStarted :: "'s bt_controller \<Rightarrow> 's \<Rightarrow> bool \<times> 's" where
  "btStarted C s = bt_is C BT_ENABLED s"

text \<open>The last part of \<open>btStart\<close> and \<open>btStop\<close>: one more reading decides.\<close>

definition bt_start_up :: "'s bt_controller \<Rightarrow> 's \<Rightarrow> 's option" where
  "bt_start_up C s =
     (case bt_is C BT_IDLE s of (idle, s) \<Rightarrow>
        if idle then await (bc_step C) (\<lambda>s. bc_status C s \<noteq> BT_IDLE) (bc_init C s) else Some s)"

definition btStart :: "'s bt_controller \<Rightarrow> 's \<Rightarrow> (bool \<times> 's) option" where
  "btStart C s =
     (case bt_is C BT_ENABLED s of (enabled, s) \<Rightarrow>
        if enabled then Some (True, s)
        else case bt_start_up C s of
          None \<Rightarrow> None
        | Some s \<Rightarrow>
            (case bt_is C BT_INITED s of (inited, s) \<Rightarrow>
               case (if inited then bc_enable C s else (False, s)) of (failed, s) \<Rightarrow>
                 Some (if failed then (False, s) else bt_is C BT_ENABLED s)))"

definition bt_shut_down :: "'s bt_controller \<Rightarrow> 's \<Rightarrow> (bool \<times> 's) option" where
  "bt_shut_down C s =
     (case bt_is C BT_ENABLED s of (enabled, s) \<Rightarrow>
        if enabled then
          case bc_disable C s of (failed, s) \<Rightarrow>
            if failed then Some (True, s)
            else map_option (Pair False) (await (bc_step C) (\<lambda>s. bc_status C s \<noteq> BT_ENABLED) s)
        else Some (False, s))"

definition btStop :: "'s bt_controller \<Rightarrow> 's \<Rightarrow> (bool \<times> 's) option" where
  "btStop C s =
     (case bt_is C BT_IDLE s of (idle, s) \<Rightarrow>
        if idle then Some (True, s)
        else case bt_shut_down C s of
          None \<Rightarrow> None
        | Some (failed, s) \<Rightarrow> Some (if failed then (False, s) else bt_is C BT_INITED s))"

section \<open>The start of the program\<close>

text \<open>What \<^verbatim>\<open>nvs_flash_init\<close> returns.\<close>

datatype nvs_result = ESP_OK | ESP_ERR_NVS_NO_FREE_PAGES | NvsOther

text \<open>
  The environment of \<open>initArduino\<close>: the memory, the results of the first and second start of the
  settings store, its partition with its size, whether erasing fails, and whether \<^verbatim>\<open>esp32-hal-bt.c\<close> is
  linked, whose \<^verbatim>\<open>btInUse\<close> then replaces the one of \<^verbatim>\<open>esp32-hal-misc.c\<close>.
\<close>

record start_env =
  se_psram :: psram_env
  se_nvs :: nvs_result
  se_partition :: "nat option"
  se_erase_fails :: bool
  se_nvs_again :: nvs_result
  se_bt_linked :: bool

definition btInUse :: "start_env \<Rightarrow> bool" where
  "btInUse E = se_bt_linked E"

definition nvs_start :: "start_env \<Rightarrow> psram_soc \<Rightarrow> bool \<times> psram_soc" where
  "nvs_start E s =
     (let s = ext NvsInit s
      in if se_nvs E = ESP_ERR_NVS_NO_FREE_PAGES then
           case se_partition E of
             None \<Rightarrow> (False, s)
           | Some sz \<Rightarrow>
               let s = ext (PartErase sz) s
               in if se_erase_fails E then (False, s) else (se_nvs_again E = ESP_OK, ext NvsInit s)
         else (se_nvs E = ESP_OK, s))"

text \<open>\<open>init\<close> and \<open>variant\<close> are the two functions a sketch may replace. A failed store is only logged.\<close>

definition initArduino ::
  "(psram_soc \<Rightarrow> psram_soc) \<Rightarrow> (psram_soc \<Rightarrow> psram_soc) \<Rightarrow> start_env \<Rightarrow> psram_soc \<Rightarrow> psram_soc" where
  "initArduino init variant E = exec
     [\<lambda>s. snd (psramInit (se_psram E) s),
      ext (LogLevel 1),
      \<lambda>s. snd (nvs_start E s),
      \<lambda>s. if \<not> btInUse E then ext BtRelease s else s,
      init,
      variant]"

section \<open>Lemmas\<close>

text \<open>The memory is never both detected and failed, and both answers are final.\<close>

definition psram_settled :: "psram_soc \<Rightarrow> bool" where
  "psram_settled s \<longleftrightarrow> \<not> (spiramDetected s \<and> spiramFailed s)"

lemma flags_ext [simp]: "spiramDetected (ext c s) = spiramDetected s" "spiramFailed (ext c s) = spiramFailed s"
  "spiramDetected (pinMatrixOutDetach p a b s) = spiramDetected s"
  "spiramFailed (pinMatrixOutDetach p a b s) = spiramFailed s"
  by (simp_all add: ext_def pinMatrixOutDetach_def)

text \<open>
  The external memory is started at most once, and the answer is final: a first call answers whether
  the package has memory and all three steps succeeded; from then on every call, with whatever
  outcomes, repeats the answer without touching the hardware, and memory is handed out exactly when the
  answer was yes.
\<close>

theorem psramInit_once:
  assumes "psramInit E s = (ok, t)" and "psram_settled s"
  shows "psramInit E' t = (ok, t) \<and> psram_settled t \<and> psramFound t = ok
    \<and> (\<not> spiramDetected s \<and> \<not> spiramFailed s \<longrightarrow>
         ok = (\<not> no_psram_package (chip_package s) \<and> pe_start E \<and> pe_test E \<and> pe_heap E))
    \<and> ps_malloc p n t = (if ok then (p, ext (HeapMalloc n MALLOC_CAP_SPIRAM_8BIT) t) else (NULL, t))"
  using assms
  by (auto simp: psramInit_def psram_settled_def psram_fail_def psramFound_def ps_malloc_def ps_alloc_def
      Let_def split: if_splits prod.splits)

theorem psramInit_once_witness:
  "\<exists>t. psramInit \<lparr>pe_start = True, pe_test = True, pe_heap = True\<rparr>
         (psram_boot \<lparr>soc_regs = \<lambda>_. 0, soc_trace = []\<rparr>) = (True, t)
     \<and> psramInit \<lparr>pe_start = False, pe_test = False, pe_heap = False\<rparr> t = (True, t)"
proof -
  let ?s = "psram_boot \<lparr>soc_regs = \<lambda>_. 0, soc_trace = []\<rparr>"
  let ?E = "\<lparr>pe_start = True, pe_test = True, pe_heap = True\<rparr>"
  obtain ok t where t: "psramInit ?E ?s = (ok, t)"
    by fastforce
  have "\<not> spiramDetected ?s" "\<not> spiramFailed ?s" "chip_package ?s = 0"
    by (simp_all add: psram_boot_def soc.defs chip_package_def rd_def)
  then show ?thesis
    using psramInit_once [OF t, of "\<lparr>pe_start = False, pe_test = False, pe_heap = False\<rparr>"] t
    by (auto simp: psram_settled_def no_psram_package_def)
qed

lemma bt_is_status: "bt_is C x s = (b, t) \<Longrightarrow> b \<longleftrightarrow> bc_status C t = x"
  by (auto simp: bt_is_def Let_def)

lemma bt_disciplined_step: "bt_is C x s = (bc_status C (bc_step C s) = x, bc_step C s)"
  by (simp add: bt_is_def Let_def)

text \<open>
  Starting and stopping the Bluetooth controller tell the truth: when \<open>btStart\<close> returns true the
  controller is enabled, when \<open>btStop\<close> returns true it is not; and \<open>btStart\<close> returns whenever a started
  initialisation gets out of the idle state.
\<close>

theorem btStart_result:
  assumes "\<And>s. \<exists>k. bc_status C ((bc_step C ^^ Suc k) (bc_init C s)) \<noteq> BT_IDLE"
  shows "\<exists>ok t. btStart C s = Some (ok, t) \<and> (ok \<longrightarrow> bc_status C t = BT_ENABLED)
    \<and> (\<forall>t'. btStop C t = Some (True, t') \<longrightarrow> bc_status C t' \<noteq> BT_ENABLED)"
proof -
  have stop: "bc_status C t' \<noteq> BT_ENABLED" if "btStop C t = Some (True, t')" for t t'
    using that by (auto simp: btStop_def bt_is_def Let_def split: if_splits option.splits prod.splits)
  have up: "\<exists>t. bt_start_up C s = Some t" for s
    using await_ex [where env = "bc_step C" and c = "\<lambda>s. bc_status C s \<noteq> BT_IDLE", OF assms]
    by (auto simp: bt_start_up_def bt_is_def Let_def simp del: funpow.simps)
  obtain u where u: "bt_start_up C (bc_step C s) = Some u"
    using up by blast
  have "\<exists>ok t. btStart C s = Some (ok, t) \<and> (ok \<longrightarrow> bc_status C t = BT_ENABLED)"
    by (auto simp: btStart_def bt_is_def Let_def u split: prod.splits)
  with stop show ?thesis
    by blast
qed

definition bt_ex :: "bt_status bt_controller" where
  "bt_ex = \<lparr>bc_step = (\<lambda>s. s), bc_status = (\<lambda>s. s), bc_init = (\<lambda>s. BT_INITED),
     bc_enable = (\<lambda>s. (False, BT_ENABLED)), bc_disable = (\<lambda>s. (False, BT_INITED))\<rparr>"

theorem btStart_result_witness:
  "\<exists>ok t. btStart bt_ex BT_IDLE = Some (ok, t) \<and> (ok \<longrightarrow> t = BT_ENABLED)"
proof -
  have "bc_status bt_ex ((bc_step bt_ex ^^ Suc 0) (bc_init bt_ex s)) \<noteq> BT_IDLE" for s
    by (simp add: bt_ex_def)
  then have "\<exists>k. bc_status bt_ex ((bc_step bt_ex ^^ Suc k) (bc_init bt_ex s)) \<noteq> BT_IDLE" for s
    by blast
  from btStart_result [OF this, of BT_IDLE] show ?thesis
    by (auto simp: bt_ex_def)
qed

text \<open>
  The settings store is erased only when it has no free pages, then all of it, and it is started again
  only after it was erased.
\<close>

lemma nvs_start_erases:
  "nvs_start E s = (ok, t) \<Longrightarrow> soc_trace t = soc_trace s @ Ext NvsInit #
     (if se_nvs E = ESP_ERR_NVS_NO_FREE_PAGES
      then case se_partition E of None \<Rightarrow> []
           | Some sz \<Rightarrow> Ext (PartErase sz) # (if se_erase_fails E then [] else [Ext NvsInit])
      else [])"
  by (auto simp: nvs_start_def ext_def Let_def split: if_splits option.splits)

end
