(* ===== verification/Spec2Isabelle.thy ===== *)
theory Spec2Isabelle
  imports Noniso Base64 SdCrc Gpio Wiring Sketch Timer Ledc Adc Touch SigmaDelta Spi SpiTransfer SpiClock
    UartMutex RmtStream I2cSession I2cData Clock Board
begin

text \<open>
  Verification of the firmware of a claw machine monitor on the ESP32.

  The repository holds a sketch, \<^verbatim>\<open>src/arduino/iot/iot.ino\<close>, that counts the coins and the prizes of a
  claw machine and uploads the counts, the Arduino core it is built on,
  \<^verbatim>\<open>src/arduino/hardware/espressif/esp32\<close>, and a cloud back end and a telephone application in other
  languages. The development models the sketch and the C drivers of the core.

  \<^bold>\<open>The machine.\<close> \<open>HalPrelude\<close> has the C integers at their width
  (\<open>u8\<close>, \<open>u16\<close>, \<open>u32\<close>, with wrap-around), the bit fields of a
  register (\<open>bf_get\<close>, \<open>bf_put\<close>), statement blocks (\<open>exec\<close> for
  statements that always return, \<open>run\<close> for those that may not) and the busy-wait loop
  \<open>await\<close>. \<open>Soc\<close> has the memory-mapped registers and the log of all stores and
  calls of outside code, in order; every volatile store is an event, because the hardware reacts to each of
  them. The state is an extensible record \<open>soc\<close>: a driver's static variables extend it
  (\<open>gpio_soc\<close>, \<open>uart_soc\<close>, \<open>spi_soc\<close>, \<open>rmt_soc\<close>,
  \<open>i2c_soc\<close> and so on), so a driver that calls another (I2C and UART the pins, the pins the
  matrix) calls its definitions on the same state. \<open>CMem\<close> has byte-addressed memory for drivers
  that move buffers, \<open>Mutex\<close> the locale \<open>mutex_macros\<close> of the LOCK and UNLOCK
  macros, interpreted on the macros of the SPI, UART, and I2C drivers.

  \<^bold>\<open>The components\<close>, each with the definitions under the names of the functions they translate:

    \<^item> \<open>Sketch\<close> (\<^verbatim>\<open>iot.ino\<close>): \<open>setup\<close> and \<open>loop\<close> with the echo sensor, the counters and the upload.
    \<^item> \<open>Gpio\<close> (\<^verbatim>\<open>esp32-hal-gpio.c\<close>, \<^verbatim>\<open>esp32-hal-matrix.c\<close>): pin modes, levels, the table of pin
      interrupts and its dispatcher; \<open>Wiring\<close> (\<^verbatim>\<open>wiring_shift.c\<close>, \<^verbatim>\<open>wiring_pulse.c\<close>) builds on it.
    \<^item> \<open>Timer\<close>, \<open>Ledc\<close>, \<open>Adc\<close> (with the DAC), \<open>Touch\<close>, \<open>SigmaDelta\<close>: the other peripherals of
      \<^verbatim>\<open>cores/esp32\<close>, one file each.
    \<^item> \<open>Spi\<close>, \<open>SpiTransfer\<close>, \<open>SpiClock\<close> (\<^verbatim>\<open>esp32-hal-spi.c\<close>): the bus and its mutex, the transfers over a
      memory, and the search for clock dividers.
    \<^item> \<open>Uart\<close> (\<^verbatim>\<open>esp32-hal-uart.c\<close>): the definitions; \<open>UartRx\<close>: the receive path implements a bounded
      FIFO; \<open>UartTx\<close>: sending, baud rate, starting, resizing; \<open>UartMutex\<close>: sessions of calls.
    \<^item> \<open>Rmt\<close> (\<^verbatim>\<open>esp32-hal-rmt.c\<close>): the definitions; \<open>RmtAlloc\<close>: handing out channels; \<open>RmtStream\<close>: sending.
    \<^item> \<open>I2c\<close> (\<^verbatim>\<open>esp32-hal-i2c.c\<close>): the definitions; \<open>I2cCmd\<close>: the command list implements the abstract
      sequence of bus commands; \<open>I2cIsr\<close>, \<open>I2cSession\<close>: when its interrupt returns, and sessions of calls;
      \<open>I2cData\<close>: the frequency, the form of the addresses and the order of the bytes sent.
    \<^item> \<open>Clock\<close> (\<^verbatim>\<open>esp32-hal-misc.c\<close>, \<^verbatim>\<open>esp32-hal-time.c\<close>): the waits, file names, time zone and local
      time; \<open>Board\<close> (\<^verbatim>\<open>esp32-hal-psram.c\<close>, \<^verbatim>\<open>esp32-hal-bt.c\<close>, \<^verbatim>\<open>initArduino\<close>): the start of the board.
    \<^item> \<open>Noniso\<close> (\<^verbatim>\<open>stdlib_noniso.c\<close>), \<open>Base64\<close> (\<^verbatim>\<open>libb64\<close>), \<open>SdCrc\<close> (\<^verbatim>\<open>sd_diskio_crc.c\<close>): number formatting,
      the base64 codec and the checksums of SD cards.

  \<^bold>\<open>Conventions.\<close> A driver's handle is \<open>None\<close> for NULL, otherwise the index
  of its static object. Code that is not in the repository is a parameter. What the hardware does on its
  own, before a reading or after a store, is a function on registers (\<open>regfile\<close>), given to the
  operation as an argument or as a field of a record (\<open>i2c_hw\<close>, \<open>i2c_env\<close>);
  FreeRTOS queues are records of functions (\<open>UartRx\<close> states their laws as the locale
  \<open>byte_queue\<close>, interpreted on lists); ROM routines, the interrupt allocator, event groups and
  user callbacks are events in the log, and the outcome of an allocation is a Boolean or pointer argument.
  The pad table of the SDK is the argument \<open>desc\<close>. \<open>None\<close> as the result of an
  operation means that the C function does not return, or that its behaviour is undefined (a division by
  zero, a mutex that does not exist, a NULL handle dereferenced). Loops that may not end are
  \<open>partial_function (option)\<close>, so no fuel is chosen anywhere, and that they return is a theorem
  of its own with the condition on the hardware it needs. Interrupts are operations too: the step relations
  \<open>uart_call\<close> and \<open>i2c_call\<close> interleave them with calls in any order, and while a
  task waits in \<open>i2cProcQueue\<close> a list of hardware steps, each followed by the interrupt, stands
  for what happens.

  \<^bold>\<open>What is proved.\<close> Functional results of the operations on every branch; invariants of
  sessions (the conservation of prizes in the sketch, ownership of interrupt arguments, disjoint blocks of
  RMT channels, well-typed I2C queues, free mutexes); refinements (the serial receiver and an abstract FIFO,
  RMT refills and the caller's buffer, I2C command lists and the abstract sequence, the I2C FIFO and the
  bytes of the queue); equivalence with reference definitions (checksums and the bitwise polynomial
  division); round trips (base64, numbers, shifting, baud rates, bus frequencies, time zones); bounds and
  wrap-around; termination of polling loops and of the I2C interrupt; and error behaviour, including the
  defects the manifest lists.

  \<^bold>\<open>Not modelled.\<close> \<open>dtostrf\<close>, \<open>temperatureRead\<close> and the two
  timer readings in seconds compute with IEEE doubles, which the library does not have; the doubles of
  \<open>Ledc\<close> and \<open>Sketch\<close> are exact fractions or a parameter, as said there. Log
  messages and the debug dumps of the I2C driver, which are compiled out, have no effect on the state. The
  C++ classes and libraries (\<^verbatim>\<open>Wire\<close>, \<^verbatim>\<open>WiFi\<close>,
  \<^verbatim>\<open>HardwareSerial\<close> and others) are wrappers or third-party code in another
  language; the SDK headers are read only for the registers the drivers use; expat and the precompiled SDK
  are third-party; the cloud functions and the application are not C.
\<close>

end
